(* ===== verification/HA_Prelude.thy ===== *)
theory HA_Prelude
  imports Main "HOL-Library.Word"
begin

text \<open>
  The prelude of the development: the machine-integer types of \<^verbatim>\<open>src/src/hnbase/type.h\<close>,
  the C++ containers the components are written with, and the lemmas about them that the
  component proofs share.

  \<^item> A \<^verbatim>\<open>std::map\<close> is an association list kept in the order of its comparator, a
    \<^verbatim>\<open>std::set\<close> is a sorted list without duplicates, a \<^verbatim>\<open>std::multimap\<close> is an
    association list in which equal keys stay in insertion order. Iterating over a container is
    then recursion over the list, in the order the C++ iterator visits it.
  \<^item> The locale \<open>std_less\<close> is the contract of a comparator (a strict total order); the laws of
    \<^verbatim>\<open>operator[]\<close>, \<^verbatim>\<open>insert\<close>, \<^verbatim>\<open>find\<close> and \<^verbatim>\<open>erase\<close> are proved once inside it
    and reach the components through its interpretations.
\<close>

section \<open>Machine integers\<close>

type_synonym u8 = "8 word"
type_synonym u16 = "16 word"
type_synonym u32 = "32 word"
type_synonym u64 = "64 word"
type_synonym u160 = "160 word"
type_synonym u256 = "256 word"
type_synonym bytes = "u8 list"

named_theorems inv_simps \<open>unfolding equations of the component invariants\<close>
named_theorems inv_intros \<open>preservation lemmas of the component invariants\<close>

section \<open>Ordered containers\<close>

fun smap_set :: "('k \<Rightarrow> 'k \<Rightarrow> bool) \<Rightarrow> 'k \<Rightarrow> 'v \<Rightarrow> ('k \<times> 'v) list \<Rightarrow> ('k \<times> 'v) list" where
  "smap_set lt k v [] = [(k, v)]"
| "smap_set lt k v ((k', v') # m) =
     (if lt k' k then (k', v') # smap_set lt k v m
      else if lt k k' then (k, v) # (k', v') # m
      else (k, v) # m)"

text \<open>\<^verbatim>\<open>std::map::insert\<close> leaves an existing entry alone.\<close>

definition smap_insert :: "('k \<Rightarrow> 'k \<Rightarrow> bool) \<Rightarrow> 'k \<Rightarrow> 'v \<Rightarrow> ('k \<times> 'v) list \<Rightarrow> ('k \<times> 'v) list" where
  "smap_insert lt k v m = (if map_of m k = None then smap_set lt k v m else m)"

definition smap_erase :: "'k \<Rightarrow> ('k \<times> 'v) list \<Rightarrow> ('k \<times> 'v) list" where
  "smap_erase k m = filter (\<lambda>p. fst p \<noteq> k) m"

definition smap_sorted :: "('k \<Rightarrow> 'k \<Rightarrow> bool) \<Rightarrow> ('k \<times> 'v) list \<Rightarrow> bool" where
  "smap_sorted lt m = sorted_wrt lt (map fst m)"

lemma map_of_smap_erase [simp]: "map_of (smap_erase k m) k' = (if k' = k then None else map_of m k')"
  by (induction m) (auto simp: smap_erase_def)

lemma set_smap_erase: "set (smap_erase k m) = {p \<in> set m. fst p \<noteq> k}"
  by (simp add: smap_erase_def)

lemma smap_sorted_Nil [simp]: "smap_sorted lt []"
  by (simp add: smap_sorted_def)

lemma sorted_wrt_map_filter: "sorted_wrt r (map f xs) \<Longrightarrow> sorted_wrt r (map f (filter P xs))"
  by (induction xs) auto

lemma smap_sorted_erase [simp, intro]: "smap_sorted lt m \<Longrightarrow> smap_sorted lt (smap_erase k m)"
  by (simp add: smap_sorted_def smap_erase_def sorted_wrt_map_filter)

text \<open>The contract of a comparator object, and what the ordered containers then guarantee.\<close>

locale std_less =
  fixes lt :: "'k \<Rightarrow> 'k \<Rightarrow> bool"
  assumes irrefl: "\<not> lt a a"
    and trans: "lt a b \<Longrightarrow> lt b c \<Longrightarrow> lt a c"
    and total: "lt a b \<or> a = b \<or> lt b a"
begin

lemma equiv_eq: "\<not> lt a b \<Longrightarrow> \<not> lt b a \<Longrightarrow> a = b"
  using total by blast

lemma map_of_set: "map_of (smap_set lt k v m) = (map_of m)(k \<mapsto> v)"
  by (induction m) (auto simp: irrefl fun_eq_iff dest: equiv_eq)

lemma map_of_insert:
  "map_of (smap_insert lt k v m) = (if map_of m k = None then (map_of m)(k \<mapsto> v) else map_of m)"
  by (simp add: smap_insert_def map_of_set)

lemma keys_set: "fst ` set (smap_set lt k v m) = insert k (fst ` set m)"
proof (induction m)
  case (Cons p m)
  obtain k' v' where "p = (k', v')" by (cases p)
  then show ?case
    using Cons.IH by (auto dest: equiv_eq)
qed simp

lemma set_set_subset: "set (smap_set lt k v m) \<subseteq> insert (k, v) (set m)"
  by (induction m) (auto split: if_splits)

lemma sorted_set: "smap_sorted lt m \<Longrightarrow> smap_sorted lt (smap_set lt k v m)"
proof (induction m)
  case (Cons p m)
  obtain k' v' where p: "p = (k', v')" by (cases p)
  have "\<forall>x \<in> fst ` set (smap_set lt k v m). lt k' x" if "lt k' k"
    using Cons.prems that p keys_set[of k v m] by (auto simp: smap_sorted_def)
  then show ?case
    using Cons p by (auto simp: smap_sorted_def dest: equiv_eq intro: trans)
qed (simp add: smap_sorted_def)

lemma sorted_insert: "smap_sorted lt m \<Longrightarrow> smap_sorted lt (smap_insert lt k v m)"
  by (simp add: smap_insert_def sorted_set)

lemma sorted_distinct: "smap_sorted lt m \<Longrightarrow> distinct (map fst m)"
  unfolding smap_sorted_def by (induction m) (use irrefl in auto)

lemma mem_iff_find: "smap_sorted lt m \<Longrightarrow> (k, v) \<in> set m \<longleftrightarrow> map_of m k = Some v"
  by (simp add: sorted_distinct)

end

interpretation lin: std_less "(<) :: 'a::linorder \<Rightarrow> 'a \<Rightarrow> bool"
  by unfold_locales auto

text \<open>The maps whose keys are compared with \<^verbatim>\<open>operator<\<close>.\<close>

abbreviation mput :: "'k::linorder \<Rightarrow> 'v \<Rightarrow> ('k \<times> 'v) list \<Rightarrow> ('k \<times> 'v) list" where
  "mput \<equiv> smap_set (<)"
abbreviation mins :: "'k::linorder \<Rightarrow> 'v \<Rightarrow> ('k \<times> 'v) list \<Rightarrow> ('k \<times> 'v) list" where
  "mins \<equiv> smap_insert (<)"
abbreviation mdel :: "'k \<Rightarrow> ('k \<times> 'v) list \<Rightarrow> ('k \<times> 'v) list" where
  "mdel \<equiv> smap_erase"
abbreviation msorted :: "('k::linorder \<times> 'v) list \<Rightarrow> bool" where
  "msorted \<equiv> smap_sorted (<)"

lemma map_of_mput [simp]: "map_of (mput k v m) k' = (if k' = k then Some v else map_of m k')"
  by (simp add: lin.map_of_set)

lemma map_of_mins [simp]:
  "map_of (mins k v m) k' = (if k' = k \<and> map_of m k = None then Some v else map_of m k')"
  by (simp add: lin.map_of_insert)

lemmas msorted_ops [simp, intro] = lin.sorted_set lin.sorted_insert

text \<open>\<^verbatim>\<open>std::set\<close>: the library's sorted insertion without duplicates, and \<^verbatim>\<open>erase\<close>.\<close>

abbreviation sins :: "'a::linorder \<Rightarrow> 'a list \<Rightarrow> 'a list" where
  "sins \<equiv> insort_insert"
abbreviation sdel :: "'a \<Rightarrow> 'a list \<Rightarrow> 'a list" where
  "sdel \<equiv> removeAll"

definition sins_all :: "'a::linorder list \<Rightarrow> 'a list \<Rightarrow> 'a list" where
  "sins_all xs s = fold sins xs s"

lemma set_sins_all [simp]: "set (sins_all xs s) = set xs \<union> set s"
  unfolding sins_all_def by (induction xs arbitrary: s) (auto simp: set_insort_insert)

declare set_insort_insert [simp]

text \<open>\<^verbatim>\<open>std::multimap::insert\<close> places an entry after those with an equal or smaller key;
  \<^verbatim>\<open>equal_range\<close> and \<^verbatim>\<open>erase\<close> by key select on the key.\<close>

fun mm_insert :: "'k::linorder \<Rightarrow> 'v \<Rightarrow> ('k \<times> 'v) list \<Rightarrow> ('k \<times> 'v) list" where
  "mm_insert k v [] = [(k, v)]"
| "mm_insert k v (p # m) = (if fst p \<le> k then p # mm_insert k v m else (k, v) # p # m)"

definition mm_range :: "'k \<Rightarrow> ('k \<times> 'v) list \<Rightarrow> 'v list" where
  "mm_range k m = map snd (filter (\<lambda>p. fst p = k) m)"

lemma set_mm_insert [simp]: "set (mm_insert k v m) = insert (k, v) (set m)"
  by (induction m) auto

lemma mm_insert_sorted [simp]: "sorted (map fst m) \<Longrightarrow> sorted (map fst (mm_insert k v m))"
  by (induction m) auto

lemma mm_insert_append: "\<forall>p \<in> set m. fst p \<le> k \<Longrightarrow> mm_insert k v m = m @ [(k, v)]"
  by (induction m) auto

section \<open>Results\<close>

text \<open>A computation that may throw is a sum, \<open>Inl\<close> the exception; \<open>res_bind\<close> is the sequencing
  of two such computations.\<close>

definition res_bind :: "'e + 'a \<Rightarrow> ('a \<Rightarrow> 'e + 'b) \<Rightarrow> 'e + 'b" where
  "res_bind m f = (case m of Inl e \<Rightarrow> Inl e | Inr x \<Rightarrow> f x)"

lemma res_bind_simps [simp]: "res_bind (Inl e) f = Inl e" "res_bind (Inr x) f = f x"
  by (simp_all add: res_bind_def)

lemma res_bind_Inr: "res_bind m f = Inr y \<longleftrightarrow> (\<exists>x. m = Inr x \<and> f x = Inr y)"
  by (cases m) simp_all

end
