(* ===== verification/Uint256.thy ===== *)
theory Uint256
  imports HA_Prelude
begin

unbundle bit_operations_syntax

text \<open>
  The multi-word unsigned integers of \<^verbatim>\<open>src/src/crypto/uint256.h\<close>. The array
  \<^verbatim>\<open>pn[WIDTH]\<close> of \<^verbatim>\<open>base_uint<BITS>\<close> is a list of 32-bit limbs, least
  significant first, whose length is \<^verbatim>\<open>WIDTH\<close>; every loop over the array is recursion
  over the list. \<open>pn_value\<close> reads the number an array stands for, and the lemmas say that each
  operator computes the arithmetic operation modulo \<open>2 ^ (32 * WIDTH)\<close>.
\<close>

section \<open>The limb array and its value\<close>

type_synonym pn = "u32 list"

fun pn_value :: "pn \<Rightarrow> nat" where
  "pn_value [] = 0"
| "pn_value (x # xs) = unat x + 2 ^ 32 * pn_value xs"

fun base_not :: "pn \<Rightarrow> bool" where
  "base_not [] = True"
| "base_not (x # xs) = (if x \<noteq> 0 then False else base_not xs)"

definition base_compl :: "pn \<Rightarrow> pn" where
  "base_compl a = map (\<lambda>x. NOT x) a"

text \<open>\<^verbatim>\<open>while (++pn[i] == 0 && i < WIDTH - 1) i++;\<close>\<close>

fun base_inc :: "pn \<Rightarrow> pn" where
  "base_inc [] = []"
| "base_inc (x # xs) = (let x' = x + 1 in
     if x' = 0 \<and> xs \<noteq> [] then x' # base_inc xs else x' # xs)"

text \<open>\<^verbatim>\<open>while (--pn[i] == -1 && i < WIDTH - 1) i++;\<close>, where \<^verbatim>\<open>-1\<close> becomes the
  greatest unsigned value in the comparison.\<close>

fun base_dec :: "pn \<Rightarrow> pn" where
  "base_dec [] = []"
| "base_dec (x # xs) = (let x' = x - 1 in
     if x' = - 1 \<and> xs \<noteq> [] then x' # base_dec xs else x' # xs)"

definition base_neg :: "pn \<Rightarrow> pn" where
  "base_neg a = base_inc (base_compl a)"

text \<open>Assignments from the built-in integers: the narrow signed types are converted to one
  unsigned limb, the 64-bit ones fill two.\<close>

definition base_of_u32 :: "nat \<Rightarrow> u32 \<Rightarrow> pn" where
  "base_of_u32 W b = b # replicate (W - 1) 0"

definition base_of_i32 :: "nat \<Rightarrow> 32 word \<Rightarrow> pn" where
  "base_of_i32 W b = b # replicate (W - 1) 0"

definition base_of_i8 :: "nat \<Rightarrow> 8 word \<Rightarrow> pn" where
  "base_of_i8 W b = (scast b :: u32) # replicate (W - 1) 0"

definition base_of_u8 :: "nat \<Rightarrow> u8 \<Rightarrow> pn" where
  "base_of_u8 W b = (ucast b :: u32) # replicate (W - 1) 0"

definition base_of_i16 :: "nat \<Rightarrow> 16 word \<Rightarrow> pn" where
  "base_of_i16 W b = (scast b :: u32) # replicate (W - 1) 0"

definition base_of_u16 :: "nat \<Rightarrow> u16 \<Rightarrow> pn" where
  "base_of_u16 W b = (ucast b :: u32) # replicate (W - 1) 0"

definition base_of_i64 :: "nat \<Rightarrow> 64 word \<Rightarrow> pn" where
  "base_of_i64 W b = (ucast b :: u32) # (ucast (signed_drop_bit 32 b) :: u32) # replicate (W - 2) 0"

definition base_of_u64 :: "nat \<Rightarrow> u64 \<Rightarrow> pn" where
  "base_of_u64 W b = (ucast b :: u32) # (ucast (drop_bit 32 b) :: u32) # replicate (W - 2) 0"

definition base_xor :: "pn \<Rightarrow> pn \<Rightarrow> pn" where
  "base_xor a b = map2 (\<lambda>x y. x XOR y) a b"

definition base_and :: "pn \<Rightarrow> pn \<Rightarrow> pn" where
  "base_and a b = map2 (\<lambda>x y. x AND y) a b"

definition base_or :: "pn \<Rightarrow> pn \<Rightarrow> pn" where
  "base_or a b = map2 (\<lambda>x y. x OR y) a b"

definition base_xor_u64 :: "pn \<Rightarrow> u64 \<Rightarrow> pn" where
  "base_xor_u64 a b = a[0 := a ! 0 XOR ucast b, 1 := a ! 1 XOR ucast (drop_bit 32 b)]"

definition base_or_u64 :: "pn \<Rightarrow> u64 \<Rightarrow> pn" where
  "base_or_u64 a b = a[0 := a ! 0 OR ucast b, 1 := a ! 1 OR ucast (drop_bit 32 b)]"

section \<open>Shifts\<close>

text \<open>One iteration of the loop of \<^verbatim>\<open>operator<<=\<close>: limb \<open>i\<close> of the copy \<open>a\<close> is spread
  over two limbs of the result \<open>r\<close>.\<close>

definition shl_step :: "pn \<Rightarrow> nat \<Rightarrow> nat \<Rightarrow> nat \<Rightarrow> pn \<Rightarrow> pn" where
  "shl_step a k s i r =
     (let r1 = (if i + k + 1 < length a \<and> s \<noteq> 0
                then r[i + k + 1 := r ! (i + k + 1) OR drop_bit (32 - s) (a ! i)] else r)
      in if i + k < length a then r1[i + k := r1 ! (i + k) OR push_bit s (a ! i)] else r1)"

definition base_shl :: "pn \<Rightarrow> u32 \<Rightarrow> pn" where
  "base_shl a shift =
     fold (shl_step a (unat shift div 32) (unat shift mod 32)) [0..<length a]
       (replicate (length a) 0)"

text \<open>The loop of \<^verbatim>\<open>operator>>=\<close>; the indices are signed there, so the tests
  \<^verbatim>\<open>i - k - 1 >= 0\<close> and \<^verbatim>\<open>i - k >= 0\<close> read as \<open>k + 1 \<le> i\<close> and \<open>k \<le> i\<close>.\<close>

definition shr_step :: "pn \<Rightarrow> nat \<Rightarrow> nat \<Rightarrow> nat \<Rightarrow> pn \<Rightarrow> pn" where
  "shr_step a k s i r =
     (let r1 = (if k + 1 \<le> i \<and> s \<noteq> 0
                then r[i - k - 1 := r ! (i - k - 1) OR push_bit (32 - s) (a ! i)] else r)
      in if k \<le> i then r1[i - k := r1 ! (i - k) OR drop_bit s (a ! i)] else r1)"

definition base_shr :: "pn \<Rightarrow> u32 \<Rightarrow> pn" where
  "base_shr a shift =
     fold (shr_step a (unat shift div 32) (unat shift mod 32)) [0..<length a]
       (replicate (length a) 0)"

section \<open>Addition and subtraction\<close>

text \<open>The loop of \<^verbatim>\<open>operator+=\<close>; \<open>n\<close> and the carry are \<^verbatim>\<open>uint64\<close>.\<close>

fun add_loop :: "u64 \<Rightarrow> pn \<Rightarrow> pn \<Rightarrow> pn" where
  "add_loop carry (x # xs) (y # ys) =
     (let n = carry + ucast x + ucast y
      in ucast (n AND 0xffffffff) # add_loop (drop_bit 32 n) xs ys)"
| "add_loop carry _ _ = []"

definition base_add :: "pn \<Rightarrow> pn \<Rightarrow> pn" where
  "base_add a b = add_loop 0 a b"

definition base_sub :: "pn \<Rightarrow> pn \<Rightarrow> pn" where
  "base_sub a b = base_add a (base_neg b)"

definition base_add_u64 :: "pn \<Rightarrow> u64 \<Rightarrow> pn" where
  "base_add_u64 a b64 = base_add a (base_of_u64 (length a) b64)"

definition base_sub_u64 :: "pn \<Rightarrow> u64 \<Rightarrow> pn" where
  "base_sub_u64 a b64 = base_add a (base_neg (base_of_u64 (length a) b64))"

section \<open>Comparisons\<close>

text \<open>The loops run from the most significant limb down: the lists are reversed first.\<close>

fun lt_loop :: "bool \<Rightarrow> pn \<Rightarrow> pn \<Rightarrow> bool" where
  "lt_loop d (x # xs) (y # ys) = (if x < y then True else if x > y then False else lt_loop d xs ys)"
| "lt_loop d _ _ = d"

definition base_lt :: "pn \<Rightarrow> pn \<Rightarrow> bool" where
  "base_lt a b = lt_loop False (rev a) (rev b)"

definition base_le :: "pn \<Rightarrow> pn \<Rightarrow> bool" where
  "base_le a b = lt_loop True (rev a) (rev b)"

fun gt_loop :: "bool \<Rightarrow> pn \<Rightarrow> pn \<Rightarrow> bool" where
  "gt_loop d (x # xs) (y # ys) = (if x > y then True else if x < y then False else gt_loop d xs ys)"
| "gt_loop d _ _ = d"

definition base_gt :: "pn \<Rightarrow> pn \<Rightarrow> bool" where
  "base_gt a b = gt_loop False (rev a) (rev b)"

definition base_ge :: "pn \<Rightarrow> pn \<Rightarrow> bool" where
  "base_ge a b = gt_loop True (rev a) (rev b)"

fun base_eq :: "pn \<Rightarrow> pn \<Rightarrow> bool" where
  "base_eq (x # xs) (y # ys) = (if x \<noteq> y then False else base_eq xs ys)"
| "base_eq _ _ = True"

definition base_eq_u64 :: "pn \<Rightarrow> u64 \<Rightarrow> bool" where
  "base_eq_u64 a b =
     (if a ! 0 \<noteq> ucast b then False
      else if a ! 1 \<noteq> ucast (drop_bit 32 b) then False
      else \<not> (\<exists>x \<in> set (drop 2 a). x \<noteq> 0))"

definition base_ne :: "pn \<Rightarrow> pn \<Rightarrow> bool" where
  "base_ne a b = (\<not> base_eq a b)"

definition base_ne_u64 :: "pn \<Rightarrow> u64 \<Rightarrow> bool" where
  "base_ne_u64 a b = (\<not> base_eq_u64 a b)"

definition base_SetNull :: "pn \<Rightarrow> pn" where
  "base_SetNull a = replicate (length a) 0"

fun base_IsNull :: "pn \<Rightarrow> bool" where
  "base_IsNull [] = True"
| "base_IsNull (x # xs) = (if x \<noteq> 0 then False else base_IsNull xs)"

section \<open>Limb arithmetic\<close>

lemma unat_lt_2p32 [simp]: "unat (x :: u32) < 4294967296"
  using unsigned_less[of x, where ?'a = nat] by simp

lemma u32_add: "unat (x + y :: u32) = (unat x + unat y) mod 4294967296"
  by (simp add: unat_word_ariths)

lemma u32_plus1: "unat (x + 1 :: u32) = (if unat x = 4294967295 then 0 else unat x + 1)"
proof (cases "unat x = 4294967295")
  case False
  then have "unat x + 1 < 4294967296" using unat_lt_2p32[of x] by linarith
  then show ?thesis using False by (simp add: u32_add)
qed (simp add: u32_add)

lemma u32_minus1: "unat (x - 1 :: u32) = (if unat x = 0 then 4294967295 else unat x - 1)"
  using u32_plus1[of "x - 1"] by (simp split: if_splits)

lemma u32_0: "(x :: u32) = 0 \<longleftrightarrow> unat x = 0" by (simp add: unat_eq_zero)

lemma u32_m1: "(x :: u32) = - 1 \<longleftrightarrow> unat x = 4294967295"
  by (metis add.inverse_unique add.commute u32_0 u32_plus1 add_is_0 ab_left_minus unat_eq_zero zero_neq_one)

lemma u32_not: "unat (NOT x :: u32) = 4294967295 - unat x"
proof -
  have "unat (- 1 - x) = unat (- 1 :: u32) - unat x"
    by (rule unat_sub) simp
  also have "unat (- 1 :: u32) = 4294967295" by (simp flip: u32_m1)
  finally show ?thesis by (simp only: not_eq_complement minus_diff_commute)
qed

lemma u32_low: "unat (ucast (n AND 0xffffffff :: u64) :: u32) = unat n mod 4294967296"
proof -
  have "(0xffffffff :: u64) = mask 32" by (simp add: mask_eq_exp_minus_1)
  then have "ucast (n AND 0xffffffff :: u64) = (ucast (take_bit 32 n) :: u32)"
    by (simp only: take_bit_eq_mask)
  also have "unat \<dots> = take_bit 32 (unat n)" by (simp add: unsigned_ucast_eq unsigned_take_bit_eq)
  finally show ?thesis by (simp add: take_bit_eq_mod)
qed

lemma u32_high: "unat (drop_bit 32 (n :: u64)) = unat n div 4294967296"
proof -
  have "take_bit 64 (unat n) = unat n" by (rule take_bit_nat_eq_self) (use unsigned_less[of n, where ?'a = nat] in simp)
  then show ?thesis
    by (simp only: unsigned_drop_bit_eq) (simp add: drop_bit_eq_div)
qed

lemma u64_carry: assumes "unat (c :: u64) \<le> 1"
  shows "unat (c + ucast (x :: u32) + ucast (y :: u32)) = unat c + unat x + unat y"
proof -
  have "unat (ucast x :: u64) = unat x" "unat (ucast y :: u64) = unat y"
    by (simp_all add: unsigned_ucast_eq take_bit_nat_eq_self order_less_trans[OF unat_lt_2p32])
  moreover have "unat c + unat x + unat y < 18446744073709551616"
    using assms unat_lt_2p32[of x] unat_lt_2p32[of y] by linarith
  ultimately show ?thesis by (simp add: unat_word_ariths)
qed

section \<open>The operators compute modulo \<open>2 ^ (32 * WIDTH)\<close>\<close>

lemma pn_value_Cons: "pn_value (x # xs) = unat x + 4294967296 * pn_value xs"
  by simp

lemma pow_limbs_Suc: "(2 :: nat) ^ (32 * Suc n) = 4294967296 * 2 ^ (32 * n)"
  by (simp add: power_add)

lemma pow_limbs_add: "(2 :: nat) ^ (32 + 32 * n) = 4294967296 * 2 ^ (32 * n)"
  by (simp add: power_add)

declare pn_value.simps(2) [simp del]
lemmas pn_simps = pn_value_Cons pow_limbs_Suc pow_limbs_add

lemma pn_value_bound: "pn_value a < 2 ^ (32 * length a)"
proof (induction a)
  case (Cons x a)
  have "unat x + 4294967296 * pn_value a < 4294967296 * (pn_value a + 1)"
    using unat_lt_2p32[of x] by simp
  also have "\<dots> \<le> 4294967296 * 2 ^ (32 * length a)"
    using Cons.IH by (intro mult_le_mono2) simp
  finally show ?case by (simp only: pn_simps length_Cons)
qed simp

lemma length_base_compl [simp]: "length (base_compl a) = length a"
  by (simp add: base_compl_def)

lemma length_base_inc [simp]: "length (base_inc a) = length a"
  by (induction a rule: base_inc.induct) (simp_all add: Let_def)

lemma length_base_dec [simp]: "length (base_dec a) = length a"
  by (induction a rule: base_dec.induct) (simp_all add: Let_def)

lemma length_base_neg [simp]: "length (base_neg a) = length a"
  by (simp add: base_neg_def)

lemma length_add_loop [simp]: "length (add_loop c a b) = min (length a) (length b)"
  by (induction c a b rule: add_loop.induct) (auto simp: Let_def)

lemma mod_mult_shift: "(x + m * y) mod (m * k) = x + m * (y mod k)" if "x < m" for x m y k :: nat
proof -
  have "(x + m * y) mod (m * k) = m * ((x + m * y) div m mod k) + (x + m * y) mod m"
    by (rule mod_mult2_eq)
  then show ?thesis using that by simp
qed

lemma pn_value_base_inc: "pn_value (base_inc a) = (pn_value a + 1) mod 2 ^ (32 * length a)"
proof (induction a rule: base_inc.induct)
  case (2 x xs)
  let ?m = "4294967296 :: nat" and ?k = "2 ^ (32 * length xs) :: nat"
  have u: "unat (x + 1) = (if unat x = 4294967295 then 0 else unat x + 1)" by (rule u32_plus1)
  show ?case
  proof (cases "x + 1 = 0")
    case True
    then have x: "unat x = 4294967295" using u by (simp split: if_splits)
    have IH: "pn_value (base_inc xs) = (pn_value xs + 1) mod ?k"
      using 2 True by (cases xs) simp_all
    have "pn_value (x # xs) + 1 = 0 + ?m * (pn_value xs + 1)"
      using x by (simp add: pn_simps)
    then have "(pn_value (x # xs) + 1) mod (?m * ?k) = 0 + ?m * ((pn_value xs + 1) mod ?k)"
      by (simp only: mod_mult_shift zero_less_numeral)
    moreover have "base_inc (x # xs) = 0 # base_inc xs"
      using True by (cases xs) simp_all
    ultimately show ?thesis using IH by (simp add: pn_simps)
  next
    case False
    then have "unat (x + 1) = unat x + 1" using u by (simp add: u32_0 split: if_splits)
    then have "pn_value ((x + 1) # xs) = pn_value (x # xs) + 1" by (simp add: pn_simps)
    then show ?thesis using False pn_value_bound[of "(x + 1) # xs"]
      by (simp add: Let_def)
  qed
qed simp

lemma pn_value_base_compl: "pn_value (base_compl a) = 2 ^ (32 * length a) - 1 - pn_value a"
proof (induction a)
  case (Cons x a)
  have "pn_value (base_compl (x # a)) = (4294967295 - unat x) + 4294967296 * (2 ^ (32 * length a) - 1 - pn_value a)"
    using Cons by (simp add: base_compl_def pn_simps u32_not)
  moreover have "pn_value a + 1 \<le> 2 ^ (32 * length a)" "unat x \<le> 4294967295"
    using pn_value_bound[of a] unat_lt_2p32[of x] by linarith+
  ultimately show ?case by (simp add: pn_simps diff_mult_distrib2)
qed (simp add: base_compl_def)

lemma pn_value_base_neg: "pn_value (base_neg a) = (2 ^ (32 * length a) - pn_value a) mod 2 ^ (32 * length a)"
  using pn_value_bound[of a]
  by (simp add: base_neg_def pn_value_base_inc pn_value_base_compl Suc_diff_Suc)

lemma pn_value_add_loop:
  "length a = length b \<Longrightarrow> unat c \<le> 1 \<Longrightarrow>
   pn_value (add_loop c a b) = (unat c + pn_value a + pn_value b) mod 2 ^ (32 * length a)"
proof (induction c a b rule: add_loop.induct)
  case (1 c x xs y ys)
  let ?m = "4294967296 :: nat" and ?k = "2 ^ (32 * length xs) :: nat"
  define n where "n = c + ucast x + ucast y"
  have n: "unat n = unat c + unat x + unat y"
    using "1.prems" unfolding n_def by (intro u64_carry) simp
  have "unat (drop_bit 32 n) \<le> 1"
    using n "1.prems" unat_lt_2p32[of x] unat_lt_2p32[of y] by (simp add: u32_high del: unat_lt_2p32)
  then have IH: "pn_value (add_loop (drop_bit 32 n) xs ys)
      = (unat n div ?m + pn_value xs + pn_value ys) mod ?k"
    using "1.IH"[OF n_def] "1.prems" by (simp add: u32_high)
  have "unat c + pn_value (x # xs) + pn_value (y # ys) = unat n mod ?m + ?m * (unat n div ?m + pn_value xs + pn_value ys)"
    using n mod_mult_div_eq[of "unat n" ?m] by (simp add: pn_simps algebra_simps)
  then have "(unat c + pn_value (x # xs) + pn_value (y # ys)) mod (?m * ?k)
      = unat n mod ?m + ?m * ((unat n div ?m + pn_value xs + pn_value ys) mod ?k)"
    by (simp only: mod_mult_shift mod_less_divisor zero_less_numeral)
  then show ?case
    by (simp add: IH pn_simps u32_low Let_def flip: n_def)
qed simp_all

lemma pn_value_base_add:
  "length a = length b \<Longrightarrow> pn_value (base_add a b) = (pn_value a + pn_value b) mod 2 ^ (32 * length a)"
  by (simp add: base_add_def pn_value_add_loop)

lemma pn_value_base_sub:
  assumes "length a = length b"
  shows "pn_value (base_sub a b) = (pn_value a + (2 ^ (32 * length a) - pn_value b)) mod 2 ^ (32 * length a)"
  using assms by (simp add: base_sub_def pn_value_base_add pn_value_base_neg mod_add_right_eq)

lemma bit_pn_value_Cons:
  "bit (pn_value (x # xs)) n = (if n < 32 then bit x n else bit (pn_value xs) (n - 32))"
proof (cases "n < 32")
  case True
  then have p: "(4294967296 :: nat) = 2 ^ n * 2 ^ (32 - n)"
    by (simp flip: power_add)
  have "pn_value (x # xs) div 2 ^ n = unat x div 2 ^ n + 2 ^ (32 - n) * pn_value xs"
    by (simp only: pn_value_Cons p mult.assoc) (simp add: add.commute)
  then have "bit (pn_value (x # xs)) n \<longleftrightarrow> bit (unat x) n"
    using True by (simp add: bit_iff_odd[of "pn_value _"] bit_iff_odd[of "unat x"])
  then show ?thesis using True by (simp add: bit_unsigned_iff)
next
  case False
  then have p: "(2 :: nat) ^ n = 4294967296 * 2 ^ (n - 32)"
    using power_add[of "2 :: nat" 32 "n - 32"] by simp
  have "pn_value (x # xs) div 2 ^ n = pn_value xs div 2 ^ (n - 32)"
    by (simp only: p div_mult2_eq pn_value_Cons) simp
  then show ?thesis using False by (simp add: bit_iff_odd)
qed

lemma bit_pn_value:
  "bit (pn_value a) n \<longleftrightarrow> n < 32 * length a \<and> bit (a ! (n div 32)) (n mod 32)"
proof (induction a arbitrary: n)
  case (Cons x a)
  show ?case
  proof (cases "n < 32")
    case False
    then have "n div 32 = Suc ((n - 32) div 32)" "n mod 32 = (n - 32) mod 32"
      by (simp_all add: le_div_geq le_mod_geq)
    then show ?thesis using False Cons[of "n - 32"] by (auto simp: bit_pn_value_Cons)
  qed (simp add: bit_pn_value_Cons)
qed simp

lemma pn_value_snoc: "pn_value (a @ [x]) = pn_value a + 2 ^ (32 * length a) * unat x"
  by (induction a) (simp_all add: pn_simps power_add algebra_simps)

lemma pn_value_inj: "length a = length b \<Longrightarrow> pn_value a = pn_value b \<longleftrightarrow> a = b"
proof (induction a b rule: list_induct2)
  case (Cons x xs y ys)
  have "unat x = pn_value (x # xs) mod 4294967296" "unat y = pn_value (y # ys) mod 4294967296"
    by (simp_all add: pn_simps)
  moreover have "pn_value xs = pn_value (x # xs) div 4294967296" "pn_value ys = pn_value (y # ys) div 4294967296"
    by (simp_all add: pn_simps)
  ultimately show ?case using Cons by (metis unsigned_word_eqI)
qed simp

lemma add_scaled_less: "a < k \<Longrightarrow> x < y \<Longrightarrow> a + k * x < b + k * y" for a b k x y :: nat
proof -
  assume "a < k" "x < y"
  then have "a + k * x < k * (x + 1)" by simp
  also have "\<dots> \<le> k * y" using \<open>x < y\<close> by (intro mult_le_mono2) simp
  finally show ?thesis by simp
qed

lemma pn_value_snoc_less:
  assumes "length a = length b"
  shows "pn_value (a @ [x]) < pn_value (b @ [y]) \<longleftrightarrow> x < y \<or> x = y \<and> pn_value a < pn_value b"
proof -
  have *: "x < y \<Longrightarrow> pn_value (a @ [x]) < pn_value (b @ [y])"
    "y < x \<Longrightarrow> pn_value (b @ [y]) < pn_value (a @ [x])"
    using assms pn_value_bound[of a] pn_value_bound[of b]
    by (auto simp: pn_value_snoc word_less_nat_alt intro!: add_scaled_less)
  show ?thesis
    using * assms by (cases x y rule: linorder_cases) (auto simp: pn_value_snoc)
qed

lemma lt_loop_rev:
  "length a = length b \<Longrightarrow> lt_loop d (rev a) (rev b) \<longleftrightarrow> pn_value a < pn_value b \<or> d \<and> pn_value a = pn_value b"
proof (induction a arbitrary: b rule: rev_induct)
  case (snoc x a)
  then obtain b' y where b: "b = b' @ [y]" "length a = length b'"
    by (cases b rule: rev_cases) auto
  then show ?case using snoc.IH[OF b(2)] pn_value_snoc_less[OF b(2), of x y]
    by (cases x y rule: linorder_cases) (auto simp: pn_value_inj)
qed simp

lemma gt_loop_rev:
  "length a = length b \<Longrightarrow> gt_loop d (rev a) (rev b) \<longleftrightarrow> pn_value a > pn_value b \<or> d \<and> pn_value a = pn_value b"
proof (induction a arbitrary: b rule: rev_induct)
  case (snoc x a)
  then obtain b' y where b: "b = b' @ [y]" "length a = length b'"
    by (cases b rule: rev_cases) auto
  then show ?case using snoc.IH[OF b(2)] pn_value_snoc_less[OF b(2)[symmetric], of y x]
    by (cases x y rule: linorder_cases) (auto simp: pn_value_inj)
qed simp

section \<open>Comparisons decide the order of the values\<close>

lemma base_lt_value: "length a = length b \<Longrightarrow> base_lt a b \<longleftrightarrow> pn_value a < pn_value b"
  by (simp add: base_lt_def lt_loop_rev)

lemma base_le_value: "length a = length b \<Longrightarrow> base_le a b \<longleftrightarrow> pn_value a \<le> pn_value b"
  by (auto simp: base_le_def lt_loop_rev)

lemma base_gt_value: "length a = length b \<Longrightarrow> base_gt a b \<longleftrightarrow> pn_value a > pn_value b"
  by (simp add: base_gt_def gt_loop_rev)

lemma base_ge_value: "length a = length b \<Longrightarrow> base_ge a b \<longleftrightarrow> pn_value a \<ge> pn_value b"
  by (auto simp: base_ge_def gt_loop_rev)

lemma base_eq_iff: "length a = length b \<Longrightarrow> base_eq a b \<longleftrightarrow> a = b"
  by (induction a b rule: list_induct2) simp_all

lemma base_eq_value: "length a = length b \<Longrightarrow> base_eq a b \<longleftrightarrow> pn_value a = pn_value b"
  by (simp add: base_eq_iff pn_value_inj)

lemma pn_value_zeros [simp]: "pn_value (replicate n 0) = 0"
  by (induction n) (simp_all add: pn_simps)

lemma base_IsNull_value: "base_IsNull a \<longleftrightarrow> pn_value a = 0"
  by (induction a) (simp_all add: pn_simps unat_eq_zero)

lemma base_not_IsNull: "base_not a = base_IsNull a"
  by (induction a) simp_all

lemma pn_value_base_dec:
  "a \<noteq> [] \<Longrightarrow> pn_value (base_dec a) = (if pn_value a = 0 then 2 ^ (32 * length a) - 1 else pn_value a - 1)"
proof (induction a)
  case (Cons x a)
  have x: "unat x - Suc 0 \<noteq> 4294967295" using unat_lt_2p32[of x] by linarith
  have p: "0 < (2 :: nat) ^ (32 * length a)" by simp
  have b: "4294967295 + 4294967296 * (n - Suc 0) = 4294967296 * n - Suc 0" if "0 < n" for n :: nat
    using that by (cases n) simp_all
  show ?case
    using Cons x b[OF p] by (cases "a = []"; cases "unat x = 0")
       (auto simp: pn_simps u32_minus1 u32_m1 Let_def)
qed simp

section \<open>Shifts multiply and divide by powers of two\<close>

definition limb_moved :: "pn \<Rightarrow> nat \<Rightarrow> nat \<Rightarrow> nat \<Rightarrow> nat \<Rightarrow> bool" where
  "limb_moved a i sh j t \<longleftrightarrow> (\<exists>u < 32. bit (a ! i) u \<and> 32 * i + u + sh = 32 * j + t)"

lemma limb_split:
  fixes i j k s t u :: nat
  assumes "s < 32" "t < 32" "u < 32"
  shows "32 * i + u + (32 * k + s) = 32 * j + t \<longleftrightarrow>
    (j = i + k \<and> u + s = t) \<or> (j = i + k + 1 \<and> u + s = 32 + t)"
proof
  assume e: "32 * i + u + (32 * k + s) = 32 * j + t"
  then have "j < i + k + 2" "i + k \<le> j" using assms by linarith+
  then consider "j = i + k" | "j = i + k + 1" by linarith
  then show "(j = i + k \<and> u + s = t) \<or> (j = i + k + 1 \<and> u + s = 32 + t)"
    using e by cases auto
qed auto

lemma limb_moved_pair:
  assumes "s < 32" "t < 32"
  shows "limb_moved a i (32 * k + s) j t \<longleftrightarrow>
     (j = i + k \<and> s \<le> t \<and> bit (a ! i) (t - s)) \<or>
     (j = i + k + 1 \<and> t < s \<and> bit (a ! i) (32 + t - s))"
proof -
  have "limb_moved a i (32 * k + s) j t \<longleftrightarrow>
     (j = i + k \<and> (\<exists>u < 32. bit (a ! i) u \<and> u + s = t)) \<or>
     (j = i + k + 1 \<and> (\<exists>u < 32. bit (a ! i) u \<and> u + s = 32 + t))"
    using assms by (auto simp: limb_moved_def limb_split)
  moreover have "(\<exists>u < 32. bit (a ! i) u \<and> u + s = t) \<longleftrightarrow> s \<le> t \<and> bit (a ! i) (t - s)"
    using assms less_imp_diff_less[of t 32 s] le_add_diff_inverse2[of s t] by (metis diff_add_inverse2 le_add2)
  moreover have "(\<exists>u < 32. bit (a ! i) u \<and> u + s = 32 + t) \<longleftrightarrow> t < s \<and> bit (a ! i) (32 + t - s)"
    (is "?l \<longleftrightarrow> ?r")
  proof
    assume ?l
    then obtain u where "u < 32" "bit (a ! i) u" "u + s = 32 + t" by blast
    moreover from this have "t < s" "u = 32 + t - s" by simp_all
    ultimately show ?r by simp
  next
    assume ?r
    then show ?l using assms by (intro exI[of _ "32 + t - s"]) auto
  qed
  ultimately show ?thesis by simp
qed

lemma nth_shl_step:
  assumes "length r = length a" "j < length a" "i < length a"
  shows "shl_step a k s i r ! j =
    (if j = i + k then r ! j OR push_bit s (a ! i)
     else if j = i + k + 1 \<and> s \<noteq> 0 then r ! j OR drop_bit (32 - s) (a ! i) else r ! j)"
  using assms by (auto simp: shl_step_def Let_def nth_list_update)

lemma bit_shl_step:
  assumes "s < 32" "t < 32" "length r = length a" "j < length a" "i < length a"
  shows "bit (shl_step a k s i r ! j) t \<longleftrightarrow> bit (r ! j) t \<or> limb_moved a i (32 * k + s) j t"
proof -
  have "32 - s + t = 32 + t - s" using assms by simp
  moreover have "bit (a ! i) (32 + t - s) \<Longrightarrow> t < s"
    using bit_imp_le_length[of "a ! i" "32 + t - s"] by auto
  ultimately show ?thesis using assms
    by (auto simp: nth_shl_step limb_moved_pair bit_or_iff bit_drop_bit_eq bit_push_bit_iff)
qed

lemma length_shl_step [simp]: "length (shl_step a k s i r) = length r"
  by (simp add: shl_step_def Let_def)

lemma length_fold_shl [simp]: "length (fold (shl_step a k s) is r) = length r"
  by (induction "is" arbitrary: r) simp_all

lemma bit_fold_shl:
  assumes "s < 32" "t < 32" "j < length a"
  shows "\<lbrakk>length r = length a; \<forall>i \<in> set is. i < length a\<rbrakk> \<Longrightarrow>
    bit (fold (shl_step a k s) is r ! j) t \<longleftrightarrow> bit (r ! j) t \<or> (\<exists>i \<in> set is. limb_moved a i (32 * k + s) j t)"
  using assms by (induction "is" arbitrary: r) (auto simp: bit_shl_step)

lemma length_base_shl [simp]: "length (base_shl a sh) = length a"
  by (simp add: base_shl_def)

lemma limb_moved_bit:
  "(\<exists>i < length a. limb_moved a i sh j t) \<longleftrightarrow> sh \<le> 32 * j + t \<and> bit (pn_value a) (32 * j + t - sh)"
proof
  assume "\<exists>i < length a. limb_moved a i sh j t"
  then obtain i u where "i < length a" "u < 32" "bit (a ! i) u" "32 * i + u + sh = 32 * j + t"
    by (auto simp: limb_moved_def)
  moreover from this have "32 * j + t - sh = 32 * i + u" by simp
  ultimately show "sh \<le> 32 * j + t \<and> bit (pn_value a) (32 * j + t - sh)"
    by (simp add: bit_pn_value)
next
  assume *: "sh \<le> 32 * j + t \<and> bit (pn_value a) (32 * j + t - sh)"
  define n where "n = 32 * j + t - sh"
  have "n div 32 < length a" "bit (a ! (n div 32)) (n mod 32)" "32 * (n div 32) + n mod 32 + sh = 32 * j + t"
    using * by (auto simp: bit_pn_value n_def[symmetric]) (simp add: n_def)
  then show "\<exists>i < length a. limb_moved a i sh j t"
    unfolding limb_moved_def by (metis mod_less_divisor zero_less_numeral)
qed

lemma bit_base_shl:
  assumes "n < 32 * length a"
  shows "bit (base_shl a sh ! (n div 32)) (n mod 32) \<longleftrightarrow> unat sh \<le> n \<and> bit (pn_value a) (n - unat sh)"
proof -
  have "n div 32 < length a" using assms by simp
  then have "bit (base_shl a sh ! (n div 32)) (n mod 32) \<longleftrightarrow>
      (\<exists>i < length a. limb_moved a i (unat sh) (n div 32) (n mod 32))"
    by (simp add: base_shl_def bit_fold_shl Bex_def)
  then show ?thesis by (simp add: limb_moved_bit)
qed

lemma pn_value_base_shl: "pn_value (base_shl a sh) = (pn_value a * 2 ^ unat sh) mod 2 ^ (32 * length a)"
proof -
  have "pn_value (base_shl a sh) = take_bit (32 * length a) (push_bit (unat sh) (pn_value a))"
    by (rule bit_eqI) (auto simp: bit_pn_value[of "base_shl a sh"] bit_base_shl bit_simps)
  then show ?thesis by (simp add: take_bit_eq_mod push_bit_eq_mult)
qed

definition limb_lowered :: "pn \<Rightarrow> nat \<Rightarrow> nat \<Rightarrow> nat \<Rightarrow> nat \<Rightarrow> bool" where
  "limb_lowered a i sh j t \<longleftrightarrow> (\<exists>u < 32. bit (a ! i) u \<and> 32 * j + t + sh = 32 * i + u)"

lemma limb_lowered_pair:
  assumes "s < 32" "t < 32"
  shows "limb_lowered a i (32 * k + s) j t \<longleftrightarrow>
     (i = j + k \<and> bit (a ! i) (s + t)) \<or>
     (i = j + k + 1 \<and> 32 \<le> t + s \<and> bit (a ! i) (t + s - 32))"
proof -
  have "limb_lowered a i (32 * k + s) j t \<longleftrightarrow>
     (i = j + k \<and> (\<exists>u < 32. bit (a ! i) u \<and> t + s = u)) \<or>
     (i = j + k + 1 \<and> (\<exists>u < 32. bit (a ! i) u \<and> t + s = 32 + u))"
    using assms by (auto simp: limb_lowered_def limb_split)
  moreover have "(\<exists>u < 32. bit (a ! i) u \<and> t + s = u) \<longleftrightarrow> bit (a ! i) (s + t)"
    using bit_imp_le_length[of "a ! i" "s + t"] by (auto simp: add.commute)
  moreover have "u < 32 \<and> t + s = 32 + u \<longleftrightarrow> 32 \<le> t + s \<and> u = t + s - 32" for u
    using assms by auto
  ultimately show ?thesis by metis
qed

lemma nth_shr_step:
  assumes "length r = length a" "j < length a" "i < length a"
  shows "shr_step a k s i r ! j =
    (if i = j + k then r ! j OR drop_bit s (a ! i)
     else if i = j + k + 1 \<and> s \<noteq> 0 then r ! j OR push_bit (32 - s) (a ! i) else r ! j)"
  using assms by (auto simp: shr_step_def Let_def nth_list_update)

lemma bit_shr_step:
  assumes "s < 32" "t < 32" "length r = length a" "j < length a" "i < length a"
  shows "bit (shr_step a k s i r ! j) t \<longleftrightarrow> bit (r ! j) t \<or> limb_lowered a i (32 * k + s) j t"
proof -
  have "32 - s \<le> t \<longleftrightarrow> 32 \<le> t + s" "t - (32 - s) = t + s - 32" using assms by auto
  then show ?thesis using assms
    by (auto simp: nth_shr_step limb_lowered_pair bit_or_iff bit_drop_bit_eq bit_push_bit_iff)
qed

lemma length_shr_step [simp]: "length (shr_step a k s i r) = length r"
  by (simp add: shr_step_def Let_def)

lemma length_fold_shr [simp]: "length (fold (shr_step a k s) is r) = length r"
  by (induction "is" arbitrary: r) simp_all

lemma bit_fold_shr:
  assumes "s < 32" "t < 32" "j < length a"
  shows "\<lbrakk>length r = length a; \<forall>i \<in> set is. i < length a\<rbrakk> \<Longrightarrow>
    bit (fold (shr_step a k s) is r ! j) t \<longleftrightarrow> bit (r ! j) t \<or> (\<exists>i \<in> set is. limb_lowered a i (32 * k + s) j t)"
  using assms by (induction "is" arbitrary: r) (auto simp: bit_shr_step)

lemma length_base_shr [simp]: "length (base_shr a sh) = length a"
  by (simp add: base_shr_def)

lemma limb_lowered_bit:
  "(\<exists>i < length a. limb_lowered a i sh j t) \<longleftrightarrow> bit (pn_value a) (32 * j + t + sh)"
proof
  assume "\<exists>i < length a. limb_lowered a i sh j t"
  then show "bit (pn_value a) (32 * j + t + sh)"
    by (auto simp: limb_lowered_def bit_pn_value)
next
  assume "bit (pn_value a) (32 * j + t + sh)"
  then have "(32 * j + t + sh) div 32 < length a" "bit (a ! ((32 * j + t + sh) div 32)) ((32 * j + t + sh) mod 32)"
    by (auto simp: bit_pn_value)
  then show "\<exists>i < length a. limb_lowered a i sh j t"
    unfolding limb_lowered_def by (metis mod_less_divisor mult_div_mod_eq zero_less_numeral)
qed

lemma bit_base_shr:
  assumes "n < 32 * length a"
  shows "bit (base_shr a sh ! (n div 32)) (n mod 32) \<longleftrightarrow> bit (pn_value a) (n + unat sh)"
proof -
  have "n div 32 < length a" using assms by simp
  then have "bit (base_shr a sh ! (n div 32)) (n mod 32) \<longleftrightarrow>
      (\<exists>i < length a. limb_lowered a i (unat sh) (n div 32) (n mod 32))"
    by (simp add: base_shr_def bit_fold_shr Bex_def)
  then show ?thesis by (simp add: limb_lowered_bit)
qed

lemma pn_value_base_shr: "pn_value (base_shr a sh) = pn_value a div 2 ^ unat sh"
proof -
  have "pn_value (base_shr a sh) = drop_bit (unat sh) (pn_value a)"
  proof (rule bit_eqI)
    fix n
    have "n < 32 * length a" if "bit (pn_value a) (n + unat sh)"
      using that by (simp add: bit_pn_value)
    then show "bit (pn_value (base_shr a sh)) n \<longleftrightarrow> bit (drop_bit (unat sh) (pn_value a)) n"
      by (auto simp: bit_pn_value[of "base_shr a sh"] bit_base_shr bit_drop_bit_eq add.commute)
  qed
  then show ?thesis by (simp add: drop_bit_eq_div)
qed

section \<open>The 256-bit instance\<close>

text \<open>Clients of \<^verbatim>\<open>uint256\<close> use the type \<open>256 word\<close>. An array of eight limbs is read as such a
  word, and each operator of the class commutes with the reading.\<close>

definition u256_of :: "pn \<Rightarrow> u256" where
  "u256_of a = word_of_nat (pn_value a)"

lemma unat_u256_of: "length a = 8 \<Longrightarrow> unat (u256_of a) = pn_value a"
  using pn_value_bound[of a] by (simp add: u256_of_def unat_of_nat)

lemma u256_eqI: "unat (x :: u256) = unat y \<Longrightarrow> x = y"
  by (rule unsigned_word_eqI)

lemma pn_value_bitwise:
  assumes "length a = length b"
  shows "pn_value (base_and a b) = pn_value a AND pn_value b"
    "pn_value (base_or a b) = pn_value a OR pn_value b"
    "pn_value (base_xor a b) = pn_value a XOR pn_value b"
  using assms
  by (auto intro!: bit_eqI simp: base_and_def base_or_def base_xor_def bit_pn_value bit_simps)

lemma length_bitwise [simp]:
  "length (base_and a b) = min (length a) (length b)"
  "length (base_or a b) = min (length a) (length b)"
  "length (base_xor a b) = min (length a) (length b)"
  by (simp_all add: base_and_def base_or_def base_xor_def)

lemma length_base_add [simp]: "length (base_add a b) = min (length a) (length b)"
  by (simp add: base_add_def)

lemma length_base_sub [simp]: "length (base_sub a b) = min (length a) (length b)"
  by (simp add: base_sub_def)

lemma of_nat_mod_256: "(word_of_nat (n mod 2 ^ 256) :: u256) = word_of_nat n"
  by (rule u256_eqI) (simp add: unat_of_nat take_bit_eq_mod)

lemma u256_of_add: "\<lbrakk>length a = 8; length b = 8\<rbrakk> \<Longrightarrow> u256_of (base_add a b) = u256_of a + u256_of b"
  using of_nat_mod_256[of "pn_value a + pn_value b"]
  by (simp only: u256_of_def pn_value_base_add) simp

lemma of_nat_2p256: "(word_of_nat (2 ^ 256) :: u256) = 0"
  using of_nat_mod_256[of "2 ^ 256"] by simp

lemma u256_of_neg: "length a = 8 \<Longrightarrow> u256_of (base_neg a) = - u256_of a"
proof -
  assume a: "length a = 8"
  then have "pn_value a \<le> 2 ^ 256" using pn_value_bound[of a] by simp
  then have "(word_of_nat (2 ^ 256 - pn_value a) :: u256) = word_of_nat (2 ^ 256) - word_of_nat (pn_value a)"
    by (rule of_nat_diff)
  then show ?thesis
    using a of_nat_mod_256[of "2 ^ 256 - pn_value a"] of_nat_2p256
    by (simp only: u256_of_def pn_value_base_neg) simp
qed

lemma u256_of_sub: "\<lbrakk>length a = 8; length b = 8\<rbrakk> \<Longrightarrow> u256_of (base_sub a b) = u256_of a - u256_of b"
  by (simp add: base_sub_def u256_of_add u256_of_neg)

lemma u256_of_inc: "length a = 8 \<Longrightarrow> u256_of (base_inc a) = u256_of a + 1"
  using of_nat_mod_256[of "pn_value a + 1"]
  by (simp only: u256_of_def pn_value_base_inc) simp

lemma u256_of_dec: "length a = 8 \<Longrightarrow> u256_of (base_dec a) = u256_of a - 1"
proof -
  assume a: "length a = 8"
  then have ne: "a \<noteq> []" by auto
  show ?thesis
  proof (cases "pn_value a = 0")
    case True
    have "(word_of_nat (2 ^ 256 - 1) :: u256) = - 1"
      using of_nat_diff[of 1 "2 ^ 256", where ?'a = u256] of_nat_2p256 by simp
    then show ?thesis using True a by (simp add: u256_of_def pn_value_base_dec[OF ne])
  next
    case False
    then show ?thesis by (simp add: u256_of_def pn_value_base_dec[OF ne] of_nat_diff)
  qed
qed

lemma u256_of_shl: "length a = 8 \<Longrightarrow> u256_of (base_shl a sh) = push_bit (unat sh) (u256_of a)"
  using of_nat_mod_256[of "pn_value a * 2 ^ unat sh"]
  by (simp only: u256_of_def pn_value_base_shl) (simp add: push_bit_eq_mult)

lemma u256_of_shr: "length a = 8 \<Longrightarrow> u256_of (base_shr a sh) = drop_bit (unat sh) (u256_of a)"
proof (rule u256_eqI)
  assume a: "length a = 8"
  have "unat (drop_bit (unat sh) (u256_of a)) = drop_bit (unat sh) (take_bit 256 (pn_value a))"
    using unat_u256_of[OF a] by (simp only: unsigned_drop_bit_eq) simp
  also have "\<dots> = pn_value (base_shr a sh)"
    using a pn_value_bound[of a] by (simp add: pn_value_base_shr drop_bit_eq_div take_bit_nat_eq_self)
  finally show "unat (u256_of (base_shr a sh)) = unat (drop_bit (unat sh) (u256_of a))"
    using a by (simp add: unat_u256_of)
qed

lemma unat_eq_iff: "unat (x :: u256) = unat y \<longleftrightarrow> x = y"
  by (auto intro: u256_eqI)

lemma u256_of_less:
  assumes "length a = 8" "length b = 8"
  shows "base_lt a b \<longleftrightarrow> u256_of a < u256_of b" "base_le a b \<longleftrightarrow> u256_of a \<le> u256_of b"
    "base_gt a b \<longleftrightarrow> u256_of a > u256_of b" "base_ge a b \<longleftrightarrow> u256_of a \<ge> u256_of b"
    "base_eq a b \<longleftrightarrow> u256_of a = u256_of b"
  using assms
  by (simp_all add: base_lt_value base_le_value base_gt_value base_ge_value base_eq_value
      word_less_nat_alt word_le_nat_alt unat_u256_of unat_eq_iff[symmetric])

lemma u256_of_bitwise:
  assumes "length a = 8" "length b = 8"
  shows "u256_of (base_and a b) = u256_of a AND u256_of b" "u256_of (base_or a b) = u256_of a OR u256_of b"
    "u256_of (base_xor a b) = u256_of a XOR u256_of b"
  using assms
  by (auto intro!: u256_eqI simp: unat_u256_of pn_value_bitwise unsigned_and_eq unsigned_or_eq unsigned_xor_eq)

section \<open>Properties\<close>

text \<open>
  (C3) On eight-limb arrays the operators of \<^verbatim>\<open>base_uint<256>\<close> (addition, subtraction, negation,
  increment, decrement, both shifts, the three bitwise operators and the five comparisons) compute
  exactly the operators of 256-bit machine words: wrap-around, carries across limbs and shifts that
  straddle two limbs included.
\<close>

theorem uint256_refines_word:
  assumes "length a = 8" "length b = 8"
  shows "u256_of (base_add a b) = u256_of a + u256_of b \<and>
    u256_of (base_sub a b) = u256_of a - u256_of b \<and>
    u256_of (base_neg a) = - u256_of a \<and>
    u256_of (base_inc a) = u256_of a + 1 \<and>
    u256_of (base_dec a) = u256_of a - 1 \<and>
    u256_of (base_shl a sh) = push_bit (unat sh) (u256_of a) \<and>
    u256_of (base_shr a sh) = drop_bit (unat sh) (u256_of a) \<and>
    u256_of (base_and a b) = u256_of a AND u256_of b \<and>
    u256_of (base_or a b) = u256_of a OR u256_of b \<and>
    u256_of (base_xor a b) = u256_of a XOR u256_of b \<and>
    (base_lt a b \<longleftrightarrow> u256_of a < u256_of b) \<and> (base_le a b \<longleftrightarrow> u256_of a \<le> u256_of b) \<and>
    (base_gt a b \<longleftrightarrow> u256_of a > u256_of b) \<and> (base_ge a b \<longleftrightarrow> u256_of a \<ge> u256_of b) \<and>
    (base_eq a b \<longleftrightarrow> u256_of a = u256_of b)"
  using assms
  by (simp add: u256_of_add u256_of_sub u256_of_neg u256_of_inc u256_of_dec u256_of_shl u256_of_shr
      u256_of_bitwise u256_of_less)

theorem uint256_refines_word_witness:
  "u256_of (base_add (base_of_u32 8 7) (base_of_u32 8 5)) = u256_of (base_of_u32 8 7) + u256_of (base_of_u32 8 5)"
  using uint256_refines_word[of "base_of_u32 8 7" "base_of_u32 8 5" 0]
  by (simp add: base_of_u32_def)

text \<open>At every width, \<^verbatim>\<open>operator<<=\<close> multiplies the value by \<open>2 ^ shift\<close> modulo \<open>2 ^ BITS\<close> and
  \<^verbatim>\<open>operator>>=\<close> divides it by \<open>2 ^ shift\<close>, for every shift count, those past the width included.
\<close>

theorem base_uint_shifts:
  "pn_value (base_shl a sh) = (pn_value a * 2 ^ unat sh) mod 2 ^ (32 * length a) \<and>
   pn_value (base_shr a sh) = pn_value a div 2 ^ unat sh"
  by (simp add: pn_value_base_shl pn_value_base_shr)

end
