(* ===== verification/Uint256_Bytes.thy ===== *)
theory Uint256_Bytes
  imports Uint256
begin

unbundle bit_operations_syntax

text \<open>
  The byte view of the integers of \<^verbatim>\<open>src/src/crypto/uint256.h\<close>: the array \<^verbatim>\<open>pn\<close> read through
  \<^verbatim>\<open>begin()\<close> and \<^verbatim>\<open>end()\<close> on a little-endian machine, the conversions to byte strings and to the
  two hexadecimal notations (\<^verbatim>\<open>GetHex\<close> prints the bytes in memory order, \<^verbatim>\<open>GetValueHex\<close> the
  number), the indexed accessors, and the byte-wise reversal. A C string is a list of characters; its
  end stands for the terminating zero.
\<close>

section \<open>Memory order\<close>

definition limb_bytes :: "u32 \<Rightarrow> u8 list" where
  "limb_bytes x = map (\<lambda>i. ucast (drop_bit (8 * i) x)) [0..<4]"

definition bytes_limb :: "u8 list \<Rightarrow> u32" where
  "bytes_limb bs = foldr (\<lambda>b x. push_bit 8 x OR ucast b) bs 0"

definition pn_bytes :: "pn \<Rightarrow> u8 list" where
  "pn_bytes a = concat (map limb_bytes a)"

fun bytes_pn :: "nat \<Rightarrow> u8 list \<Rightarrow> pn" where
  "bytes_pn 0 bs = []"
| "bytes_pn (Suc n) bs = bytes_limb (take 4 bs) # bytes_pn n (drop 4 bs)"

section \<open>Byte strings\<close>

definition base_SetBytes :: "pn \<Rightarrow> u8 list \<Rightarrow> nat \<times> pn" where
  "base_SetBytes a d =
     (if length d = 4 * length a then (length d, bytes_pn (length a) d) else (0, a))"

definition base_GetBytes :: "pn \<Rightarrow> u8 list" where
  "base_GetBytes a = pn_bytes a"

definition base_ToBigEndian :: "pn \<Rightarrow> u8 list" where
  "base_ToBigEndian a =
     (let p = pn_bytes a; n = length p
      in fold (\<lambda>i buf. buf[n - i - 1 := p ! i]) [0..<n] (replicate n 0))"

definition base_ToValidBigEndianData :: "pn \<Rightarrow> u8 list" where
  "base_ToValidBigEndianData a =
     (let us = base_ToBigEndian a; n = length (takeWhile (\<lambda>b. b = 0) us)
      in if n \<noteq> length us then drop n us else [])"

definition base_FromBigEndian :: "pn \<Rightarrow> u8 list \<Rightarrow> pn" where
  "base_FromBigEndian a buf =
     (if length buf = 4 * length a
      then bytes_pn (length a) (fold (\<lambda>i p. p[i := buf ! (length buf - i - 1)]) [0..<length buf] (pn_bytes a))
      else a)"

definition base_FromValidBigEndianData :: "pn \<Rightarrow> u8 list \<Rightarrow> pn" where
  "base_FromValidBigEndianData a d =
     (if length d \<ge> 4 * length a then base_FromBigEndian a d
      else base_FromBigEndian a (replicate (4 * length a - length d) 0 @ d))"

text \<open>The bytes written by \<^verbatim>\<open>Serialize\<close> with \<^verbatim>\<open>SaveType\<close>, and the array read back by
  \<^verbatim>\<open>LoadType\<close> from the bytes \<^verbatim>\<open>us\<close> it took from the stream.\<close>

definition base_save :: "pn \<Rightarrow> u8 list" where
  "base_save a = (let p = pn_bytes a in map (\<lambda>i. p ! (length p - i - 1)) [0..<length p])"

definition base_load :: "nat \<Rightarrow> u8 list \<Rightarrow> pn" where
  "base_load W us = bytes_pn W (fold (\<lambda>i p. p[4 * W - i - 1 := us ! i]) [0..<4 * W] (replicate (4 * W) 0))"

section \<open>Hexadecimal strings\<close>

definition phexdigit :: "char \<Rightarrow> u8" where
  "phexdigit c = (let n = (of_char c :: nat) in
     if 48 \<le> n \<and> n \<le> 57 then of_nat (n - 48)
     else if 65 \<le> n \<and> n \<le> 70 then of_nat (n - 55)
     else if 97 \<le> n \<and> n \<le> 102 then of_nat (n - 87) else 0)"

definition is_hex :: "char \<Rightarrow> bool" where
  "is_hex c \<longleftrightarrow> phexdigit c \<noteq> 0 \<or> c = CHR ''0''"

definition is_space :: "char \<Rightarrow> bool" where
  "is_space c \<longleftrightarrow> (let n = (of_char c :: nat) in n = 32 \<or> (9 \<le> n \<and> n \<le> 13))"

definition skip_0x :: "string \<Rightarrow> string" where
  "skip_0x s = (case s of
     c # d # r \<Rightarrow> if c = CHR ''0'' \<and> (d = CHR ''x'' \<or> d = CHR ''X'') then r else s
   | _ \<Rightarrow> s)"

definition hex_digit :: "nat \<Rightarrow> char" where
  "hex_digit n = (if n < 10 then char_of (48 + n) else char_of (87 + n))"

text \<open>\<^verbatim>\<open>sprintf "%x"\<close> and \<^verbatim>\<open>"%02x"\<close> of a byte.\<close>

definition hex1 :: "u8 \<Rightarrow> string" where
  "hex1 b = (if unat b < 16 then [hex_digit (unat b)]
             else [hex_digit (unat b div 16), hex_digit (unat b mod 16)])"

definition hex2 :: "u8 \<Rightarrow> string" where
  "hex2 b = [hex_digit (unat b div 16), hex_digit (unat b mod 16)]"

definition base_GetHex :: "pn \<Rightarrow> string" where
  "base_GetHex a = ''0x'' @ concat (map hex2 (pn_bytes a))"

text \<open>The loop of \<^verbatim>\<open>SetHex\<close>: the bytes it stores (at most \<open>n\<close>) and the text it leaves unread.\<close>

fun sethex_loop :: "nat \<Rightarrow> string \<Rightarrow> u8 list \<times> string" where
  "sethex_loop 0 s = ([], s)"
| "sethex_loop (Suc n) [] = ([], [])"
| "sethex_loop (Suc n) (c # cs) =
     (if \<not> is_hex c then ([], c # cs)
      else case cs of
        [] \<Rightarrow> ([push_bit 4 (phexdigit c)], [])
      | d # ds \<Rightarrow>
          if is_hex d
          then (let (bs, r) = sethex_loop n ds in ((push_bit 4 (phexdigit c) OR phexdigit d) # bs, r))
          else ([push_bit 4 (phexdigit c)], cs))"

definition zero_fill :: "nat \<Rightarrow> u8 list \<Rightarrow> u8 list" where
  "zero_fill n bs = bs @ replicate (n - length bs) 0"

definition base_SetHex :: "nat \<Rightarrow> string \<Rightarrow> nat \<times> pn" where
  "base_SetHex W s =
     (let (bs, rest) = sethex_loop (4 * W) (skip_0x (dropWhile is_space s))
      in (length s - length rest, bytes_pn W (zero_fill (4 * W) bs)))"

definition base_GetValueHex :: "pn \<Rightarrow> string" where
  "base_GetValueHex a = ''0x'' @
     (case dropWhile (\<lambda>b. b = 0) (rev (pn_bytes a)) of
        [] \<Rightarrow> ''0''
      | b # bs \<Rightarrow> hex1 b @ concat (map hex2 bs))"

text \<open>The backwards loop of \<^verbatim>\<open>SetValueHex\<close> over the digits, last digit first.\<close>

fun setvalue_loop :: "nat \<Rightarrow> string \<Rightarrow> u8 list" where
  "setvalue_loop 0 ds = []"
| "setvalue_loop (Suc n) [] = []"
| "setvalue_loop (Suc n) [d] = [phexdigit d]"
| "setvalue_loop (Suc n) (d # e # r) = (phexdigit d OR push_bit 4 (phexdigit e)) # setvalue_loop n r"

definition base_SetValueHex :: "nat \<Rightarrow> string \<Rightarrow> nat \<times> pn" where
  "base_SetValueHex W s =
     (let t = skip_0x (dropWhile is_space s); digits = takeWhile is_hex t
      in (length s - length (dropWhile is_hex t),
          bytes_pn W (zero_fill (4 * W) (setvalue_loop (4 * W) (rev digits)))))"

section \<open>Indexed access\<close>

text \<open>What an access to \<^verbatim>\<open>pn[n]\<close> does: the exception of the guard, an access outside the array
  (undefined behaviour in C++), or a value.\<close>

datatype 'a pn_access = IndexError | OutOfBounds | Access 'a

definition base_Set32 :: "pn \<Rightarrow> int \<Rightarrow> u32 \<Rightarrow> pn pn_access" where
  "base_Set32 a n d =
     (if n < 0 \<or> n \<ge> int (length a) then IndexError else Access (a[nat n := d]))"

definition base_Get32 :: "pn \<Rightarrow> int \<Rightarrow> u32 pn_access" where
  "base_Get32 a n =
     (if n < 0 \<or> n \<ge> int (length a) then IndexError else Access (a ! nat n))"

text \<open>The index is an integer without bound: where \<^verbatim>\<open>n * 2\<close> leaves the range of \<^verbatim>\<open>int\<close>, which \<^verbatim>\<open>C++\<close> leaves undefined, the guard is read with
  the product that does not overflow, and it refuses the index.\<close>

definition base_Set64 :: "pn \<Rightarrow> int \<Rightarrow> u64 \<Rightarrow> pn pn_access" where
  "base_Set64 a n d =
     (if n * 2 < 0 \<or> n * 2 \<ge> int (length a) then IndexError
      else if 2 * nat n + 1 \<ge> length a then OutOfBounds
      else Access (a[2 * nat n := ucast (d AND 0xFFFFFFFF), 2 * nat n + 1 := ucast (drop_bit 32 d)]))"

definition base_Get64 :: "pn \<Rightarrow> int \<Rightarrow> u64 pn_access" where
  "base_Get64 a n =
     (if n * 2 < 0 \<or> n * 2 \<ge> int (length a) then IndexError
      else if 2 * nat n + 1 \<ge> length a then OutOfBounds
      else Access (ucast (a ! (2 * nat n)) OR push_bit 32 (ucast (a ! (2 * nat n + 1)))))"

definition base_GetByteIndex :: "pn \<Rightarrow> u8" where
  "base_GetByteIndex a = fold (\<lambda>b n. n XOR b) (pn_bytes a) 0"

fun bytes_u16 :: "u8 list \<Rightarrow> u16 list" where
  "bytes_u16 (x # y # r) = (ucast x OR push_bit 8 (ucast y)) # bytes_u16 r"
| "bytes_u16 _ = []"

definition base_GetUint16Index :: "pn \<Rightarrow> u16" where
  "base_GetUint16Index a = fold (\<lambda>w n. n XOR w) (bytes_u16 (pn_bytes a)) 0"

definition base_GetInt32Index :: "pn \<Rightarrow> u32" where
  "base_GetInt32Index a = fold (\<lambda>x n. n XOR x) a 0"

definition base_GetInt64Index :: "pn \<Rightarrow> u64" where
  "base_GetInt64Index a =
     fold (\<lambda>i n. case base_Get64 a (int i) of Access x \<Rightarrow> n XOR x | _ \<Rightarrow> n) [0..<length a div 2] 0"

text \<open>The loop of \<^verbatim>\<open>reverse\<close>: \<open>i\<close> and \<open>j\<close> are the offsets of \<^verbatim>\<open>front\<close> and \<^verbatim>\<open>after\<close>.\<close>

function reverse_loop :: "u8 list \<Rightarrow> nat \<Rightarrow> nat \<Rightarrow> u8 list" where
  "reverse_loop p i j = (if i < j then reverse_loop (p[i := p ! j, j := p ! i]) (i + 1) (j - 1) else p)"
  by pat_completeness auto
termination by (relation "measure (\<lambda>(p, i, j). j - i)") auto

declare reverse_loop.simps [simp del]

definition base_reverse :: "pn \<Rightarrow> pn" where
  "base_reverse a = bytes_pn (length a) (reverse_loop (pn_bytes a) 0 (4 * length a - 1))"

section \<open>The byte view is a bijection\<close>

lemma length_limb_bytes [simp]: "length (limb_bytes x) = 4"
  by (simp add: limb_bytes_def)

lemma limb_bytes_unfold: "limb_bytes x = [ucast x, ucast (drop_bit 8 x), ucast (drop_bit 16 x), ucast (drop_bit 24 x)]"
  by (simp add: limb_bytes_def upt_rec numeral_eq_Suc)

lemma u8_bit_high: "8 \<le> n \<Longrightarrow> \<not> bit (b :: u8) n"
  using bit_imp_le_length[of b n] by auto

lemma bytes_limb_limb_bytes [simp]: "bytes_limb (limb_bytes x) = x"
proof (rule bit_word_eqI)
  fix n assume "n < LENGTH(32)"
  then consider "n < 8" | "8 \<le> n" "n < 16" | "16 \<le> n" "n < 24" | "24 \<le> n" "n < 32" by force
  then show "bit (bytes_limb (limb_bytes x)) n = bit x n"
    by cases (auto simp: bytes_limb_def limb_bytes_unfold bit_simps)
qed

lemma limb_bytes_bytes_limb: "length bs = 4 \<Longrightarrow> limb_bytes (bytes_limb bs) = bs"
proof -
  assume "length bs = 4"
  then obtain b0 b1 b2 b3 where bs: "bs = [b0, b1, b2, b3]"
    by (auto simp: numeral_eq_Suc length_Suc_conv)
  show ?thesis unfolding bs bytes_limb_def limb_bytes_unfold
    by (auto intro!: bit_word_eqI simp: bit_simps u8_bit_high)
qed

lemma length_pn_bytes [simp]: "length (pn_bytes a) = 4 * length a"
  by (induction a) (simp_all add: pn_bytes_def)

lemma length_bytes_pn [simp]: "length (bytes_pn n bs) = n"
  by (induction n bs rule: bytes_pn.induct) simp_all

lemma pn_bytes_Cons: "pn_bytes (x # a) = limb_bytes x @ pn_bytes a"
  by (simp add: pn_bytes_def)

lemma bytes_pn_pn_bytes [simp]: "bytes_pn (length a) (pn_bytes a) = a"
  by (induction a) (simp_all add: pn_bytes_Cons)

lemma pn_bytes_bytes_pn: "length bs = 4 * n \<Longrightarrow> pn_bytes (bytes_pn n bs) = bs"
  by (induction n bs rule: bytes_pn.induct)
     (simp_all add: pn_bytes_Cons limb_bytes_bytes_limb, simp add: pn_bytes_def)

section \<open>Loops that copy an array backwards\<close>

lemma fold_update_length [simp]: "length (fold (\<lambda>i q. q[g i := f i]) is q) = length q"
  by (induction "is" arbitrary: q) simp_all

lemma fold_update_nth:
  "\<lbrakk>inj_on g (set is); distinct is; \<forall>i \<in> set is. g i < length q; i \<in> set is\<rbrakk> \<Longrightarrow>
    fold (\<lambda>i q. q[g i := f i]) is q ! g i = f i"
proof (induction "is" rule: rev_induct)
  case (snoc k "is")
  then show ?case by (cases "i = k") (auto simp: nth_list_update inj_on_def)
qed simp

lemma fold_update_rev:
  assumes "length q = n" "length p = n"
  shows "fold (\<lambda>i q. q[n - i - 1 := p ! i]) [0..<n] q = rev p"
proof (rule nth_equalityI)
  fix k assume "k < length (fold (\<lambda>i q. q[n - i - 1 := p ! i]) [0..<n] q)"
  then have k: "k < n" using assms by simp
  have "fold (\<lambda>i q. q[n - i - 1 := p ! i]) [0..<n] q ! (n - (n - k - 1) - 1) = p ! (n - k - 1)"
    using k assms by (intro fold_update_nth) (auto simp: inj_on_def)
  then show "fold (\<lambda>i q. q[n - i - 1 := p ! i]) [0..<n] q ! k = rev p ! k"
    using k assms by (simp add: rev_nth)
qed (use assms in simp)

lemma fold_update_rev':
  assumes "length q = length p"
  shows "fold (\<lambda>i q. q[i := p ! (length p - i - 1)]) [0..<length p] q = rev p"
proof (rule nth_equalityI)
  fix k assume "k < length (fold (\<lambda>i q. q[i := p ! (length p - i - 1)]) [0..<length p] q)"
  then have k: "k < length p" using assms by simp
  show "fold (\<lambda>i q. q[i := p ! (length p - i - 1)]) [0..<length p] q ! k = rev p ! k"
    using k assms fold_update_nth[of id "[0..<length p]" q k "\<lambda>i. p ! (length p - i - 1)"]
    by (simp add: rev_nth)
qed (use assms in simp)

lemma map_rev_index: "map (\<lambda>i. p ! (length p - i - 1)) [0..<length p] = rev p"
  by (rule nth_equalityI) (simp_all add: rev_nth)

lemma base_ToBigEndian_rev: "base_ToBigEndian a = rev (pn_bytes a)"
  unfolding base_ToBigEndian_def Let_def by (rule fold_update_rev) simp_all

lemma base_FromBigEndian_rev:
  "length buf = 4 * length a \<Longrightarrow> base_FromBigEndian a buf = bytes_pn (length a) (rev buf)"
  unfolding base_FromBigEndian_def using fold_update_rev'[of "pn_bytes a" buf] by simp

lemma base_save_rev: "base_save a = rev (pn_bytes a)"
  unfolding base_save_def Let_def by (rule map_rev_index)

lemma base_load_rev: "length us = 4 * W \<Longrightarrow> base_load W us = bytes_pn W (rev us)"
  unfolding base_load_def using fold_update_rev[of "replicate (4 * W) 0" "4 * W" us] by simp

lemma length_base_save [simp]: "length (base_save a) = 4 * length a"
  by (simp add: base_save_rev)

lemma base_load_save: "length a = W \<Longrightarrow> base_load W (base_save a) = a"
  by (auto simp: base_load_rev base_save_rev)

lemma base_save_load: "length us = 4 * W \<Longrightarrow> base_save (base_load W us) = us"
  by (simp add: base_load_rev base_save_rev pn_bytes_bytes_pn)

lemma base_FromBigEndian_ToBigEndian: "length a = length b \<Longrightarrow> base_FromBigEndian a (base_ToBigEndian b) = b"
  by (simp add: base_ToBigEndian_rev base_FromBigEndian_rev)

lemma dropWhile_zeros_pad:
  "replicate (length bs - length (dropWhile (\<lambda>b. b = 0) bs)) 0 @ dropWhile (\<lambda>b. b = 0) bs = (bs :: u8 list)"
proof (induction bs)
  case (Cons b bs)
  have "length (dropWhile (\<lambda>b. b = 0) bs) \<le> length bs" by (rule length_dropWhile_le)
  then show ?case using Cons by (auto simp: Suc_diff_le)
qed simp

lemma base_ToValid_dropWhile: "base_ToValidBigEndianData a = dropWhile (\<lambda>b. b = 0) (rev (pn_bytes a))"
proof -
  have *: "drop (length (takeWhile P xs)) xs = dropWhile P xs" for P and xs :: "u8 list"
    by (simp add: dropWhile_eq_drop)
  have "length (takeWhile P xs) = length xs \<Longrightarrow> [] = dropWhile P xs" for P and xs :: "u8 list"
    using takeWhile_dropWhile_id[of P xs] by (metis append_eq_append_conv append.right_neutral)
  then show ?thesis
    unfolding base_ToValidBigEndianData_def base_ToBigEndian_rev Let_def *
    by metis
qed

lemma base_FromValid_ToValid:
  assumes "length a = length b"
  shows "base_FromValidBigEndianData a (base_ToValidBigEndianData b) = b"
proof -
  define d where "d = dropWhile (\<lambda>b. b = 0) (rev (pn_bytes b))"
  have le: "length d \<le> 4 * length b"
    unfolding d_def using length_dropWhile_le[of "\<lambda>b. b = 0" "rev (pn_bytes b)"] by simp
  have pad: "replicate (4 * length b - length d) 0 @ d = rev (pn_bytes b)"
    unfolding d_def using dropWhile_zeros_pad[of "rev (pn_bytes b)"] by simp
  show ?thesis
  proof (cases "length d = 4 * length b")
    case True
    then have "d = rev (pn_bytes b)" using pad by simp
    then show ?thesis using assms True
      by (simp add: base_FromValidBigEndianData_def base_ToValid_dropWhile d_def[symmetric] base_FromBigEndian_rev)
  next
    case False
    then show ?thesis using assms le
      by (simp add: base_FromValidBigEndianData_def base_ToValid_dropWhile d_def[symmetric] pad base_FromBigEndian_rev)
  qed
qed

section \<open>Hexadecimal round trips\<close>

lemma of_char_hex_digit: "n < 16 \<Longrightarrow> (of_char (hex_digit n) :: nat) = (if n < 10 then 48 + n else 87 + n)"
  by (simp add: hex_digit_def)

lemma of_nat_u8_eq_0: "n < 16 \<Longrightarrow> (of_nat n :: u8) = 0 \<longleftrightarrow> n = 0"
  by (simp add: word_of_nat_eq_0_iff take_bit_nat_eq_self dvd_eq_mod_eq_0)

lemma hex_digit_props [simp]:
  assumes "n < 16"
  shows "phexdigit (hex_digit n) = of_nat n" "is_hex (hex_digit n)" "\<not> is_space (hex_digit n)"
    "hex_digit n \<noteq> CHR ''x''" "hex_digit n \<noteq> CHR ''X''"
proof -
  show p: "phexdigit (hex_digit n) = of_nat n"
    using assms by (auto simp: phexdigit_def of_char_hex_digit Let_def)
  have "hex_digit 0 = CHR ''0''" by (simp add: hex_digit_def char_of_def bit_0 bit_Suc)
  then show "is_hex (hex_digit n)"
    using assms p by (cases "n = 0") (auto simp: is_hex_def of_nat_u8_eq_0)
  show "\<not> is_space (hex_digit n)"
    using assms by (auto simp: is_space_def of_char_hex_digit Let_def)
  have "(of_char (hex_digit n) :: nat) \<noteq> of_char (CHR ''x'')" "(of_char (hex_digit n) :: nat) \<noteq> of_char (CHR ''X'')"
    using assms by (auto simp: of_char_hex_digit)
  then show "hex_digit n \<noteq> CHR ''x''" "hex_digit n \<noteq> CHR ''X''" by auto
qed

lemma u8_bound [simp]: "unat (b :: u8) div 16 < 16"
  using unsigned_less[of b, where ?'a = nat] by simp

lemma u8_nibbles: "push_bit 4 (of_nat (unat b div 16)) OR of_nat (unat b mod 16) = (b :: u8)"
proof (rule bit_word_eqI)
  fix n assume n: "n < LENGTH(8)"
  have d: "unat b div 16 = drop_bit 4 (unat b)" "unat b mod 16 = take_bit 4 (unat b)"
    by (simp_all add: drop_bit_eq_div take_bit_eq_mod)
  show "bit (push_bit 4 (of_nat (unat b div 16)) OR of_nat (unat b mod 16) :: u8) n = bit b n"
    using n unfolding d by (auto simp: bit_simps)
qed

lemma sethex_loop_hex2: "sethex_loop (length bs) (concat (map hex2 bs)) = (bs, [])"
  by (induction bs) (simp_all add: hex2_def u8_nibbles)

lemma skip_0x_prefix [simp]: "skip_0x (CHR ''0'' # CHR ''x'' # s) = s"
  by (simp add: skip_0x_def)

lemma base_SetHex_GetHex:
  "length a = W \<Longrightarrow> base_SetHex W (base_GetHex a) = (2 + 8 * W, a)"
proof -
  assume a: "length a = W"
  have l: "length (concat (map hex2 bs)) = 2 * length bs" for bs
    by (induction bs) (simp_all add: hex2_def)
  have "\<not> is_space (CHR ''0'')" by (simp add: is_space_def)
  then show ?thesis
    using a sethex_loop_hex2[of "pn_bytes a"]
    by (auto simp: base_SetHex_def base_GetHex_def zero_fill_def l)
qed

lemma setvalue_loop_hex2:
  "setvalue_loop (length bs + n) (concat (map (\<lambda>b. rev (hex2 b)) bs) @ ds) = bs @ setvalue_loop n ds"
proof (induction bs)
  case (Cons b bs)
  have "of_nat (unat b mod 16) OR push_bit 4 (of_nat (unat b div 16)) = b"
    using u8_nibbles[of b] by (simp only: or.commute)
  then show ?case using Cons by (simp add: hex2_def)
qed simp

lemma setvalue_loop_hex1: "setvalue_loop (Suc n) (rev (hex1 b)) = [b]"
proof -
  have "of_nat (unat b mod 16) OR push_bit 4 (of_nat (unat b div 16)) = b"
    using u8_nibbles[of b] by (simp only: or.commute)
  then show ?thesis by (cases n) (simp_all add: hex1_def)
qed

lemma rev_concat_hex2: "rev (concat (map hex2 bs)) = concat (map (\<lambda>b. rev (hex2 b)) (rev bs))"
  by (simp add: rev_concat rev_map comp_def)

lemma takeWhile_hex [simp]: "takeWhile is_hex (hex1 b @ concat (map hex2 bs)) = hex1 b @ concat (map hex2 bs)"
  by (rule takeWhile_eq_all_conv[THEN iffD2]) (auto simp: hex1_def hex2_def split: if_splits)

lemma zero_fill_pad:
  "zero_fill (length bs) (rev (dropWhile (\<lambda>b. b = 0) (rev bs))) = bs"
  using arg_cong[OF dropWhile_zeros_pad[of "rev bs"], of rev] by (simp add: zero_fill_def)

lemma base_SetValueHex_GetValueHex:
  assumes "length a = W" "0 < W"
  shows "base_SetValueHex W (base_GetValueHex a) = (length (base_GetValueHex a), a)"
proof -
  have sp: "\<not> is_space (CHR ''0'')" by (simp add: is_space_def)
  show ?thesis
  proof (cases "dropWhile (\<lambda>b. b = 0) (rev (pn_bytes a))")
    case Nil
    have h0: "is_hex (CHR ''0'')" "phexdigit (CHR ''0'') = 0" by (simp_all add: is_hex_def phexdigit_def)
    have z: "zero_fill (4 * W) [] = pn_bytes a"
      using zero_fill_pad[of "pn_bytes a"] Nil assms by simp
    moreover have "setvalue_loop (4 * W) ''0'' = [0]" using assms h0 by (cases "4 * W") simp_all
    moreover have "zero_fill (4 * W) [0] = zero_fill (4 * W) []"
      using assms by (cases "4 * W") (simp_all add: zero_fill_def)
    moreover have "base_GetValueHex a = ''0x0''" using Nil by (simp only: base_GetValueHex_def) simp
    ultimately show ?thesis
      using sp h0 assms by (simp add: base_SetValueHex_def Let_def) auto
  next
    case (Cons b bs)
    have "length (dropWhile (\<lambda>b. b = 0) (rev (pn_bytes a))) \<le> 4 * W"
      using length_dropWhile_le[of "\<lambda>b. b = 0" "rev (pn_bytes a)"] assms by simp
    then obtain n where n: "4 * W = length (rev bs) + Suc n"
      using Cons by (auto simp: less_eq_Suc_le[symmetric] dest!: less_imp_Suc_add)
    have "setvalue_loop (4 * W) (rev (hex1 b @ concat (map hex2 bs))) = rev (b # bs)"
      unfolding n by (simp only: rev_append rev_concat_hex2 setvalue_loop_hex2 setvalue_loop_hex1) simp
    moreover have "zero_fill (4 * W) (rev (b # bs)) = pn_bytes a"
      using zero_fill_pad[of "pn_bytes a"] Cons assms by simp
    moreover have "dropWhile is_hex (hex1 b @ concat (map hex2 bs)) = []"
      using takeWhile_dropWhile_id[of is_hex "hex1 b @ concat (map hex2 bs)"] by simp
    moreover have "base_GetValueHex a = ''0x'' @ hex1 b @ concat (map hex2 bs)"
      using Cons by (simp add: base_GetValueHex_def)
    ultimately show ?thesis
      using sp assms by (simp del: dropWhile_append takeWhile_append2 dropWhile_eq_Nil_conv rev_append
          add: base_SetValueHex_def Let_def) auto
  qed
qed

section \<open>Reversal and indexed access\<close>

lemma length_reverse_loop [simp]: "length (reverse_loop p i j) = length p"
  by (induction p i j rule: reverse_loop.induct) (subst reverse_loop.simps, simp)

lemma reverse_loop_nth:
  "j < length p \<Longrightarrow> k < length p \<Longrightarrow>
    reverse_loop p i j ! k = (if i \<le> k \<and> k \<le> j then p ! (i + j - k) else p ! k)"
proof (induction p i j arbitrary: k rule: reverse_loop.induct)
  case (1 p i j)
  show ?case
  proof (cases "i < j")
    case True
    then have "reverse_loop p i j ! k =
        (if i + 1 \<le> k \<and> k \<le> j - 1 then (p[i := p ! j, j := p ! i]) ! (i + 1 + (j - 1) - k)
         else (p[i := p ! j, j := p ! i]) ! k)"
      using 1 by (subst reverse_loop.simps) simp
    also have "\<dots> = (if i \<le> k \<and> k \<le> j then p ! (i + j - k) else p ! k)"
      using True 1(2,3) by (auto simp: nth_list_update)
    finally show ?thesis .
  next
    case False
    then have "i \<le> k \<and> k \<le> j \<longrightarrow> i + j - k = k" by auto
    then show ?thesis using False by (subst reverse_loop.simps) simp
  qed
qed

lemma reverse_loop_rev: "reverse_loop p 0 (length p - 1) = rev p"
proof (cases p)
  case Nil
  then show ?thesis by (simp add: reverse_loop.simps)
next
  case (Cons b bs)
  then have "0 < length p" by simp
  then show ?thesis by (intro nth_equalityI) (auto simp: reverse_loop_nth rev_nth)
qed

lemma base_reverse_bytes: "pn_bytes (base_reverse a) = rev (pn_bytes a)"
  using reverse_loop_rev[of "pn_bytes a"] by (simp add: base_reverse_def pn_bytes_bytes_pn)

lemma length_base_reverse [simp]: "length (base_reverse a) = length a"
  by (simp add: base_reverse_def)

lemma pn_bytes_inj: "length a = length b \<Longrightarrow> pn_bytes a = pn_bytes b \<Longrightarrow> a = b"
  by (metis bytes_pn_pn_bytes)

lemma base_reverse_reverse: "base_reverse (base_reverse a) = a"
  by (rule pn_bytes_inj) (simp_all add: base_reverse_bytes)

lemma base_Get64_in_bounds:
  assumes "even (length a)"
  shows "base_Get64 a n \<noteq> OutOfBounds" "base_Set64 a n d \<noteq> OutOfBounds"
proof -
  have "\<not> 2 * nat n + 1 \<ge> length a" if "\<not> (n * 2 < 0 \<or> n * 2 \<ge> int (length a))"
  proof -
    have "2 * nat n < length a" using that by linarith
    moreover have "Suc (2 * nat n) \<noteq> length a" using assms by (metis even_Suc even_mult_iff even_numeral)
    ultimately show ?thesis by simp
  qed
  then show "base_Get64 a n \<noteq> OutOfBounds" "base_Set64 a n d \<noteq> OutOfBounds"
    unfolding base_Get64_def base_Set64_def by (cases "n * 2 < 0 \<or> n * 2 \<ge> int (length a)"; simp)+
qed

lemma u64_halves:
  "ucast (ucast (d AND 0xFFFFFFFF :: u64) :: u32) OR push_bit 32 (ucast (ucast (drop_bit 32 d) :: u32)) = (d :: u64)"
proof -
  have m: "(0xffffffff :: u64) = mask 32" by (simp add: mask_eq_exp_minus_1)
  show ?thesis unfolding m take_bit_eq_mask[symmetric]
    by (rule bit_word_eqI) (auto simp: bit_simps)
qed

lemma base_Get64_Set64:
  "base_Set64 a n d = Access b \<Longrightarrow> base_Get64 b n = Access d"
  by (auto simp: base_Set64_def base_Get64_def u64_halves split: if_splits)

section \<open>Properties\<close>

text \<open>
  (C23) Text and byte round trips at every positive width: \<^verbatim>\<open>SetHex\<close> reads back what
  \<^verbatim>\<open>GetHex\<close> printed and consumes all of it, \<^verbatim>\<open>SetValueHex\<close> does so for \<^verbatim>\<open>GetValueHex\<close>
  (leading zero bytes and the number zero included), and \<^verbatim>\<open>SetBytes\<close>, \<^verbatim>\<open>FromBigEndian\<close>,
  \<^verbatim>\<open>FromValidBigEndianData\<close> and the loading \<^verbatim>\<open>Serialize\<close> invert their counterparts.
\<close>

theorem base_uint_roundtrips:
  assumes "length a = W" "length t = W" "0 < W"
  shows "base_SetHex W (base_GetHex a) = (length (base_GetHex a), a) \<and>
    base_SetValueHex W (base_GetValueHex a) = (length (base_GetValueHex a), a) \<and>
    base_SetBytes t (base_GetBytes a) = (4 * W, a) \<and>
    base_FromBigEndian t (base_ToBigEndian a) = a \<and>
    base_FromValidBigEndianData t (base_ToValidBigEndianData a) = a \<and>
    base_load W (base_save a) = a"
proof -
  have "length (concat (map hex2 bs)) = 2 * length bs" for bs
    by (induction bs) (simp_all add: hex2_def)
  then have "length (base_GetHex a) = 2 + 8 * W" using assms by (simp add: base_GetHex_def)
  moreover have "bytes_pn W (pn_bytes a) = a" using assms bytes_pn_pn_bytes[of a] by simp
  ultimately show ?thesis
    using assms base_SetHex_GetHex[of a W] base_SetValueHex_GetValueHex[of a W]
      base_FromValid_ToValid[of t a] base_load_save[of a W] base_FromBigEndian_ToBigEndian[of t a]
    by (simp add: base_SetBytes_def base_GetBytes_def)
qed

theorem base_uint_roundtrips_witness:
  "base_SetHex 2 (base_GetHex [7, 256]) = (length (base_GetHex [7, 256]), [7, 256])"
  using base_uint_roundtrips[of "[7, 256]" 2 "[0, 0]"] by simp

text \<open>
  (C24) The guard of \<^verbatim>\<open>Get64\<close> and \<^verbatim>\<open>Set64\<close> keeps both limbs inside the array exactly when
  \<^verbatim>\<open>WIDTH\<close> is even. For an odd width such as the five limbs of \<^verbatim>\<open>uint160\<close> the index
  \<^verbatim>\<open>WIDTH / 2\<close> passes the guard and touches the limb past the end.
\<close>

theorem base_uint_access64:
  "(\<forall>n d. base_Get64 a n \<noteq> OutOfBounds \<and> base_Set64 a n d \<noteq> OutOfBounds) \<longleftrightarrow> even (length a)"
proof
  assume *: "\<forall>n d. base_Get64 a n \<noteq> OutOfBounds \<and> base_Set64 a n d \<noteq> OutOfBounds"
  show "even (length a)"
  proof (rule ccontr)
    assume "odd (length a)"
    then obtain k where "length a = 2 * k + 1" by (rule oddE)
    then have "base_Get64 a (int k) = OutOfBounds" by (simp add: base_Get64_def)
    then show False using * by blast
  qed
qed (use base_Get64_in_bounds in blast)

text \<open> \<^verbatim>\<open>reverse\<close>, the two-pointer swap over the bytes of the array, reverses the bytes and is its
  own inverse, so the number it leaves is the one whose big-endian bytes were the original's memory.
\<close>

theorem base_uint_reverse:
  "pn_bytes (base_reverse a) = rev (pn_bytes a) \<and> base_ToBigEndian (base_reverse a) = base_GetBytes a \<and>
   base_reverse (base_reverse a) = a"
  by (simp add: base_reverse_bytes base_reverse_reverse base_ToBigEndian_rev base_GetBytes_def)

end
