(* ===== verification/Uint256_Ops.thy ===== *)
theory Uint256_Ops
  imports Uint256_Bytes
begin

unbundle bit_operations_syntax

text \<open>
  The part of \<^verbatim>\<open>class uint256\<close> that goes through \<^verbatim>\<open>boost::multiprecision::uint256_t\<close>
  (\<^verbatim>\<open>GetMuint256\<close>, \<^verbatim>\<open>SetMuint256\<close>, \<^verbatim>\<open>operator*\<close>, \<^verbatim>\<open>operator/\<close>) and its
  constructors. The boost type is a parameter: a record of the operations the source calls. The
  locale \<open>mp256\<close> states what the boost documentation promises of the unchecked fixed-width type,
  arithmetic modulo \<open>2 ^ 256\<close>, and \<open>word_mp\<close> is the instance at \<open>256 word\<close>.
\<close>

section \<open>The interface of the boost integer\<close>

record 'm mp_ops =
  mp_zero :: 'm
  mp_add32 :: "'m \<Rightarrow> u32 \<Rightarrow> 'm"
  mp_shl32 :: "'m \<Rightarrow> 'm"
  mp_shr32 :: "'m \<Rightarrow> 'm"
  mp_low32 :: "'m \<Rightarrow> u32"
  mp_mul :: "'m \<Rightarrow> 'm \<Rightarrow> 'm"
  mp_div :: "'m \<Rightarrow> 'm \<Rightarrow> 'm option"

section \<open>Conversions and operators\<close>

text \<open>The loop of \<^verbatim>\<open>GetMuint256\<close>, from the most significant limb down; \<open>ls\<close> are the limbs
  still to add, in that order.\<close>

fun get_mp_loop :: "'m mp_ops \<Rightarrow> 'm \<Rightarrow> u32 list \<Rightarrow> 'm" where
  "get_mp_loop M m [] = m"
| "get_mp_loop M m (x # ls) =
     (let m' = mp_add32 M m x in get_mp_loop M (if ls \<noteq> [] then mp_shl32 M m' else m') ls)"

definition GetMuint256 :: "'m mp_ops \<Rightarrow> pn \<Rightarrow> 'm" where
  "GetMuint256 M a = get_mp_loop M (mp_zero M) (rev a)"

fun SetMuint256 :: "'m mp_ops \<Rightarrow> nat \<Rightarrow> 'm \<Rightarrow> pn" where
  "SetMuint256 M 0 t = []"
| "SetMuint256 M (Suc n) t = mp_low32 M t # SetMuint256 M n (mp_shr32 M t)"

definition uint256_mul :: "'m mp_ops \<Rightarrow> pn \<Rightarrow> pn \<Rightarrow> pn" where
  "uint256_mul M a b = SetMuint256 M 8 (mp_mul M (GetMuint256 M a) (GetMuint256 M b))"

text \<open>\<open>None\<close> is the exception boost throws for a zero divisor.\<close>

definition uint256_div :: "'m mp_ops \<Rightarrow> pn \<Rightarrow> pn \<Rightarrow> pn option" where
  "uint256_div M a b =
     map_option (SetMuint256 M 8) (mp_div M (GetMuint256 M a) (GetMuint256 M b))"

section \<open>Constructors\<close>

definition uint256_new :: "pn" where
  "uint256_new = replicate 8 0"

definition uint256_h_l :: "u32 \<Rightarrow> pn \<Rightarrow> pn" where
  "uint256_h_l h l = h # take 7 l"

definition uint256_of_u64s :: "u64 list \<Rightarrow> pn" where
  "uint256_of_u64s b = concat (map (\<lambda>i. [ucast (b ! i), ucast (drop_bit 32 (b ! i))]) [0..<4])"

definition uint256_u32_n :: "u32 \<Rightarrow> pn \<Rightarrow> pn" where
  "uint256_u32_n b n = b # map (\<lambda>i. n ! i) [1..<8]"

definition uint256_of_vch :: "u8 list \<Rightarrow> pn" where
  "uint256_of_vch vch = (if length vch = 32 then bytes_pn 8 vch else replicate 8 0)"

section \<open>What the operators compute\<close>

locale mp256 =
  fixes M :: "'m mp_ops" and val :: "'m \<Rightarrow> nat"
  assumes zero: "val (mp_zero M) = 0"
    and bound: "val m < 2 ^ 256"
    and add32: "val (mp_add32 M m x) = (val m + unat x) mod 2 ^ 256"
    and shl32: "val (mp_shl32 M m) = (val m * 2 ^ 32) mod 2 ^ 256"
    and shr32: "val (mp_shr32 M m) = val m div 2 ^ 32"
    and low32: "unat (mp_low32 M m) = val m mod 2 ^ 32"
    and mul: "val (mp_mul M m n) = (val m * val n) mod 2 ^ 256"
    and div_zero: "val n = 0 \<Longrightarrow> mp_div M m n = None"
    and div_pos: "val n \<noteq> 0 \<Longrightarrow> \<exists>q. mp_div M m n = Some q \<and> val q = val m div val n"
begin

lemma get_loop:
  "ls \<noteq> [] \<Longrightarrow> val m * 2 ^ (32 * (length ls - 1)) + pn_value (rev ls) < 2 ^ 256 \<Longrightarrow>
   val (get_mp_loop M m ls) = val m * 2 ^ (32 * (length ls - 1)) + pn_value (rev ls)"
proof (induction ls arbitrary: m)
  case (Cons x ls)
  show ?case
  proof (cases ls)
    case Nil
    then show ?thesis using Cons.prems by (simp add: add32 pn_simps Let_def)
  next
    case (Cons y ys)
    then have e: "(2 :: nat) ^ (32 * (length (x # ls) - 1)) = 4294967296 * 2 ^ (32 * (length ls - 1))"
      by (simp add: pow_limbs_add)
    define k where "k = (2 :: nat) ^ (32 * (length ls - 1))"
    have k1: "1 \<le> k" by (simp add: k_def)
    have l: "(2 :: nat) ^ (32 * length ls) = 4294967296 * k" using Cons by (simp add: k_def pow_limbs_add)
    have sum: "val m * (4294967296 * k) + (pn_value (rev ls) + 4294967296 * k * unat x) < 2 ^ 256"
      using Cons.prems(2) unfolding e rev.simps pn_value_snoc length_rev l k_def by simp
    have "(val m + unat x) * 4294967296 * 1 \<le> (val m + unat x) * 4294967296 * k"
      using k1 by (intro mult_le_mono2)
    moreover have eq: "(val m + unat x) * 4294967296 * k + pn_value (rev ls) =
        val m * (4294967296 * k) + (pn_value (rev ls) + 4294967296 * k * unat x)"
      by (simp add: algebra_simps)
    ultimately have b: "(val m + unat x) * 4294967296 < 2 ^ 256" using sum by linarith
    then have v: "val (mp_shl32 M (mp_add32 M m x)) = (val m + unat x) * 4294967296"
      by (simp add: shl32 add32)
    have "val (get_mp_loop M (mp_shl32 M (mp_add32 M m x)) ls) =
        val (mp_shl32 M (mp_add32 M m x)) * k + pn_value (rev ls)"
      unfolding k_def
      by (rule Cons.IH) (use Cons sum eq v in \<open>simp_all add: k_def\<close>)
    then show ?thesis
      using Cons eq v unfolding e rev.simps pn_value_snoc length_rev l by (simp add: Let_def k_def)
  qed
qed simp

lemma GetMuint256: "length a = 8 \<Longrightarrow> val (GetMuint256 M a) = pn_value a"
  using get_loop[of "rev a" "mp_zero M"] pn_value_bound[of a]
  by (cases "a = []") (simp_all add: GetMuint256_def zero)

lemma SetMuint256: "pn_value (SetMuint256 M n t) = val t mod 2 ^ (32 * n)"
proof (induction n arbitrary: t)
  case (Suc n)
  have "pn_value (SetMuint256 M (Suc n) t) = val t mod 4294967296 + 4294967296 * (val t div 4294967296 mod 2 ^ (32 * n))"
    by (simp add: pn_simps Suc low32 shr32)
  also have "\<dots> = val t mod (4294967296 * 2 ^ (32 * n))"
    by (simp add: mod_mult2_eq)
  finally show ?case by (simp add: pn_simps)
qed simp

lemma mul_value:
  "\<lbrakk>length a = 8; length b = 8\<rbrakk> \<Longrightarrow> pn_value (uint256_mul M a b) = (pn_value a * pn_value b) mod 2 ^ 256"
  using SetMuint256[of 8] by (simp add: uint256_mul_def GetMuint256 mul)

lemma div_value:
  assumes "length a = 8" "length b = 8"
  shows "if pn_value b = 0 then uint256_div M a b = None
    else \<exists>q. uint256_div M a b = Some q \<and> pn_value q = pn_value a div pn_value b"
proof (cases "pn_value b = 0")
  case True
  then show ?thesis using assms by (simp add: uint256_div_def GetMuint256 div_zero)
next
  case False
  then obtain q where q: "mp_div M (GetMuint256 M a) (GetMuint256 M b) = Some q"
    "val q = pn_value a div pn_value b"
    using assms div_pos[of "GetMuint256 M b" "GetMuint256 M a"] by (auto simp: GetMuint256)
  then show ?thesis using False SetMuint256[of 8 q] bound[of q] by (simp add: uint256_div_def)
qed

end

section \<open>The instance at machine words\<close>

definition word_mp :: "u256 mp_ops" where
  "word_mp = \<lparr>mp_zero = 0, mp_add32 = (\<lambda>m x. m + ucast x), mp_shl32 = push_bit 32, mp_shr32 = drop_bit 32,
     mp_low32 = ucast, mp_mul = (*), mp_div = (\<lambda>m n. if n = 0 then None else Some (m div n))\<rparr>"

interpretation word256: mp256 word_mp unat
proof
  fix m n :: u256 and x :: u32
  have x: "unat (ucast x :: u256) = unat x"
  proof -
    have "unat x < 2 ^ 256" by (rule less_trans[OF unat_lt_2p32]) simp
    then show ?thesis by (simp add: unsigned_ucast_eq take_bit_nat_eq_self)
  qed
  show "unat m < 2 ^ 256" using unsigned_less[of m, where ?'a = nat] by simp
  show "unat (mp_add32 word_mp m x) = (unat m + unat x) mod 2 ^ 256"
    by (simp add: word_mp_def unat_word_ariths x)
  show "unat (mp_shl32 word_mp m) = (unat m * 2 ^ 32) mod 2 ^ 256"
    by (simp only: word_mp_def mp_ops.simps unsigned_push_bit_eq)
       (simp add: take_bit_eq_mod push_bit_eq_mult)
  show "unat (mp_shr32 word_mp m) = unat m div 2 ^ 32"
    using \<open>unat m < 2 ^ 256\<close>
    by (simp only: word_mp_def mp_ops.simps unsigned_drop_bit_eq)
       (simp add: drop_bit_eq_div take_bit_nat_eq_self)
  show "unat (mp_low32 word_mp m) = unat m mod 2 ^ 32"
    by (simp add: word_mp_def unsigned_ucast_eq take_bit_eq_mod)
  show "unat (mp_mul word_mp m n) = (unat m * unat n) mod 2 ^ 256"
    by (simp add: word_mp_def unat_word_ariths)
  show "mp_div word_mp m n = None" if "unat n = 0" using that by (simp add: word_mp_def unat_eq_zero)
  show "\<exists>q. mp_div word_mp m n = Some q \<and> unat q = unat m div unat n" if "unat n \<noteq> 0"
    using that by (auto simp: word_mp_def unat_div unat_eq_zero)
qed (simp add: word_mp_def)

section \<open>Properties\<close>

text \<open>
  (C25) Over any boost integer that keeps its documented laws, \<^verbatim>\<open>operator*\<close> of \<^verbatim>\<open>uint256\<close> is
  multiplication modulo \<open>2 ^ 256\<close>, and \<^verbatim>\<open>operator/\<close> is the quotient, or the exception when the
  divisor is zero.
\<close>

theorem uint256_mul_div:
  assumes "mp256 M val" "length a = 8" "length b = 8"
  shows "pn_value (uint256_mul M a b) = (pn_value a * pn_value b) mod 2 ^ 256 \<and>
    (if pn_value b = 0 then uint256_div M a b = None
     else \<exists>q. uint256_div M a b = Some q \<and> pn_value q = pn_value a div pn_value b)"
  using mp256.mul_value[OF assms] mp256.div_value[OF assms] by blast

theorem uint256_mul_div_witness:
  "pn_value (uint256_mul word_mp (base_of_u32 8 6) (base_of_u32 8 7)) =
     (pn_value (base_of_u32 8 6) * pn_value (base_of_u32 8 7)) mod 2 ^ 256"
  using uint256_mul_div[OF word256.mp256_axioms, of "base_of_u32 8 6" "base_of_u32 8 7"]
  by (simp add: base_of_u32_def)

end
