(* ===== verification/Stream_Codec.thy ===== *)
theory Stream_Codec
  imports Uint256_Ops
begin

unbundle bit_operations_syntax

text \<open>
  The serialisation of \<^verbatim>\<open>src/src/hnbase/stream/stream.h\<close> and \<^verbatim>\<open>stream.cpp\<close>. What a saving
  \<^verbatim>\<open>Serialize\<close> appends to the stream is a byte list; a loading \<^verbatim>\<open>Serialize\<close> takes the bytes
  left in the stream and returns the value with the bytes that remain, or the exception it throws;
  the counting \<^verbatim>\<open>Serialize\<close> returns the size it adds. The locale \<open>codec\<close> is the contract the three
  share, and the containers are proved to keep it for every element type that does.
\<close>

section \<open>Reading and writing\<close>

datatype stream_error =
    ReadError nat nat
  | ReadSizeError nat nat
  | FnError
  | LengthError
  | SetError

type_synonym 'a loader = "bytes \<Rightarrow> stream_error + ('a \<times> bytes)"

definition stream_Read :: "nat \<Rightarrow> bytes loader" where
  "stream_Read n s = (if length s < n then Inl (ReadError n (length s)) else Inr (take n s, drop n s))"

text \<open>Fundamental types are copied in memory order; \<open>sz\<close> is the \<^verbatim>\<open>sizeof\<close>.\<close>

definition fund_save :: "nat \<Rightarrow> 'a::len word \<Rightarrow> bytes" where
  "fund_save sz w = map (\<lambda>i. ucast (drop_bit (8 * i) w)) [0..<sz]"

definition fund_of_bytes :: "bytes \<Rightarrow> 'a::len word" where
  "fund_of_bytes bs = foldr (\<lambda>b x. push_bit 8 x OR ucast b) bs 0"

definition fund_load :: "nat \<Rightarrow> 'a::len word loader" where
  "fund_load sz s = res_bind (stream_Read sz s) (\<lambda>(bs, r). Inr (fund_of_bytes bs, r))"

section \<open>CVarInt\<close>

definition nDataImmLenStart :: u8 where
  "nDataImmLenStart = 0xF7"

function varint_BytesRequired :: "u64 \<Rightarrow> nat" where
  "varint_BytesRequired i = (if i \<noteq> 0 then Suc (varint_BytesRequired (drop_bit 8 i)) else 0)"
  by pat_completeness auto
termination
proof (relation "measure unat")
  fix i :: u64
  assume "i \<noteq> 0"
  then have "0 < unat i" by (simp add: unat_gt_0)
  moreover have "take_bit 64 (unat i) = unat i"
    by (rule take_bit_nat_eq_self) (use unsigned_less[of i, where ?'a = nat] in simp)
  then have "unat (drop_bit 8 i) = unat i div 256"
    by (simp only: unsigned_drop_bit_eq) (simp add: drop_bit_eq_div)
  ultimately show "(drop_bit 8 i, i) \<in> measure unat" by simp
qed simp

declare varint_BytesRequired.simps [simp del]

text \<open>The loop of \<^verbatim>\<open>GetBytes(out, n)\<close>: \<^verbatim>\<open>b\<close> runs from the last of the \<open>n\<close> bytes down, so \<open>Suc k\<close>
  bytes are left before it.\<close>

fun varint_fill :: "u64 \<Rightarrow> nat \<Rightarrow> bytes \<Rightarrow> bytes" where
  "varint_fill i 0 out = out"
| "varint_fill i (Suc k) out =
     (if i = 0 then out else varint_fill (drop_bit 8 i) k (out[k := ucast (i AND 0xff)]))"

definition varint_GetBytes :: "u64 \<Rightarrow> nat \<Rightarrow> bytes" where
  "varint_GetBytes v n = varint_fill v n (replicate n 0)"

definition varint_GetInt :: "bytes \<Rightarrow> u64" where
  "varint_GetInt bs = fold (\<lambda>b ret. push_bit 8 ret OR ucast b) bs 0"

definition varint_save :: "u64 \<Rightarrow> bytes" where
  "varint_save v =
     (if v = 0 then [nDataImmLenStart]
      else if v < ucast nDataImmLenStart then [ucast v]
      else let n = varint_BytesRequired v in (nDataImmLenStart + of_nat n) # varint_GetBytes v n)"

definition varint_load :: "u64 loader" where
  "varint_load s = res_bind (stream_Read 1 s) (\<lambda>(h, r). let n = h ! 0 in
     if n = nDataImmLenStart then Inr (0, r)
     else if n < nDataImmLenStart then Inr (ucast n, r)
     else let fn = n - nDataImmLenStart in
       if fn = 0 \<or> fn > 8 then Inl FnError
       else res_bind (stream_Read (unat fn) r) (\<lambda>(bt, r'). Inr (varint_GetInt bt, r')))"

definition varint_size :: "u64 \<Rightarrow> nat" where
  "varint_size v = (if v < ucast nDataImmLenStart then 1 else 1 + varint_BytesRequired v)"

definition varint_SetBytes :: "u64 \<Rightarrow> bytes \<Rightarrow> nat \<times> u64" where
  "varint_SetBytes old d = (case varint_load d of
     Inl _ \<Rightarrow> (0, old) | Inr (v, r) \<Rightarrow> (length d - length r, v))"

section \<open>Strings and containers\<close>

text \<open>A container holds fewer than \<open>2 ^ 64\<close> elements, so \<^verbatim>\<open>CVarInt(t.size())\<close> is exact.\<close>

definition size_save :: "nat \<Rightarrow> bytes" where
  "size_save n = varint_save (of_nat n)"

definition string_save :: "bytes \<Rightarrow> bytes" where
  "string_save t = size_save (length t) @ t"

text \<open>\<^verbatim>\<open>t.resize\<close> throws \<^verbatim>\<open>std::length_error\<close> above \<^verbatim>\<open>max_size()\<close>.\<close>

definition string_load :: "bytes loader" where
  "string_load s = res_bind (varint_load s) (\<lambda>(v, r).
     if unat v > 2 ^ 62 - 1 then Inl LengthError else stream_Read (unat v) r)"

definition string_size :: "bytes \<Rightarrow> nat" where
  "string_size t = varint_size (of_nat (length t)) + length t"

fun load_n :: "'a loader \<Rightarrow> nat \<Rightarrow> 'a list loader" where
  "load_n ld 0 s = Inr ([], s)"
| "load_n ld (Suc n) s = res_bind (ld s) (\<lambda>(x, r). res_bind (load_n ld n r) (\<lambda>(xs, r'). Inr (x # xs, r')))"

definition vector_save :: "('a \<Rightarrow> bytes) \<Rightarrow> 'a list \<Rightarrow> bytes" where
  "vector_save sv t = size_save (length t) @ concat (map sv t)"

definition vector_load :: "'a loader \<Rightarrow> 'a list loader" where
  "vector_load ld s = res_bind (varint_load s) (\<lambda>(v, r). if v > 0 then load_n ld (unat v) r else Inr ([], r))"

definition vector_size :: "('a \<Rightarrow> nat) \<Rightarrow> 'a list \<Rightarrow> nat" where
  "vector_size sz t = varint_size (of_nat (length t)) + sum_list (map sz t)"

text \<open>Vectors of a fundamental type, whose elements take \<open>sz\<close> bytes. \<^verbatim>\<open>sizeof(T) * var.nValue\<close> is
  computed in 64 bits; \<^verbatim>\<open>t.resize\<close> throws above \<^verbatim>\<open>max_size()\<close>, which is \<open>(2 ^ 63 - 1) div sz\<close>.\<close>

definition fvector_save :: "nat \<Rightarrow> 'a::len word list \<Rightarrow> bytes" where
  "fvector_save sz t = size_save (length t) @ concat (map (fund_save sz) t)"

fun split_bytes :: "nat \<Rightarrow> nat \<Rightarrow> bytes \<Rightarrow> bytes list" where
  "split_bytes sz 0 bs = []"
| "split_bytes sz (Suc n) bs = take sz bs # split_bytes sz n (drop sz bs)"

definition fvector_load :: "nat \<Rightarrow> 'a::len word list loader" where
  "fvector_load sz s = res_bind (varint_load s) (\<lambda>(v, r).
     if v > 0 then
       (let len = unat (of_nat sz * v :: u64) in
        if length r < len then Inl (ReadSizeError (length r) len)
        else if unat v > (2 ^ 63 - 1) div sz then Inl LengthError
        else res_bind (stream_Read len r) (\<lambda>(bs, r'). Inr (map fund_of_bytes (split_bytes sz (unat v) bs), r')))
     else Inr ([], r))"

definition fvector_size :: "nat \<Rightarrow> 'a::len word list \<Rightarrow> nat" where
  "fvector_size sz t = varint_size (of_nat (length t)) + sz * length t"

text \<open>\<^verbatim>\<open>std::array<T, N>\<close>: no length prefix.\<close>

definition array_save :: "('a \<Rightarrow> bytes) \<Rightarrow> 'a list \<Rightarrow> bytes" where
  "array_save sv t = concat (map sv t)"

definition array_load :: "'a loader \<Rightarrow> nat \<Rightarrow> 'a list loader" where
  "array_load ld N s = load_n ld N s"

definition array_size :: "('a \<Rightarrow> nat) \<Rightarrow> 'a list \<Rightarrow> nat" where
  "array_size sz t = sum_list (map sz t)"

text \<open>Sets and maps are loaded by inserting into the container \<open>t\<close> that is passed in, without clearing it.\<close>

definition set_save :: "('a \<Rightarrow> bytes) \<Rightarrow> 'a list \<Rightarrow> bytes" where
  "set_save sv t = size_save (length t) @ concat (map sv t)"

definition set_load :: "'a::linorder loader \<Rightarrow> 'a list \<Rightarrow> 'a list loader" where
  "set_load ld t s = res_bind (varint_load s) (\<lambda>(v, r).
     res_bind (load_n ld (unat v) r) (\<lambda>(xs, r'). Inr (fold sins xs t, r')))"

definition set_size :: "('a \<Rightarrow> nat) \<Rightarrow> 'a list \<Rightarrow> nat" where
  "set_size sz t = varint_size (of_nat (length t)) + sum_list (map sz t)"

definition pair_save :: "('a \<Rightarrow> bytes) \<Rightarrow> ('b \<Rightarrow> bytes) \<Rightarrow> 'a \<times> 'b \<Rightarrow> bytes" where
  "pair_save sa sb t = sa (fst t) @ sb (snd t)"

definition pair_load :: "'a loader \<Rightarrow> 'b loader \<Rightarrow> ('a \<times> 'b) loader" where
  "pair_load la lb s = res_bind (la s) (\<lambda>(x, r). res_bind (lb r) (\<lambda>(y, r'). Inr ((x, y), r')))"

definition pair_size :: "('a \<Rightarrow> nat) \<Rightarrow> ('b \<Rightarrow> nat) \<Rightarrow> 'a \<times> 'b \<Rightarrow> nat" where
  "pair_size za zb t = za (fst t) + zb (snd t)"

definition map_save :: "('k \<times> 'v \<Rightarrow> bytes) \<Rightarrow> ('k \<times> 'v) list \<Rightarrow> bytes" where
  "map_save sv t = size_save (length t) @ concat (map sv t)"

definition map_load :: "('k::linorder \<times> 'v) loader \<Rightarrow> ('k \<times> 'v) list \<Rightarrow> ('k \<times> 'v) list loader" where
  "map_load ld t s = res_bind (varint_load s) (\<lambda>(v, r).
     res_bind (load_n ld (unat v) r) (\<lambda>(xs, r'). Inr (fold (\<lambda>(k, v). mins k v) xs t, r')))"

definition map_size :: "('k \<times> 'v \<Rightarrow> nat) \<Rightarrow> ('k \<times> 'v) list \<Rightarrow> nat" where
  "map_size sz t = varint_size (of_nat (length t)) + sum_list (map sz t)"

definition multimap_load :: "('k::linorder \<times> 'v) loader \<Rightarrow> ('k \<times> 'v) list \<Rightarrow> ('k \<times> 'v) list loader" where
  "multimap_load ld t s = res_bind (varint_load s) (\<lambda>(v, r).
     res_bind (load_n ld (unat v) r) (\<lambda>(xs, r'). Inr (fold (\<lambda>(k, v). mm_insert k v) xs t, r')))"

definition multimap_save :: "('k \<times> 'v \<Rightarrow> bytes) \<Rightarrow> ('k \<times> 'v) list \<Rightarrow> bytes" where
  "multimap_save sv t = size_save (length t) @ concat (map sv t)"

definition multimap_size :: "('k \<times> 'v \<Rightarrow> nat) \<Rightarrow> ('k \<times> 'v) list \<Rightarrow> nat" where
  "multimap_size sz t = varint_size (of_nat (length t)) + sum_list (map sz t)"

definition uint_load :: "nat \<Rightarrow> pn loader" where
  "uint_load W s = res_bind (stream_Read (4 * W) s) (\<lambda>(us, r). Inr (base_load W us, r))"

definition uint_size :: "nat \<Rightarrow> pn \<Rightarrow> nat" where
  "uint_size W a = 4 * W"

section \<open>The variable-length integer\<close>

lemma stream_Read_append [simp]: "length a = n \<Longrightarrow> stream_Read n (a @ r) = Inr (a, r)"
  by (simp add: stream_Read_def)

lemma stream_Read_1 [simp]: "stream_Read (Suc 0) (b # r) = Inr ([b], r)"
  by (simp add: stream_Read_def)

lemma u64_div_256: "unat (drop_bit 8 (i :: u64)) = unat i div 256"
proof -
  have "take_bit 64 (unat i) = unat i"
    by (rule take_bit_nat_eq_self) (use unsigned_less[of i, where ?'a = nat] in simp)
  then show ?thesis by (simp only: unsigned_drop_bit_eq) (simp add: drop_bit_eq_div)
qed

lemma BytesRequired_le: "unat i < 256 ^ m \<Longrightarrow> varint_BytesRequired i \<le> m"
proof (induction m arbitrary: i)
  case (Suc m)
  have "unat (drop_bit 8 i) < 256 ^ m" using Suc.prems by (simp add: u64_div_256 less_mult_imp_div_less mult.commute)
  then show ?case using Suc.IH[of "drop_bit 8 i"] by (subst varint_BytesRequired.simps) simp
qed (subst varint_BytesRequired.simps, simp add: unat_eq_zero)

lemma BytesRequired_le_8: "varint_BytesRequired i \<le> 8"
  by (rule BytesRequired_le) (use unsigned_less[of i, where ?'a = nat] in simp)

lemma BytesRequired_pos: "i \<noteq> 0 \<Longrightarrow> 0 < varint_BytesRequired i"
  by (subst varint_BytesRequired.simps) simp

lemma length_varint_fill [simp]: "length (varint_fill i n out) = length out"
  by (induction i n out rule: varint_fill.induct) simp_all

lemma u64_shift_or: "push_bit 8 (drop_bit 8 i) OR ucast (ucast (i AND 0xff) :: u8) = (i :: u64)"
proof -
  have m: "(0xff :: u64) = mask 8" by (simp add: mask_eq_exp_minus_1)
  show ?thesis unfolding m take_bit_eq_mask[symmetric] by (rule bit_word_eqI) (auto simp: bit_simps)
qed

lemma drop_eq_Cons:
  assumes "drop n xs = b # r"
  shows "take (Suc n) xs = take n xs @ [b]" "drop (Suc n) xs = r"
proof -
  have n: "n < length xs" using assms by (cases "n < length xs") simp_all
  then have "xs ! n # drop (Suc n) xs = b # r" using assms by (simp only: Cons_nth_drop_Suc)
  then show "take (Suc n) xs = take n xs @ [b]" "drop (Suc n) xs = r"
    using n by (simp_all add: take_Suc_conv_app_nth)
qed

lemma varint_GetInt_fill:
  "varint_BytesRequired i = n \<Longrightarrow> n \<le> length out \<Longrightarrow>
   fold (\<lambda>b ret. push_bit 8 ret OR ucast b) (take n (varint_fill i n out)) (0 :: u64) = i
   \<and> drop n (varint_fill i n out) = drop n out"
proof (induction n arbitrary: i out)
  case 0
  then have "i = 0" using BytesRequired_pos[of i] by auto
  then show ?case by simp
next
  case (Suc n)
  define out' where "out' = out[n := ucast (i AND 0xff)]"
  have i: "i \<noteq> 0" using Suc.prems by (subst (asm) varint_BytesRequired.simps) (simp split: if_splits)
  have "varint_BytesRequired (drop_bit 8 i) = n"
    using Suc.prems(1) i by (subst (asm) varint_BytesRequired.simps) simp
  from Suc.IH[OF this, of out'] have IH:
    "fold (\<lambda>b ret. push_bit 8 ret OR ucast b) (take n (varint_fill (drop_bit 8 i) n out')) 0 = drop_bit 8 i"
    "drop n (varint_fill (drop_bit 8 i) n out') = ucast (i AND 0xff) # drop (Suc n) out"
    using Suc.prems(2) by (simp_all add: out'_def Cons_nth_drop_Suc[symmetric])
  from drop_eq_Cons[OF IH(2)] show ?case
    using i IH(1) u64_shift_or[of i] by (simp add: out'_def)
qed

lemma varint_GetInt_GetBytes: "varint_GetInt (varint_GetBytes v (varint_BytesRequired v)) = v"
  using varint_GetInt_fill[of v "varint_BytesRequired v" "replicate (varint_BytesRequired v) 0"]
  by (simp add: varint_GetInt_def varint_GetBytes_def)

lemma length_varint_GetBytes [simp]: "length (varint_GetBytes v n) = n"
  by (simp add: varint_GetBytes_def)

lemma varint_head:
  assumes "1 \<le> n" "n \<le> 8"
  shows "nDataImmLenStart + of_nat n \<noteq> nDataImmLenStart" "\<not> nDataImmLenStart + of_nat n < nDataImmLenStart"
    "\<not> (of_nat n :: u8) > 8" "unat (of_nat n :: u8) = n" "(of_nat n :: u8) \<noteq> 0"
proof -
  have n: "n \<in> {1, 2, 3, 4, 5, 6, 7, 8}" using assms by auto
  show "nDataImmLenStart + of_nat n \<noteq> nDataImmLenStart" "\<not> nDataImmLenStart + of_nat n < nDataImmLenStart"
    "\<not> (of_nat n :: u8) > 8" "unat (of_nat n :: u8) = n" "(of_nat n :: u8) \<noteq> 0"
    using n by (auto simp: nDataImmLenStart_def)
qed

lemma unat_ucast_u8: "unat (v :: u64) < 256 \<Longrightarrow> unat (ucast v :: u8) = unat v"
  by (simp add: unsigned_ucast_eq take_bit_nat_eq_self)

lemma ucast_u8_small:
  assumes "v < 0xF7"
  shows "ucast (ucast (v :: u64) :: u8) = v" "ucast v \<noteq> (0xF7 :: u8)" "ucast v < (0xF7 :: u8)"
proof -
  have v: "unat v < 247" using assms by (simp add: word_less_nat_alt)
  then have u: "unat (ucast v :: u8) = unat v" by (simp add: unat_ucast_u8)
  show "ucast v < (0xF7 :: u8)" using u v by (simp add: word_less_nat_alt)
  then show "ucast v \<noteq> (0xF7 :: u8)" by auto
  have "unat (ucast (ucast v :: u8) :: u64) = take_bit 64 (unat (ucast v :: u8))"
    by (rule unsigned_ucast_eq[of "ucast v :: u8", where ?'a = nat and ?'c = 64, simplified])
  also have "\<dots> = unat v" using u v by (simp add: take_bit_nat_eq_self)
  finally show "ucast (ucast v :: u8) = v" by (rule unsigned_word_eqI)
qed

lemma varint_load_save: "varint_load (varint_save v @ r) = Inr (v, r)"
proof -
  consider "v = 0" | "v \<noteq> 0" "v < 0xF7" | "v \<noteq> 0" "\<not> v < 0xF7" by blast
  then show ?thesis
  proof cases
    case 2
    then show ?thesis using 2 ucast_u8_small[OF 2(2)]
      by (simp add: varint_load_def varint_save_def nDataImmLenStart_def stream_Read_def)
  next
    case 3
    define n where "n = varint_BytesRequired v"
    have n: "1 \<le> n" "n \<le> 8" using BytesRequired_pos[OF 3(1)] BytesRequired_le_8[of v] by (simp_all add: n_def)
    show ?thesis using 3 varint_head[OF n] varint_GetInt_GetBytes[of v]
      by (simp add: varint_load_def varint_save_def n_def[symmetric] Let_def nDataImmLenStart_def)
  qed (simp add: varint_load_def varint_save_def stream_Read_def)
qed

lemma varint_size_save: "varint_size v = length (varint_save v)"
  by (auto simp: varint_size_def varint_save_def Let_def nDataImmLenStart_def)

section \<open>The contract of a serialisable type\<close>

locale codec =
  fixes save :: "'a \<Rightarrow> bytes" and load :: "'a loader" and size_of :: "'a \<Rightarrow> nat" and ok :: "'a \<Rightarrow> bool"
  assumes load_save: "ok x \<Longrightarrow> load (save x @ r) = Inr (x, r)"
    and size_save: "ok x \<Longrightarrow> size_of x = length (save x)"
    and load_suffix: "load s = Inr (x, r) \<Longrightarrow> \<exists>p. s = p @ r"
begin

lemma save_prefix_free:
  assumes "ok x" "ok y" "save x @ r = save y @ r'"
  shows "x = y \<and> r = r'"
proof -
  have "Inr (x, r) = load (save x @ r)" by (rule load_save[OF assms(1), symmetric])
  also have "\<dots> = load (save y @ r')" by (simp only: assms(3))
  also have "\<dots> = Inr (y, r')" by (rule load_save[OF assms(2)])
  finally show ?thesis by simp
qed

lemma save_inj: "inj_on save (Collect ok)"
proof (rule inj_onI)
  fix x y assume "x \<in> Collect ok" "y \<in> Collect ok" "save x = save y"
  then show "x = y" using save_prefix_free[of x y "[]" "[]"] by simp
qed

lemma load_n_save: "list_all ok xs \<Longrightarrow> load_n load (length xs) (concat (map save xs) @ r) = Inr (xs, r)"
  by (induction xs) (simp_all add: load_save)

lemma load_n_suffix: "load_n load n s = Inr (xs, r) \<Longrightarrow> length xs = n \<and> (\<exists>p. s = p @ r)"
proof (induction n arbitrary: s xs)
  case (Suc n)
  then obtain x r1 ys where "load s = Inr (x, r1)" "load_n load n r1 = Inr (ys, r)" "xs = x # ys"
    by (auto simp: res_bind_Inr)
  then show ?case using Suc.IH[of r1 ys] load_suffix[of s x r1] by fastforce
qed simp

lemma sum_sizes: "list_all ok xs \<Longrightarrow> sum_list (map size_of xs) = length (concat (map save xs))"
  by (induction xs) (simp_all add: size_save)

end

definition vector_ok :: "('a \<Rightarrow> bool) \<Rightarrow> 'a list \<Rightarrow> bool" where
  "vector_ok ok t \<longleftrightarrow> length t < 2 ^ 64 \<and> list_all ok t"

definition sorted_ok :: "('a::linorder \<Rightarrow> bool) \<Rightarrow> 'a list \<Rightarrow> bool" where
  "sorted_ok ok t \<longleftrightarrow> vector_ok ok t \<and> sorted_wrt (<) t"

definition map_ok :: "('k::linorder \<times> 'v \<Rightarrow> bool) \<Rightarrow> ('k \<times> 'v) list \<Rightarrow> bool" where
  "map_ok ok t \<longleftrightarrow> vector_ok ok t \<and> msorted t"

definition multimap_ok :: "('k::linorder \<times> 'v \<Rightarrow> bool) \<Rightarrow> ('k \<times> 'v) list \<Rightarrow> bool" where
  "multimap_ok ok t \<longleftrightarrow> vector_ok ok t \<and> sorted (map fst t)"

lemma unat_size: "n < 2 ^ 64 \<Longrightarrow> unat (of_nat n :: u64) = n"
  by (simp add: unat_of_nat take_bit_nat_eq_self)

lemma size_load [simp]: "varint_load (size_save n @ r) = Inr (of_nat n, r)"
  by (simp add: size_save_def varint_load_save)

lemma stream_Read_suffix: "stream_Read n s = Inr (x, r) \<Longrightarrow> s = x @ r \<and> length x = n"
  by (auto simp: stream_Read_def split: if_splits)

lemma varint_load_suffix: "varint_load s = Inr (v, r) \<Longrightarrow> \<exists>p. s = p @ r \<and> p \<noteq> []"
proof -
  assume l: "varint_load s = Inr (v, r)"
  then obtain h r1 where h: "stream_Read 1 s = Inr (h, r1)"
    by (auto simp: varint_load_def res_bind_Inr)
  have "r = r1 \<or> (\<exists>n bt. stream_Read n r1 = Inr (bt, r))"
    using l unfolding varint_load_def h by (auto simp: res_bind_Inr Let_def split: if_splits)
  then have "\<exists>p. r1 = p @ r" by (auto dest: stream_Read_suffix)
  then obtain p where "s = h @ p @ r" using stream_Read_suffix[OF h] by blast
  then show ?thesis using stream_Read_suffix[OF h] by (intro exI[of _ "h @ p"]) auto
qed

interpretation varint: codec varint_save varint_load varint_size "\<lambda>_. True"
proof
  show "\<exists>p. s = p @ r" if "varint_load s = Inr (x, r)" for s x r
    using varint_load_suffix[OF that] by blast
qed (simp_all add: varint_load_save varint_size_save)

interpretation uint: codec base_save "uint_load W" "uint_size W" "\<lambda>a. length a = W" for W
proof
  show "uint_load W (base_save x @ r) = Inr (x, r)" if "length x = W" for x r
    using that by (simp add: uint_load_def base_load_save)
  show "\<exists>p. s = p @ r" if "uint_load W s = Inr (x, r)" for s x r
    using that by (auto simp: uint_load_def res_bind_Inr dest!: stream_Read_suffix)
qed (simp add: uint_size_def)

interpretation str: codec string_save string_load string_size "\<lambda>t. length t < 2 ^ 62"
proof
  show "string_load (string_save t @ r) = Inr (t, r)" if "length t < 2 ^ 62" for t r
    using that unat_size[of "length t"] by (simp add: string_load_def string_save_def)
  show "\<exists>p. s = p @ r" if "string_load s = Inr (x, r)" for s x r
    using that by (auto simp: string_load_def res_bind_Inr split: if_splits dest!: stream_Read_suffix varint_load_suffix)
qed (simp add: string_size_def string_save_def size_save_def varint_size_save)

context codec
begin

lemma vector_codec: "codec (vector_save save) (vector_load load) (vector_size size_of) (vector_ok ok)"
proof
  fix t r assume t: "vector_ok ok t"
  then show "vector_load load (vector_save save t @ r) = Inr (t, r)"
    by (auto simp: vector_load_def vector_save_def vector_ok_def unat_size load_n_save word_of_nat_eq_0_iff
        word_neq_0_conv[symmetric] take_bit_nat_eq_self)
  show "vector_size size_of t = length (vector_save save t)"
    using t by (simp add: vector_size_def vector_save_def vector_ok_def sum_sizes size_save_def varint_size_save)
next
  show "\<exists>p. s = p @ r" if "vector_load load s = Inr (x, r)" for s x r
    using that by (auto simp: vector_load_def res_bind_Inr split: if_splits dest!: load_n_suffix varint_load_suffix)
qed

lemma array_codec: "codec (array_save save) (array_load load N) (array_size size_of) (\<lambda>t. length t = N \<and> list_all ok t)"
proof
  show "\<exists>p. s = p @ r" if "array_load load N s = Inr (x, r)" for s x r
    using that load_n_suffix by (auto simp: array_load_def)
qed (auto simp: array_load_def array_save_def array_size_def load_n_save sum_sizes)

end

lemma fold_sins_sorted:
  "\<lbrakk>sorted_wrt (<) (t @ xs)\<rbrakk> \<Longrightarrow> fold sins xs t = t @ xs" for xs :: "'a::linorder list"
proof (induction xs arbitrary: t)
  case (Cons x xs)
  have "sins x t = t @ [x]"
    using Cons.prems by (auto simp: insort_insert_key_def sorted_wrt_append intro!: sorted_insort_is_snoc
        dest: strict_sorted_imp_sorted less_imp_le)
  then show ?case using Cons by simp
qed simp

lemma fold_mins_sorted:
  "msorted (t @ xs) \<Longrightarrow> fold (\<lambda>(k, v). mins k v) xs t = t @ xs"
proof (induction xs arbitrary: t)
  case (Cons x xs)
  obtain k v where x: "x = (k, v)" by (cases x)
  have lt: "\<forall>p \<in> set t. fst p < k" using Cons.prems x by (auto simp: smap_sorted_def sorted_wrt_append)
  then have none: "map_of t k = None" by (auto simp: map_of_eq_None_iff)
  have "\<forall>p \<in> set t. fst p < k \<Longrightarrow> mput k v t = t @ [(k, v)]" for t :: "('a \<times> 'b) list"
    by (induction t) auto
  then have "mins k v t = t @ [x]" using lt none x by (simp add: smap_insert_def)
  then show ?case using Cons x by simp
qed simp

lemma fold_mm_sorted:
  "sorted (map fst (t @ xs)) \<Longrightarrow> fold (\<lambda>(k, v). mm_insert k v) xs t = t @ xs"
proof (induction xs arbitrary: t)
  case (Cons x xs)
  obtain k v where x: "x = (k, v)" by (cases x)
  have "mm_insert k v t = t @ [x]"
    using Cons.prems x by (subst mm_insert_append) (auto simp: sorted_append)
  then show ?case using Cons x by simp
qed simp

text \<open>The three ordered containers are loaded the same way, by insertion into the container that is
  passed in; \<open>from_empty\<close> is that loader started with an empty container.\<close>

lemma ordered_codec:
  assumes "codec save load size_of ok"
    and "\<And>s. ld s = res_bind (varint_load s) (\<lambda>(v, r). res_bind (load_n load (unat v) r) (\<lambda>(xs, r'). Inr (f xs, r')))"
    and "\<And>t. ok' t \<Longrightarrow> vector_ok ok t \<and> f t = t"
    and "\<And>t. sv t = size_save (length t) @ concat (map save t)"
    and "\<And>t. sz t = varint_size (of_nat (length t)) + sum_list (map size_of t)"
  shows "codec sv ld sz ok'"
proof -
  note e = codec.load_n_save[OF assms(1)] codec.sum_sizes[OF assms(1)]
  show ?thesis
  proof
    fix t r assume t: "ok' t"
    then show "ld (sv t @ r) = Inr (t, r)"
      using assms(3)[OF t] by (simp add: assms(2,4) vector_ok_def unat_size e)
    show "sz t = length (sv t)"
      using assms(3)[OF t] by (simp add: assms(4,5) vector_ok_def e size_save_def varint_size_save)
  next
    show "\<exists>p. s = p @ r" if "ld s = Inr (x, r)" for s x r
      using that codec.load_n_suffix[OF assms(1)] unfolding assms(2)
      by (auto simp: res_bind_Inr dest!: varint_load_suffix) fastforce
  qed
qed

lemma set_codec: "codec sv ld sz ok \<Longrightarrow> codec (set_save sv) (set_load ld []) (set_size sz) (sorted_ok ok)"
  by (erule ordered_codec[where f = "\<lambda>xs. fold sins xs []"])
     (auto simp: set_load_def set_save_def set_size_def sorted_ok_def fold_sins_sorted[of "[]", simplified])

lemma map_codec: "codec sv ld sz ok \<Longrightarrow> codec (map_save sv) (map_load ld []) (map_size sz) (map_ok ok)"
  by (erule ordered_codec[where f = "\<lambda>xs. fold (\<lambda>(k, v). mins k v) xs []"])
     (auto simp: map_load_def map_save_def map_size_def map_ok_def fold_mins_sorted[of "[]", simplified])

lemma multimap_codec:
  "codec sv ld sz ok \<Longrightarrow> codec (multimap_save sv) (multimap_load ld []) (multimap_size sz) (multimap_ok ok)"
  by (erule ordered_codec[where f = "\<lambda>xs. fold (\<lambda>(k, v). mm_insert k v) xs []"])
     (auto simp: multimap_load_def multimap_save_def multimap_size_def multimap_ok_def fold_mm_sorted[of "[]", simplified])

lemma pair_codec:
  assumes "codec sa la za oka" "codec sb lb zb okb"
  shows "codec (pair_save sa sb) (pair_load la lb) (pair_size za zb) (\<lambda>t. oka (fst t) \<and> okb (snd t))"
proof -
  note a = codec.load_save[OF assms(1)] codec.size_save[OF assms(1)]
  note b = codec.load_save[OF assms(2)] codec.size_save[OF assms(2)]
  show ?thesis
  proof
    show "\<exists>p. s = p @ r" if l: "pair_load la lb s = Inr (x, r)" for s x r
    proof -
      obtain y r1 z where "la s = Inr (y, r1)" "lb r1 = Inr (z, r)"
        using l by (auto simp: pair_load_def res_bind_Inr)
      then show ?thesis
        using codec.load_suffix[OF assms(1)] codec.load_suffix[OF assms(2)] by (metis append.assoc)
    qed
  qed (auto simp: pair_load_def pair_save_def pair_size_def a b)
qed

lemma length_fund_save [simp]: "length (fund_save sz w) = sz"
  by (simp add: fund_save_def)

lemma bit_fund_of_bytes:
  "bit (fund_of_bytes bs :: 'a::len word) n \<longleftrightarrow>
    n < LENGTH('a) \<and> n < 8 * length bs \<and> bit (bs ! (n div 8)) (n mod 8)"
proof (induction bs arbitrary: n)
  case (Cons b bs)
  have step: "fund_of_bytes (b # bs) = push_bit 8 (fund_of_bytes bs) OR (ucast b :: 'a word)"
    by (simp add: fund_of_bytes_def)
  show ?case
  proof (cases "n < 8")
    case False
    then have "n div 8 = Suc ((n - 8) div 8)" "n mod 8 = (n - 8) mod 8"
      by (simp_all add: le_div_geq le_mod_geq)
    then show ?thesis using False by (auto simp: step bit_simps Cons u8_bit_high)
  qed (auto simp: step bit_simps)
qed (simp add: fund_of_bytes_def)

lemma fund_of_bytes_save: "LENGTH('a) = 8 * sz \<Longrightarrow> fund_of_bytes (fund_save sz (w :: 'a::len word)) = w"
proof (rule bit_word_eqI)
  fix n assume sz: "LENGTH('a) = 8 * sz" and n: "n < LENGTH('a)"
  then have "n div 8 < sz" by simp
  then have "bit (fund_save sz w ! (n div 8)) (n mod 8) \<longleftrightarrow> bit w (8 * (n div 8) + n mod 8)"
    by (simp add: fund_save_def bit_simps)
  then show "bit (fund_of_bytes (fund_save sz w) :: 'a word) n = bit w n"
    using n sz by (simp add: bit_fund_of_bytes)
qed

lemma split_bytes_concat:
  "\<forall>x \<in> set xs. length x = sz \<Longrightarrow> split_bytes sz (length xs) (concat xs) = xs"
  by (induction xs) simp_all

lemma length_split_bytes [simp]: "length (split_bytes sz n bs) = n"
  by (induction sz n bs rule: split_bytes.induct) simp_all

lemma fvector_length_exact:
  assumes "unat (v :: u64) \<le> (2 ^ 63 - 1) div sz"
  shows "unat (of_nat sz * v :: u64) = sz * unat v"
proof (cases "sz = 0")
  case False
  then have le: "sz * unat v \<le> 2 ^ 63 - 1"
    using assms by (metis div_times_less_eq_dividend dual_order.trans mult.commute mult_le_mono2)
  show ?thesis
  proof (cases "unat v = 0")
    case True
    then show ?thesis by (simp add: unat_eq_zero)
  next
    case v: False
    then have "sz \<le> sz * unat v" by simp
    then have "sz \<le> 2 ^ 63 - 1" using le by (rule order_trans)
    then have "sz < 2 ^ 64" by simp
    then have "unat (of_nat sz * v :: u64) = (sz * unat v) mod 2 ^ 64"
      by (simp add: unat_word_ariths unat_of_nat take_bit_nat_eq_self)
    then show ?thesis using le by simp
  qed
qed simp

lemma fvector_codec:
  assumes "LENGTH('a) = 8 * sz"
  shows "codec (fvector_save sz :: 'a::len word list \<Rightarrow> bytes) (fvector_load sz) (fvector_size sz)
    (\<lambda>t. length t \<le> (2 ^ 63 - 1) div sz)"
proof
  fix t :: "'a word list" and r
  assume t: "length t \<le> (2 ^ 63 - 1) div sz"
  have "(2 ^ 63 - 1) div sz \<le> 2 ^ 63 - 1" by (rule div_le_dividend)
  with t have "length t \<le> 2 ^ 63 - 1" by (rule order_trans)
  then have l: "length t < 2 ^ 64" by simp
  have len: "length (concat (map (fund_save sz) t)) = sz * length t" by (induction t) simp_all
  have sp: "split_bytes sz (length t) (concat (map (fund_save sz) t)) = map (fund_save sz) t"
    using split_bytes_concat[of "map (fund_save sz) t" sz] by auto
  have "map (fund_of_bytes \<circ> fund_save sz) t = t"
    using fund_of_bytes_save[OF assms] by (induction t) simp_all
  moreover have "unat (of_nat sz * of_nat (length t) :: u64) = sz * length t"
    using fvector_length_exact[of "of_nat (length t)" sz] t unat_size[OF l] by simp
  ultimately show "fvector_load sz (fvector_save sz t @ r) = Inr (t, r)"
    using t unat_size[OF l] sp len
    by (cases "t = []") (simp_all add: fvector_load_def fvector_save_def Let_def word_neq_0_conv[symmetric] unat_eq_zero[symmetric])
  show "fvector_size sz t = length (fvector_save sz t)"
    by (simp add: fvector_size_def fvector_save_def size_save_def varint_size_save len)
next
  show "\<exists>p. s = p @ r" if l: "fvector_load sz s = Inr (x :: 'a word list, r)" for s x r
  proof -
    obtain v r1 where v: "varint_load s = Inr (v, r1)" using l by (auto simp: fvector_load_def res_bind_Inr)
    have "r = r1 \<or> (\<exists>n bt. stream_Read n r1 = Inr (bt, r))"
      using l unfolding fvector_load_def v by (auto simp: res_bind_Inr Let_def split: if_splits)
    then have "\<exists>p. r1 = p @ r" by (auto dest: stream_Read_suffix)
    then show ?thesis using varint_load_suffix[OF v] by auto
  qed
qed

interpretation u256s: codec "vector_save base_save" "vector_load (uint_load 8)" "vector_size (uint_size 8)"
  "vector_ok (\<lambda>a. length a = 8)"
  by (rule uint.vector_codec)

interpretation bytesv: codec "fvector_save 1 :: u8 list \<Rightarrow> bytes" "fvector_load 1" "fvector_size 1"
  "\<lambda>t. length t \<le> (2 ^ 63 - 1) div 1"
  by (rule fvector_codec) simp

section \<open>Block numbers inside a hash\<close>

text \<open>The constructor \<^verbatim>\<open>uint256(b1, b2, b3, n)\<close> overwrites the first bytes of \<open>n\<close> with three
  variable-length integers, and \<^verbatim>\<open>GetB1\<close>, \<^verbatim>\<open>GetB2\<close>, \<^verbatim>\<open>GetB3\<close> read them back.\<close>

definition uint256_bh :: "u32 \<Rightarrow> u32 \<Rightarrow> u16 \<Rightarrow> pn \<Rightarrow> pn" where
  "uint256_bh b1 b2 b3 n =
     (let ss = varint_save (ucast b1) @ varint_save (ucast b2) @ varint_save (ucast b3)
      in bytes_pn 8 (ss @ drop (length ss) (pn_bytes n)))"

definition bh_load :: "pn \<Rightarrow> stream_error + (u64 \<times> u64 \<times> u64)" where
  "bh_load a = res_bind (varint_load (pn_bytes a)) (\<lambda>(v1, r1).
     res_bind (varint_load r1) (\<lambda>(v2, r2). res_bind (varint_load r2) (\<lambda>(v3, r3). Inr (v1, v2, v3))))"

definition uint256_GetB1 :: "pn \<Rightarrow> u32" where
  "uint256_GetB1 a = (case bh_load a of Inl _ \<Rightarrow> 0 | Inr (v1, v2, v3) \<Rightarrow> ucast v1)"

definition uint256_GetB2 :: "pn \<Rightarrow> u32" where
  "uint256_GetB2 a = (case bh_load a of Inl _ \<Rightarrow> 0 | Inr (v1, v2, v3) \<Rightarrow> ucast v2)"

definition uint256_GetB3 :: "pn \<Rightarrow> u16" where
  "uint256_GetB3 a = (case bh_load a of Inl _ \<Rightarrow> 0 | Inr (v1, v2, v3) \<Rightarrow> ucast v3)"

lemma varint_size_le: "unat v < 256 ^ m \<Longrightarrow> length (varint_save v) \<le> 1 + m"
  using BytesRequired_le[of v m] by (simp add: varint_size_save[symmetric] varint_size_def)

lemma unat_u32_u64: "unat (ucast (x :: u32) :: u64) = unat x"
  using less_trans[OF unat_lt_2p32[of x], of "2 ^ 64"] by (simp add: unsigned_ucast_eq take_bit_nat_eq_self)

lemma unat_u16_u64: "unat (ucast (x :: u16) :: u64) = unat x" "unat x < 65536"
proof -
  show x: "unat x < 65536" using unsigned_less[of x, where ?'a = nat] by simp
  then have "unat x < 2 ^ 64" by (rule less_trans) simp
  then show "unat (ucast (x :: u16) :: u64) = unat x" by (simp add: unsigned_ucast_eq take_bit_nat_eq_self)
qed

lemma bh_prefix_short:
  "length (varint_save (ucast (b1 :: u32)) @ varint_save (ucast (b2 :: u32)) @ varint_save (ucast (b3 :: u16))) \<le> 32"
  using varint_size_le[of "ucast b1" 4] varint_size_le[of "ucast b2" 4] varint_size_le[of "ucast b3" 2]
  by (simp add: unat_u32_u64 unat_u16_u64)

lemma bh_load_bh:
  assumes "length n = 8"
  shows "bh_load (uint256_bh b1 b2 b3 n) = Inr (ucast b1, ucast b2, ucast b3)"
proof -
  define ss where "ss = varint_save (ucast b1) @ varint_save (ucast b2) @ varint_save (ucast b3)"
  have "length ss \<le> 32" unfolding ss_def by (rule bh_prefix_short)
  then have "pn_bytes (bytes_pn 8 (ss @ drop (length ss) (pn_bytes n))) = ss @ drop (length ss) (pn_bytes n)"
    using assms by (intro pn_bytes_bytes_pn) simp
  then show ?thesis
    by (simp add: bh_load_def uint256_bh_def ss_def[symmetric]) (simp add: ss_def varint_load_save)
qed

lemma ucast_ucast_id:
  "(ucast (ucast (b :: u32) :: u64) :: u32) = b" "(ucast (ucast (c :: u16) :: u64) :: u16) = c"
  by (rule bit_word_eqI; simp add: bit_simps)+

lemma varint_fn_range: "\<not> n < nDataImmLenStart \<Longrightarrow> n \<noteq> nDataImmLenStart \<Longrightarrow> n - nDataImmLenStart \<noteq> 0 \<and> \<not> n - nDataImmLenStart > 8"
proof -
  assume a: "\<not> n < nDataImmLenStart" "n \<noteq> nDataImmLenStart"
  have "unat n \<ge> 247" using a by (simp add: nDataImmLenStart_def word_less_nat_alt)
  moreover have "unat n < 256" using unsigned_less[of n, where ?'a = nat] by simp
  ultimately have "unat (n - nDataImmLenStart) \<le> 8"
    by (subst unat_sub) (auto simp: nDataImmLenStart_def word_le_nat_alt)
  then show ?thesis using a by (simp add: word_less_nat_alt)
qed

lemma varint_load_error: "varint_load s = Inl e \<Longrightarrow> \<exists>n k. e = ReadError n k \<and> k < n \<and> n \<le> 8"
proof -
  assume l: "varint_load s = Inl e"
  show ?thesis
  proof (cases s)
    case Nil
    then have "e = ReadError 1 0" using l by (simp add: varint_load_def stream_Read_def)
    then show ?thesis by simp
  next
    case (Cons b r)
    have fn: "unat (b - nDataImmLenStart) \<le> 8" if "\<not> b < nDataImmLenStart" "b \<noteq> nDataImmLenStart"
      using varint_fn_range[OF that] by (simp add: word_less_nat_alt)
    show ?thesis
      using l fn varint_fn_range[of b] unfolding Cons
      by (auto simp: varint_load_def Let_def stream_Read_def split: if_splits)
  qed
qed

section \<open>Properties\<close>

text \<open>
  (C26) Every 64-bit value survives \<^verbatim>\<open>CVarInt\<close>: what \<^verbatim>\<open>Serialize\<close> saved is loaded back whatever
  follows it in the stream, in at most nine bytes, and the counting \<^verbatim>\<open>Serialize\<close> predicts their number.
\<close>

theorem varint_roundtrip:
  "varint_load (varint_save v @ r) = Inr (v, r) \<and> varint_size v = length (varint_save v) \<and> length (varint_save v) \<le> 9"
  using BytesRequired_le_8[of v]
  by (simp add: varint_load_save varint_size_save[symmetric]) (simp add: varint_size_def)

text \<open>Loading a \<^verbatim>\<open>CVarInt\<close> fails only on a stream that is too short: the guard that throws
  \<^verbatim>\<open>"fn error"\<close> can never fire, because a first byte above \<^verbatim>\<open>0xF7\<close> announces between one and eight bytes.
\<close>

theorem varint_load_total:
  "case varint_load s of Inr (v, r) \<Rightarrow> length r < length s | Inl e \<Rightarrow> \<exists>n k. e = ReadError n k \<and> k < n \<and> n \<le> 8"
proof (cases "varint_load s")
  case (Inl e)
  then show ?thesis using varint_load_error by auto
next
  case (Inr p)
  obtain v r where p: "p = (v, r)" by (cases p)
  then have "varint_load s = Inr (v, r)" using Inr by simp
  then obtain q where "s = q @ r" "q \<noteq> []" using varint_load_suffix by blast
  then show ?thesis using Inr p by simp
qed

text \<open>
  (C27) For every element type whose three \<^verbatim>\<open>Serialize\<close> functions agree, the ordered containers agree
  too: a map or multimap of fewer than \<open>2 ^ 64\<close> entries is loaded back entry for entry into an empty
  container, and \<^verbatim>\<open>GetSerializeSize\<close> is the number of bytes written.
\<close>

theorem ordered_containers_roundtrip:
  fixes sv :: "'k::linorder \<times> 'v \<Rightarrow> bytes"
  assumes "codec sv ld sz ok"
  shows "(map_ok ok m \<longrightarrow> map_load ld [] (map_save sv m @ r) = Inr (m, r) \<and> map_size sz m = length (map_save sv m)) \<and>
    (multimap_ok ok m \<longrightarrow> multimap_load ld [] (multimap_save sv m @ r) = Inr (m, r) \<and>
       multimap_size sz m = length (multimap_save sv m))"
  using codec.load_save[OF map_codec[OF assms], of m r] codec.size_save[OF map_codec[OF assms], of m]
    codec.load_save[OF multimap_codec[OF assms], of m r] codec.size_save[OF multimap_codec[OF assms], of m]
  by blast

theorem ordered_containers_roundtrip_witness:
  "map_load (pair_load varint_load varint_load) [] (map_save (pair_save varint_save varint_save) [(1, 5), (300, 6)] @ []) =
     Inr ([(1, 5), (300, 6)], [])"
  using ordered_containers_roundtrip[OF pair_codec[OF varint.codec_axioms varint.codec_axioms], of "[(1, 5), (300, 6)]" "[]"]
  by (simp add: map_ok_def vector_ok_def smap_sorted_def)

text \<open>
  (C28) The length check of the vector loader is sound although the byte count is computed modulo
  \<open>2 ^ 64\<close>: a vector of a fundamental type that is loaded never holds more bytes than the stream had, and a
  count whose product wraps around is refused.
\<close>

theorem fvector_load_safe:
  assumes "fvector_load sz s = Inr (xs, r)"
  shows "sz * length xs + length r < length s"
proof -
  obtain v r1 where v: "varint_load s = Inr (v, r1)" using assms by (auto simp: fvector_load_def res_bind_Inr)
  obtain p where p: "s = p @ r1" "p \<noteq> []" using varint_load_suffix[OF v] by blast
  show ?thesis
  proof (cases "v > 0")
    case True
    define len where "len = unat (of_nat sz * v :: u64)"
    have c: "unat v \<le> (2 ^ 63 - 1) div sz" and rd: "stream_Read len r1 = Inr (take len r1, r)" "length r1 \<ge> len"
      and n: "length xs = unat v"
      using assms True unfolding fvector_load_def v
      by (auto simp: res_bind_Inr Let_def len_def stream_Read_def split: if_splits)
    have "len = sz * unat v" using fvector_length_exact[OF c] by (simp add: len_def)
    moreover have "length r1 = len + length r" using stream_Read_suffix[OF rd(1)] by (metis length_append)
    ultimately show ?thesis using p n by simp
  next
    case False
    then show ?thesis using assms p unfolding fvector_load_def v by simp
  qed
qed

theorem fvector_load_safe_witness:
  "fvector_load 1 [1, 7, 9] = Inr ([7 :: u8], [9]) \<and> 1 * length [7 :: u8] + length [9 :: u8] < length [1, 7, 9 :: u8]"
proof -
  have e: "fvector_load 1 [1, 7, 9] = Inr ([7 :: u8], [9])"
    by (simp add: fvector_load_def varint_load_def stream_Read_def nDataImmLenStart_def fund_of_bytes_def)
  show ?thesis using e fvector_load_safe[OF e] by simp
qed

text \<open>The numbers written into the front of a block hash by \<^verbatim>\<open>uint256(b1, b2, b3, n)\<close> are the ones
  \<^verbatim>\<open>GetB1\<close>, \<^verbatim>\<open>GetB2\<close> and \<^verbatim>\<open>GetB3\<close> return.
\<close>

theorem uint256_bh_roundtrip:
  assumes "length n = 8"
  shows "uint256_GetB1 (uint256_bh b1 b2 b3 n) = b1 \<and> uint256_GetB2 (uint256_bh b1 b2 b3 n) = b2 \<and>
    uint256_GetB3 (uint256_bh b1 b2 b3 n) = b3"
  by (simp add: uint256_GetB1_def uint256_GetB2_def uint256_GetB3_def bh_load_bh[OF assms] ucast_ucast_id)

theorem uint256_bh_roundtrip_witness:
  "uint256_GetB1 (uint256_bh 201 70000 3 uint256_new) = 201 \<and> uint256_GetB2 (uint256_bh 201 70000 3 uint256_new) = 70000"
  using uint256_bh_roundtrip[of uint256_new 201 70000 3] by (simp add: uint256_new_def)

end
