(* ===== verification/Bitmap.thy ===== *)
theory Bitmap
  imports Stream_Codec
begin

unbundle bit_operations_syntax

text \<open>
  \<^verbatim>\<open>CBitmap\<close> of \<^verbatim>\<open>src/src/hnbase/bitmap\<close>: a declared number of bits and the bytes that hold them.
  An access to a byte of the vector outside its size, which C++ leaves undefined, is the value
  \<open>OutOfBounds\<close>. The bitmaps built by \<^verbatim>\<open>Initialize\<close> and the bit operations are sets of positions below
  the declared number; a bitmap read from a stream need not be well formed.
\<close>

section \<open>Operations\<close>

record bitmap =
  varBits :: u64
  btBitmap :: bytes

definition bm_Initialize :: "u32 \<Rightarrow> bool \<times> bitmap" where
  "bm_Initialize nBitsIn =
     (if nBitsIn = 0 then (False, \<lparr>varBits = 0, btBitmap = []\<rparr>)
      else let c = nBitsIn div 8; nByteCount = (if nBitsIn mod 8 > 0 then c + 1 else c)
           in (True, \<lparr>varBits = ucast nBitsIn, btBitmap = replicate (unat nByteCount) 0\<rparr>))"

definition bm_new_bytes :: "u32 \<Rightarrow> bytes \<Rightarrow> bitmap" where
  "bm_new_bytes nBitsIn btIn =
     (let b = snd (bm_Initialize nBitsIn); n = min (length (btBitmap b)) (length btIn)
      in b\<lparr>btBitmap := fold (\<lambda>i bt. bt[i := btIn ! i]) [0..<n] (btBitmap b)\<rparr>)"

definition bm_save :: "bitmap \<Rightarrow> bytes" where
  "bm_save b = varint_save (varBits b) @ fvector_save 1 (btBitmap b)"

text \<open>\<^verbatim>\<open>ss >> *this\<close> writes the two members one after the other, so a failure of the second leaves the
  first one changed and the vector cleared.\<close>

definition bm_ImportBytes :: "bitmap \<Rightarrow> bytes \<Rightarrow> bool \<times> bitmap" where
  "bm_ImportBytes b s = (case varint_load s of
     Inl _ \<Rightarrow> (False, b)
   | Inr (v, r) \<Rightarrow> (case fvector_load 1 r of
       Inl _ \<Rightarrow> (False, \<lparr>varBits = v, btBitmap = []\<rparr>)
     | Inr (bt, _) \<Rightarrow> (True, \<lparr>varBits = v, btBitmap = bt\<rparr>)))"

definition bm_HasValidBit :: "bitmap \<Rightarrow> bool" where
  "bm_HasValidBit b = (\<exists>x \<in> set (btBitmap b). x \<noteq> 0)"

definition bm_IsNull :: "bitmap \<Rightarrow> bool" where
  "bm_IsNull b = (varBits b = 0 \<or> \<not> bm_HasValidBit b)"

definition bm_Clear :: "bitmap" where
  "bm_Clear = \<lparr>varBits = 0, btBitmap = []\<rparr>"

definition bm_GetBit :: "bitmap \<Rightarrow> u32 \<Rightarrow> bool pn_access" where
  "bm_GetBit b n =
     (if ucast n < varBits b then
        (if unat n div 8 \<ge> length (btBitmap b) then OutOfBounds
         else Access (btBitmap b ! (unat n div 8) AND push_bit (unat n mod 8) 1 \<noteq> 0))
      else Access False)"

definition bm_SetBit :: "bitmap \<Rightarrow> u32 \<Rightarrow> bitmap pn_access" where
  "bm_SetBit b n =
     (if ucast n < varBits b then
        (if unat n div 8 \<ge> length (btBitmap b) then OutOfBounds
         else Access (b\<lparr>btBitmap := (btBitmap b)[unat n div 8 :=
                btBitmap b ! (unat n div 8) OR push_bit (unat n mod 8) 1]\<rparr>))
      else Access b)"

definition bm_UnsetBit :: "bitmap \<Rightarrow> u32 \<Rightarrow> bitmap pn_access" where
  "bm_UnsetBit b n =
     (if ucast n < varBits b then
        (if unat n div 8 \<ge> length (btBitmap b) then OutOfBounds
         else Access (b\<lparr>btBitmap := (btBitmap b)[unat n div 8 :=
                btBitmap b ! (unat n div 8) AND NOT (push_bit (unat n mod 8) 1)]\<rparr>))
      else Access b)"

definition bm_GetMaxBits :: "bitmap \<Rightarrow> u32" where
  "bm_GetMaxBits b = ucast (varBits b)"

text \<open>The inner loop of \<^verbatim>\<open>GetIndexList\<close>: \<open>j\<close> counts up to eight while the byte is shifted right.\<close>

fun byte_index_loop :: "nat \<Rightarrow> nat \<Rightarrow> nat \<Rightarrow> u8 \<Rightarrow> u32 list" where
  "byte_index_loop i 0 j b = []"
| "byte_index_loop i (Suc k) j b =
     (if b AND 1 \<noteq> 0 then [of_nat (i * 8 + j)] else []) @ byte_index_loop i k (Suc j) (drop_bit 1 b)"

definition bm_GetIndexList :: "bitmap \<Rightarrow> u32 list" where
  "bm_GetIndexList b =
     concat (map (\<lambda>i. let x = btBitmap b ! i in if x \<noteq> 0 then byte_index_loop i 8 0 x else [])
       [0..<length (btBitmap b)])"

definition bm_GetValidBits :: "bitmap \<Rightarrow> u32" where
  "bm_GetValidBits b = of_nat (length (bm_GetIndexList b))"

definition bm_zip :: "(u8 \<Rightarrow> u8 \<Rightarrow> u8) \<Rightarrow> bitmap \<Rightarrow> bitmap \<Rightarrow> bitmap" where
  "bm_zip f a b = (let n = min (length (btBitmap a)) (length (btBitmap b))
     in a\<lparr>btBitmap := fold (\<lambda>i ap. ap[i := f (ap ! i) (btBitmap b ! i)]) [0..<n] (btBitmap a)\<rparr>)"

definition bm_and :: "bitmap \<Rightarrow> bitmap \<Rightarrow> bitmap" where
  "bm_and = bm_zip (\<lambda>x y. x AND y)"

definition bm_or :: "bitmap \<Rightarrow> bitmap \<Rightarrow> bitmap" where
  "bm_or = bm_zip (\<lambda>x y. x OR y)"

definition bm_xor :: "bitmap \<Rightarrow> bitmap \<Rightarrow> bitmap" where
  "bm_xor = bm_zip (\<lambda>x y. x XOR y)"

definition bm_eq :: "bitmap \<Rightarrow> bitmap \<Rightarrow> bool" where
  "bm_eq a b = (if varBits a \<noteq> varBits b then False else if btBitmap a \<noteq> btBitmap b then False else True)"

section \<open>Bitmaps as sets of positions\<close>

text \<open>The declared bits fit the bytes, there is no spare byte, and the bits past the declared number are clear.\<close>

definition bm_wf :: "bitmap \<Rightarrow> bool" where
  "bm_wf b \<longleftrightarrow> unat (varBits b) < 2 ^ 32 \<and> length (btBitmap b) = (unat (varBits b) + 7) div 8 \<and>
     (\<forall>n. n < 8 * length (btBitmap b) \<longrightarrow> unat (varBits b) \<le> n \<longrightarrow> \<not> bit (btBitmap b ! (n div 8)) (n mod 8))"

definition bm_bits :: "bitmap \<Rightarrow> nat set" where
  "bm_bits b = {n. n < 8 * length (btBitmap b) \<and> bit (btBitmap b ! (n div 8)) (n mod 8)}"

lemma u8_and_bit: "k < 8 \<Longrightarrow> (x AND push_bit k 1 \<noteq> 0) \<longleftrightarrow> bit (x :: u8) k"
proof -
  assume k: "k < 8"
  have "x AND push_bit k 1 = (if bit x k then push_bit k 1 else 0)"
    by (rule bit_word_eqI) (auto simp: bit_simps)
  moreover have "bit (push_bit k 1 :: u8) k" using k by (simp add: bit_simps)
  then have "push_bit k 1 \<noteq> (0 :: u8)" by (metis bit_0_eq bot_apply bot_bool_def)
  ultimately show ?thesis by simp
qed

lemma varBits_less: "ucast (n :: u32) < varBits b \<longleftrightarrow> unat n < unat (varBits b)"
  by (simp add: word_less_nat_alt unat_u32_u64)

lemma bm_wf_index: "bm_wf b \<Longrightarrow> unat n < unat (varBits b) \<Longrightarrow> unat n div 8 < length (btBitmap b)"
  by (auto simp: bm_wf_def)

lemma bm_bits_bounded: "bm_wf b \<Longrightarrow> bm_bits b \<subseteq> {..<unat (varBits b)}"
  by (auto simp: bm_wf_def bm_bits_def)

lemma bm_GetBit_bits:
  assumes "bm_wf b"
  shows "bm_GetBit b n = Access (unat n \<in> bm_bits b)"
proof (cases "unat n < unat (varBits b)")
  case True
  then have "unat n div 8 < length (btBitmap b)" using assms by (simp add: bm_wf_index)
  moreover from this have "unat n < 8 * length (btBitmap b)" by simp
  ultimately show ?thesis using True u8_and_bit[of "unat n mod 8"]
    by (simp add: bm_GetBit_def varBits_less bm_bits_def)
next
  case False
  then show ?thesis using assms bm_bits_bounded[OF assms] by (auto simp: bm_GetBit_def varBits_less)
qed

text \<open>How an update of one byte moves the set.\<close>

lemma bm_bits_update:
  assumes i: "n div 8 < length (btBitmap b)"
    and x: "\<And>t. bit x t \<longleftrightarrow> t < 8 \<and> (if t = n mod 8 then v else bit (btBitmap b ! (n div 8)) t)"
  shows "bm_bits (b\<lparr>btBitmap := (btBitmap b)[n div 8 := x]\<rparr>) = (if v then insert n (bm_bits b) else bm_bits b - {n})"
proof -
  have mem: "m \<in> bm_bits (b\<lparr>btBitmap := (btBitmap b)[n div 8 := x]\<rparr>) \<longleftrightarrow> (if m = n then v else m \<in> bm_bits b)" for m
  proof (cases "m div 8 = n div 8")
    case True
    have "m = n" if "m mod 8 = n mod 8"
    proof -
      have "m = 8 * (m div 8) + m mod 8" by simp
      also have "\<dots> = n" unfolding True that by simp
      finally show ?thesis .
    qed
    then have "m = n \<longleftrightarrow> m mod 8 = n mod 8" by blast
    moreover have "m div 8 < length (btBitmap b)" using i True by simp
    then have "m < 8 * length (btBitmap b)" by simp
    ultimately show ?thesis using True i x[of "m mod 8"] by (simp add: bm_bits_def)
  next
    case False
    then show ?thesis by (auto simp: bm_bits_def)
  qed
  show ?thesis by (rule set_eqI, simp only: mem) auto
qed

lemma bm_wf_bits:
  "bm_wf b \<longleftrightarrow> unat (varBits b) < 2 ^ 32 \<and> length (btBitmap b) = (unat (varBits b) + 7) div 8 \<and>
     bm_bits b \<subseteq> {..<unat (varBits b)}"
  by (auto simp: bm_wf_def bm_bits_def subset_iff)

lemma bm_SetBit_bits:
  assumes "bm_wf b"
  obtains b' where "bm_SetBit b n = Access b'" "bm_wf b'" "varBits b' = varBits b"
    "bm_bits b' = (if unat n < unat (varBits b) then insert (unat n) (bm_bits b) else bm_bits b)"
proof (cases "unat n < unat (varBits b)")
  case True
  define b' where "b' = b\<lparr>btBitmap := (btBitmap b)[unat n div 8 := btBitmap b ! (unat n div 8) OR push_bit (unat n mod 8) 1]\<rparr>"
  have i: "unat n div 8 < length (btBitmap b)" using assms True by (rule bm_wf_index)
  have "bm_bits b' = (if True then insert (unat n) (bm_bits b) else bm_bits b - {unat n})"
    unfolding b'_def
    by (rule bm_bits_update[OF i]) (auto simp: bit_simps u8_bit_high not_le dest: bit_imp_le_length)
  moreover from this have "bm_wf b'" using assms True by (auto simp: bm_wf_bits b'_def)
  moreover have "bm_SetBit b n = Access b'" using True i by (simp add: bm_SetBit_def varBits_less b'_def)
  ultimately show ?thesis using True that by (simp add: b'_def)
next
  case False
  then show ?thesis using assms that[of b] by (simp add: bm_SetBit_def varBits_less)
qed

lemma bm_UnsetBit_bits:
  assumes "bm_wf b"
  obtains b' where "bm_UnsetBit b n = Access b'" "bm_wf b'" "varBits b' = varBits b"
    "bm_bits b' = bm_bits b - {unat n}"
proof (cases "unat n < unat (varBits b)")
  case True
  define b' where "b' = b\<lparr>btBitmap := (btBitmap b)[unat n div 8 := btBitmap b ! (unat n div 8) AND NOT (push_bit (unat n mod 8) 1)]\<rparr>"
  have i: "unat n div 8 < length (btBitmap b)" using assms True by (rule bm_wf_index)
  have "bm_bits b' = (if False then insert (unat n) (bm_bits b) else bm_bits b - {unat n})"
    unfolding b'_def
    by (rule bm_bits_update[OF i]) (auto simp: bit_simps u8_bit_high not_le dest: bit_imp_le_length)
  moreover from this have "bm_wf b'" using assms True by (auto simp: bm_wf_bits b'_def)
  moreover have "bm_UnsetBit b n = Access b'" using True i by (simp add: bm_UnsetBit_def varBits_less b'_def)
  ultimately show ?thesis using True that by (simp add: b'_def)
next
  case False
  then show ?thesis using assms that[of b] bm_bits_bounded[OF assms] by (auto simp: bm_UnsetBit_def varBits_less)
qed

lemma bm_bits_zeros [simp]: "bm_bits \<lparr>varBits = v, btBitmap = replicate k 0\<rparr> = {}"
  by (auto simp: bm_bits_def)

lemma ceil8: "(m + 7) div 8 = (if 0 < m mod 8 then m div 8 + 1 else m div 8)" for m :: nat
proof -
  have "m mod 8 < 8" by simp
  then have "(m mod 8 + 7) div 8 = (if 0 < m mod 8 then 1 else 0)"
    by (auto intro!: div_nat_eqI)
  then show ?thesis using div_add1_eq[of m 7 8] by simp
qed

lemma bm_Initialize_eq:
  "bm_Initialize n = (n \<noteq> 0, \<lparr>varBits = ucast n, btBitmap = replicate ((unat n + 7) div 8) 0\<rparr>)"
proof -
  have d: "unat (n div 8) = unat n div 8" "unat (n mod 8) = unat n mod 8" by (simp_all add: unat_div unat_mod)
  have "unat n div 8 < 536870912" by (rule less_mult_imp_div_less) simp
  then have "unat n div 8 \<noteq> 4294967295" by simp
  then have "unat (if n mod 8 > 0 then n div 8 + 1 else n div 8) = (unat n + 7) div 8"
    by (simp add: ceil8 word_less_nat_alt d u32_plus1)
  then show ?thesis by (simp add: bm_Initialize_def Let_def)
qed

lemma bm_Initialize_bits: "bm_bits (snd (bm_Initialize n)) = {}"
  by (simp only: bm_Initialize_eq snd_conv bm_bits_zeros)

lemma bm_Initialize_wf: "bm_wf (snd (bm_Initialize n))"
  using bm_Initialize_bits[of n] unat_lt_2p32[of n]
  by (simp only: bm_Initialize_eq snd_conv bm_wf_bits bitmap.simps length_replicate unat_u32_u64) simp

section \<open>The index list enumerates the set\<close>

lemma upt_Suc_map: "[0..<Suc k] = 0 # map Suc [0..<k]"
  by (simp add: map_Suc_upt upt_conv_Cons del: upt_Suc)

lemma byte_index_loop_filter:
  "byte_index_loop i k j b = map (\<lambda>t. of_nat (i * 8 + j + t)) (filter (bit b) [0..<k])"
proof (induction i k j b rule: byte_index_loop.induct)
  case (2 i k j b)
  have "b AND 1 \<noteq> 0 \<longleftrightarrow> bit b 0" using u8_and_bit[of 0 b] by simp
  moreover have "filter (bit b) (map Suc [0..<k]) = map Suc (filter (bit (drop_bit 1 b)) [0..<k])"
    by (simp add: filter_map comp_def bit_drop_bit_eq)
  moreover have "byte_index_loop i k (Suc j) (drop_bit 1 b) =
      map (\<lambda>t. of_nat (i * 8 + j + Suc t)) (filter (bit (drop_bit 1 b)) [0..<k])"
    by (simp only: 2 add_Suc_right add_Suc)
  ultimately show ?case by (simp add: upt_Suc_map comp_def del: upt_Suc)
qed simp

lemma filter_upt_add8:
  "filter P [0..<8 * Suc L] = filter P [0..<8 * L] @ map (\<lambda>t. L * 8 + t) (filter (\<lambda>t. P (L * 8 + t)) [0..<8])"
proof -
  have "[0..<8 * Suc L] = [0..<8 * L] @ map (\<lambda>t. L * 8 + t) [0..<8]"
    using upt_add_eq_append[of 0 "8 * L" 8] map_add_upt[of "8 * L" 8] by (simp add: add.commute mult.commute)
  then show ?thesis by (simp add: filter_map comp_def)
qed

lemma bits_enumerate:
  "concat (map (\<lambda>i. map (\<lambda>t. i * 8 + t) (filter (bit (bt ! i)) [0..<8])) [0..<L]) =
   filter (\<lambda>n. bit (bt ! (n div 8)) (n mod 8)) [0..<8 * L]" for bt :: bytes
proof (induction L)
  case (Suc L)
  have "filter (\<lambda>t. bit (bt ! ((L * 8 + t) div 8)) ((L * 8 + t) mod 8)) [0..<8] = filter (bit (bt ! L)) [0..<8]"
    by (rule filter_cong) auto
  then show ?case using Suc by (simp add: filter_upt_add8 del: mult_Suc_right)
qed simp

lemma bm_GetIndexList_nat:
  "bm_GetIndexList b = map of_nat (filter (\<lambda>n. bit (btBitmap b ! (n div 8)) (n mod 8)) [0..<8 * length (btBitmap b)])"
proof -
  have "(let x = btBitmap b ! i in if x \<noteq> 0 then byte_index_loop i 8 0 x else []) =
      map of_nat (map (\<lambda>t. i * 8 + t) (filter (bit (btBitmap b ! i)) [0..<8]))" for i
    by (simp add: Let_def byte_index_loop_filter)
  then show ?thesis
    by (simp only: bm_GetIndexList_def bits_enumerate[symmetric]) (simp only: map_concat map_map comp_def)
qed

lemma bm_GetIndexList_set:
  assumes "bm_wf b"
  shows "sorted_wrt (<) (bm_GetIndexList b)" "unat ` set (bm_GetIndexList b) = bm_bits b"
proof -
  define ns where "ns = filter (\<lambda>n. bit (btBitmap b ! (n div 8)) (n mod 8)) [0..<8 * length (btBitmap b)]"
  have ns: "set ns = bm_bits b" by (auto simp: ns_def bm_bits_def)
  have "\<forall>n \<in> set ns. n < 2 ^ 32"
    using bm_bits_bounded[OF assms] assms unfolding ns bm_wf_def by force
  then have u: "\<forall>n \<in> set ns. unat (of_nat n :: u32) = n" by (simp add: unat_of_nat take_bit_nat_eq_self)
  have l: "bm_GetIndexList b = map of_nat ns" by (simp add: bm_GetIndexList_nat ns_def)
  show "unat ` set (bm_GetIndexList b) = bm_bits b" using u by (force simp: l ns[symmetric])
  have "sorted_wrt (<) ns" unfolding ns_def by (intro sorted_wrt_filter) simp
  then have "sorted_wrt (\<lambda>x y. (of_nat x :: u32) < of_nat y) ns"
    using u by (auto simp: word_less_nat_alt elim!: sorted_wrt_mono_rel[rotated])
  then show "sorted_wrt (<) (bm_GetIndexList b)" by (simp add: l sorted_wrt_map)
qed

section \<open>Combining bitmaps\<close>

lemma fold_zip_nth:
  "n \<le> length a \<Longrightarrow> length (fold (\<lambda>i ap. ap[i := f (ap ! i) (b ! i)]) [0..<n] a) = length a \<and>
   (\<forall>j. fold (\<lambda>i ap. ap[i := f (ap ! i) (b ! i)]) [0..<n] a ! j = (if j < n then f (a ! j) (b ! j) else a ! j))"
  by (induction n) (auto simp: nth_list_update)

lemma bm_zip_bits:
  assumes "length (btBitmap a) = length (btBitmap b)"
    and "\<And>x y t. t < 8 \<Longrightarrow> bit (f x y) t \<longleftrightarrow> g (bit x t) (bit y t)" "\<not> g False False"
  shows "bm_bits (bm_zip f a b) = {n. g (n \<in> bm_bits a) (n \<in> bm_bits b)}"
proof (rule set_eqI)
  fix n
  let ?r = "fold (\<lambda>i ap. ap[i := f (ap ! i) (btBitmap b ! i)]) [0..<length (btBitmap a)] (btBitmap a)"
  have r: "length ?r = length (btBitmap a)" "\<forall>j. ?r ! j = (if j < length (btBitmap a) then f (btBitmap a ! j) (btBitmap b ! j) else btBitmap a ! j)"
    using fold_zip_nth[of "length (btBitmap a)" "btBitmap a" f "btBitmap b"] by auto
  show "n \<in> bm_bits (bm_zip f a b) \<longleftrightarrow> n \<in> {n. g (n \<in> bm_bits a) (n \<in> bm_bits b)}"
  proof (cases "n < 8 * length (btBitmap a)")
    case True
    then have "n div 8 < length (btBitmap a)" by simp
    then show ?thesis using True r assms(1) assms(2)[of "n mod 8"]
      by (simp add: bm_zip_def bm_bits_def Let_def)
  next
    case False
    then show ?thesis using r assms(1,3) by (simp add: bm_zip_def bm_bits_def Let_def)
  qed
qed

lemma bm_logic_bits:
  assumes "length (btBitmap a) = length (btBitmap b)"
  shows "bm_bits (bm_and a b) = bm_bits a \<inter> bm_bits b" "bm_bits (bm_or a b) = bm_bits a \<union> bm_bits b"
    "bm_bits (bm_xor a b) = (bm_bits a - bm_bits b) \<union> (bm_bits b - bm_bits a)"
  using bm_zip_bits[OF assms, of "\<lambda>x y. x AND y" "(\<and>)"] bm_zip_bits[OF assms, of "\<lambda>x y. x OR y" "(\<or>)"]
    bm_zip_bits[OF assms, of "\<lambda>x y. x XOR y" "(\<noteq>)"]
  by (auto simp: bm_and_def bm_or_def bm_xor_def bit_and_iff bit_or_iff bit_xor_iff)

lemma bm_logic_shape:
  "varBits (bm_zip f a b) = varBits a" "length (btBitmap (bm_zip f a b)) = length (btBitmap a)"
  using fold_zip_nth[of "min (length (btBitmap a)) (length (btBitmap b))" "btBitmap a" f "btBitmap b"]
  by (auto simp: bm_zip_def Let_def)

lemma bm_logic_wf:
  assumes "bm_wf a" "bm_wf b" "varBits a = varBits b"
  shows "bm_wf (bm_and a b)" "bm_wf (bm_or a b)" "bm_wf (bm_xor a b)"
proof -
  have l: "length (btBitmap a) = length (btBitmap b)" using assms by (simp add: bm_wf_def)
  show "bm_wf (bm_and a b)" "bm_wf (bm_or a b)" "bm_wf (bm_xor a b)"
    using assms bm_logic_bits[OF l] bm_bits_bounded[OF assms(1)] bm_bits_bounded[OF assms(2)]
    unfolding bm_wf_bits by (auto simp: bm_and_def bm_or_def bm_xor_def bm_logic_shape)
qed

lemma bm_Import_save:
  assumes "length (btBitmap b) < 2 ^ 63"
  shows "bm_ImportBytes b' (bm_save b) = (True, b)"
proof -
  have "fvector_load 1 (fvector_save 1 (btBitmap b) @ []) = Inr (btBitmap b, [])"
    using assms by (intro bytesv.load_save) simp
  then show ?thesis by (simp add: bm_ImportBytes_def bm_save_def varint_load_save)
qed

section \<open>Properties\<close>

text \<open>
  (C15) A bitmap made by \<^verbatim>\<open>Initialize\<close> is a set of positions below its declared size:
  \<^verbatim>\<open>Initialize\<close> gives the empty set, \<^verbatim>\<open>SetBit\<close> inserts a position in range and ignores the others,
  \<^verbatim>\<open>UnsetBit\<close> removes one, \<^verbatim>\<open>GetBit\<close> decides membership, and \<^verbatim>\<open>GetIndexList\<close> lists the members in
  increasing order. No access leaves the vector and the invariant is kept.
\<close>

theorem bitmap_is_a_set:
  "bm_wf (snd (bm_Initialize k)) \<and> bm_bits (snd (bm_Initialize k)) = {} \<and>
   (bm_wf b \<longrightarrow>
     bm_GetBit b n = Access (unat n \<in> bm_bits b) \<and>
     (\<exists>b'. bm_SetBit b n = Access b' \<and> bm_wf b' \<and>
        bm_bits b' = (if unat n < unat (varBits b) then insert (unat n) (bm_bits b) else bm_bits b)) \<and>
     (\<exists>b'. bm_UnsetBit b n = Access b' \<and> bm_wf b' \<and> bm_bits b' = bm_bits b - {unat n}) \<and>
     sorted_wrt (<) (bm_GetIndexList b) \<and> unat ` set (bm_GetIndexList b) = bm_bits b)"
proof -
  have "\<exists>b'. bm_SetBit b n = Access b' \<and> bm_wf b' \<and>
      bm_bits b' = (if unat n < unat (varBits b) then insert (unat n) (bm_bits b) else bm_bits b)" if "bm_wf b"
    by (rule bm_SetBit_bits[OF that, of n]) blast
  moreover have "\<exists>b'. bm_UnsetBit b n = Access b' \<and> bm_wf b' \<and> bm_bits b' = bm_bits b - {unat n}" if "bm_wf b"
    by (rule bm_UnsetBit_bits[OF that, of n]) blast
  ultimately show ?thesis
    by (intro conjI impI) (simp_all only: bm_Initialize_wf bm_Initialize_bits bm_GetBit_bits bm_GetIndexList_set)
qed

theorem bitmap_is_a_set_witness:
  "bm_GetBit (snd (bm_Initialize 9)) 3 = Access (unat (3 :: u32) \<in> bm_bits (snd (bm_Initialize 9)))"
  using bitmap_is_a_set[of 9 "snd (bm_Initialize 9)" 3] by blast

text \<open> \<^verbatim>\<open>operator&=\<close>, \<^verbatim>\<open>operator|=\<close> and \<^verbatim>\<open>operator^=\<close> on two bitmaps of one declared size are
  intersection, union and symmetric difference of the sets, and keep the invariant.
\<close>

theorem bitmap_logic:
  assumes "bm_wf a" "bm_wf b" "varBits a = varBits b"
  shows "bm_wf (bm_and a b) \<and> bm_bits (bm_and a b) = bm_bits a \<inter> bm_bits b \<and>
    bm_wf (bm_or a b) \<and> bm_bits (bm_or a b) = bm_bits a \<union> bm_bits b \<and>
    bm_wf (bm_xor a b) \<and> bm_bits (bm_xor a b) = (bm_bits a - bm_bits b) \<union> (bm_bits b - bm_bits a)"
proof -
  have "length (btBitmap a) = length (btBitmap b)" using assms by (simp add: bm_wf_def)
  from bm_logic_bits[OF this] bm_logic_wf[OF assms] show ?thesis by simp
qed

theorem bitmap_logic_witness:
  "bm_wf (bm_or (snd (bm_Initialize 9)) (snd (bm_Initialize 9)))"
  using bitmap_logic[of "snd (bm_Initialize 9)" "snd (bm_Initialize 9)"] bm_Initialize_wf[of 9] by blast

text \<open>
  (C29) Importing the bytes of a bitmap gives it back, but \<^verbatim>\<open>ImportBytes\<close> does not compare the declared
  number of bits with the bytes that follow: the two bytes \<^verbatim>\<open>20 F7\<close> are accepted as a bitmap of 32 bits
  that holds no byte, and reading or setting any of them leaves the vector.
\<close>

theorem bitmap_import:
  "(length (btBitmap b) < 2 ^ 63 \<longrightarrow> bm_ImportBytes b' (bm_save b) = (True, b)) \<and>
   (\<exists>c. bm_ImportBytes b' [0x20, 0xF7] = (True, c) \<and> bm_GetBit c 0 = OutOfBounds \<and> bm_SetBit c 31 = OutOfBounds)"
  using bm_Import_save[of b b']
  by (simp add: bm_ImportBytes_def varint_load_def nDataImmLenStart_def fvector_load_def bm_GetBit_def bm_SetBit_def)

theorem bitmap_import_witness:
  "bm_ImportBytes bm_Clear (bm_save \<lparr>varBits = 9, btBitmap = [5, 1]\<rparr>) = (True, \<lparr>varBits = 9, btBitmap = [5, 1]\<rparr>)"
  using bitmap_import[of "\<lparr>varBits = 9, btBitmap = [5, 1]\<rparr>" bm_Clear] by simp

end
