(* ===== verification/CircularBuf.thy ===== *)
theory CircularBuf
  imports Stream_Codec
begin

unbundle bit_operations_syntax

text \<open>
  \<^verbatim>\<open>circularbuf\<close> of \<^verbatim>\<open>src/src/hnbase/stream/circular.cpp\<close>, the ring buffer behind
  \<^verbatim>\<open>CCircularStream\<close>. The pointers of \<^verbatim>\<open>std::streambuf\<close> are offsets from \<^verbatim>\<open>&buffer_[0]\<close>; the
  masking with \<^verbatim>\<open>size_mask_\<close> is the bitwise operation on those offsets, which are integers because a
  difference of pointers may be negative before it is masked. \<open>cb_sputc\<close> and \<open>cb_sbumpc\<close> are the two
  inlined accessors of \<^verbatim>\<open>std::streambuf\<close> that fall back on \<^verbatim>\<open>overflow\<close> and \<^verbatim>\<open>underflow\<close>.
  The locale \<open>byte_queue\<close> is the contract of a bounded queue that can be read again until it is
  consumed; \<open>cbq\<close> interprets it on the ring buffer.
\<close>

section \<open>The buffer\<close>

record circularbuf =
  buf_size :: int
  size_mask :: int
  bgn :: int
  cbuffer :: bytes
  gptr :: int
  egptr :: int
  pptr :: int
  epptr :: int

text \<open>The constructor's loop doubles a 64-bit size until it reaches the maximum asked for.\<close>

partial_function (option) grow_loop :: "u64 \<Rightarrow> u64 \<Rightarrow> u64 option" where
  "grow_loop maximum_size sz =
     (if sz < maximum_size then grow_loop maximum_size (push_bit 1 sz) else Some sz)"

text \<open>\<^verbatim>\<open>std::vector<char>::resize\<close> throws above \<^verbatim>\<open>max_size\<close>, the largest \<^verbatim>\<open>ptrdiff_t\<close>. \<open>None\<close> is the loop that does not end; that the
  memory asked for is there is assumed.\<close>

datatype cb_error = Length_Error

definition vector_max_size :: u64 where
  "vector_max_size = 2 ^ 63 - 1"

definition cb_new :: "u64 \<Rightarrow> (cb_error + circularbuf) option" where
  "cb_new maximum_size = map_option (\<lambda>sz.
     if vector_max_size < sz then Inl Length_Error
     else Inr \<lparr>buf_size = uint sz, size_mask = uint sz - 1, bgn = 0, cbuffer = replicate (unat sz) 0,
       gptr = 0, egptr = 0, pptr = 0, epptr = uint sz - 1\<rparr>) (grow_loop maximum_size 8)"

definition cb_size :: "circularbuf \<Rightarrow> int" where
  "cb_size q = (pptr q - bgn q) AND size_mask q"

definition cb_freespace :: "circularbuf \<Rightarrow> int" where
  "cb_freespace q = buf_size q - cb_size q - 1"

definition cb_putpos :: "circularbuf \<Rightarrow> int" where
  "cb_putpos q = pptr q AND size_mask q"

definition cb_setg :: "int \<Rightarrow> int \<Rightarrow> circularbuf \<Rightarrow> circularbuf" where
  "cb_setg g e q = q\<lparr>gptr := g, egptr := e\<rparr>"

definition cb_setp :: "int \<Rightarrow> int \<Rightarrow> circularbuf \<Rightarrow> circularbuf" where
  "cb_setp p e q = q\<lparr>pptr := p, epptr := e\<rparr>"

definition cb_consume :: "int \<Rightarrow> circularbuf \<Rightarrow> circularbuf" where
  "cb_consume n q =
     (let ppos = pptr q AND size_mask q;
          gpos = gptr q AND size_mask q;
          b = (if n \<ge> cb_size q then ppos else (bgn q + n) AND size_mask q);
          q1 = q\<lparr>bgn := b\<rparr>
      in if (ppos \<ge> b \<and> (gpos < b \<or> gpos > ppos)) \<or> (ppos < b \<and> (gpos < b \<and> gpos > ppos))
         then (if b \<le> ppos then cb_setg b ppos q1 else cb_setg b (buf_size q) q1)
         else q1)"

definition cb_underflow :: "circularbuf \<Rightarrow> u8 option \<times> circularbuf" where
  "cb_underflow q =
     (let ppos = pptr q AND size_mask q; gpos = gptr q AND size_mask q
      in if gpos < ppos then (Some (cbuffer q ! nat gpos), cb_setg gpos ppos q)
         else if gpos > ppos then (Some (cbuffer q ! nat gpos), cb_setg gpos (buf_size q) q)
         else (None, q))"

text \<open>The argument is a character, so the test against \<^verbatim>\<open>eof\<close> is passed; \<open>False\<close> is the value \<^verbatim>\<open>eof\<close>.\<close>

definition cb_overflow :: "u8 \<Rightarrow> circularbuf \<Rightarrow> bool \<times> circularbuf" where
  "cb_overflow c q =
     (let ppos = pptr q AND size_mask q; pend = (bgn q - 1) AND size_mask q
      in if ppos = pend then (False, q)
         else let q1 = (if ppos > pend then cb_setp ppos (buf_size q) q else cb_setp ppos pend q)
              in (True, q1\<lparr>cbuffer := (cbuffer q1)[nat (pptr q1) := c], pptr := pptr q1 + 1\<rparr>))"

definition cb_seekpos :: "int \<Rightarrow> circularbuf \<Rightarrow> int \<times> circularbuf" where
  "cb_seekpos pos q =
     (let ppos = pptr q AND size_mask q; gpos = pos AND size_mask q
      in if (ppos \<ge> bgn q \<and> (gpos \<ge> bgn q \<and> gpos \<le> ppos))
            \<or> (ppos < bgn q \<and> (gpos \<ge> bgn q \<or> gpos \<le> ppos))
         then (gpos, if gpos \<le> ppos then cb_setg gpos ppos q else cb_setg gpos (buf_size q) q)
         else (- 1, q))"

datatype seekdir = SeekBeg | SeekCur | SeekEnd

definition cb_seekoff :: "int \<Rightarrow> seekdir \<Rightarrow> circularbuf \<Rightarrow> int \<times> circularbuf" where
  "cb_seekoff off way q =
     (let pos = (case way of
          SeekBeg \<Rightarrow> (bgn q + off) AND size_mask q
        | SeekCur \<Rightarrow> (gptr q + off) AND size_mask q
        | SeekEnd \<Rightarrow> (pptr q + off) AND size_mask q)
      in cb_seekpos pos q)"

definition cb_showmanyc :: "circularbuf \<Rightarrow> int" where
  "cb_showmanyc q = (pptr q - gptr q) AND size_mask q"

definition cb_sputc :: "circularbuf \<Rightarrow> u8 \<Rightarrow> bool \<times> circularbuf" where
  "cb_sputc q c =
     (if pptr q < epptr q
      then (True, q\<lparr>cbuffer := (cbuffer q)[nat (pptr q) := c], pptr := pptr q + 1\<rparr>)
      else cb_overflow c q)"

definition cb_sbumpc :: "circularbuf \<Rightarrow> u8 option \<times> circularbuf" where
  "cb_sbumpc q =
     (if gptr q < egptr q then (Some (cbuffer q ! nat (gptr q)), q\<lparr>gptr := gptr q + 1\<rparr>)
      else case cb_underflow q of
        (None, q') \<Rightarrow> (None, q')
      | (Some c, q') \<Rightarrow> (Some (cbuffer q' ! nat (gptr q')), q'\<lparr>gptr := gptr q' + 1\<rparr>))"

section \<open>Invariant and abstraction\<close>

text \<open>The offset of the read pointer from the first byte held.\<close>

definition cb_read :: "circularbuf \<Rightarrow> int" where
  "cb_read q = (gptr q - bgn q) mod buf_size q"

definition cb_inv :: "circularbuf \<Rightarrow> bool" where
  "cb_inv q \<longleftrightarrow> (\<exists>k. buf_size q = 2 ^ k) \<and> 8 \<le> buf_size q \<and> size_mask q = buf_size q - 1 \<and>
     length (cbuffer q) = nat (buf_size q) \<and>
     0 \<le> bgn q \<and> bgn q < buf_size q \<and>
     0 \<le> pptr q \<and> pptr q \<le> epptr q \<and> epptr q \<le> buf_size q \<and>
     0 \<le> gptr q \<and> gptr q \<le> egptr q \<and> egptr q \<le> buf_size q \<and>
     (pptr q - bgn q) mod buf_size q + (epptr q - pptr q) \<le> buf_size q - 1 \<and>
     cb_read q + (egptr q - gptr q) \<le> (pptr q - bgn q) mod buf_size q"

definition cb_held :: "circularbuf \<Rightarrow> bytes" where
  "cb_held q = map (\<lambda>i. cbuffer q ! nat ((bgn q + int i) mod buf_size q)) [0..<nat (cb_size q)]"

definition cb_pending :: "circularbuf \<Rightarrow> bytes" where
  "cb_pending q = drop (nat (cb_read q)) (cb_held q)"

lemma and_mask_mod: "cb_inv q \<Longrightarrow> x AND size_mask q = x mod buf_size q"
proof -
  assume "cb_inv q"
  then obtain k where k: "buf_size q = 2 ^ k" "size_mask q = buf_size q - 1" by (auto simp: cb_inv_def)
  then have "size_mask q = mask k" by (simp add: mask_eq_exp_minus_1)
  then show ?thesis using k by (simp add: take_bit_eq_mod flip: take_bit_eq_mask)
qed

lemma cb_size_mod: "cb_inv q \<Longrightarrow> cb_size q = (pptr q - bgn q) mod buf_size q"
  by (simp add: cb_size_def and_mask_mod)

lemma cb_size_bounds: "cb_inv q \<Longrightarrow> 0 \<le> cb_size q \<and> cb_size q \<le> buf_size q - 1"
  by (simp add: cb_size_mod) (auto simp: cb_inv_def)

lemma cb_read_bounds: "cb_inv q \<Longrightarrow> 0 \<le> cb_read q \<and> cb_read q \<le> cb_size q"
  by (simp add: cb_size_mod) (auto simp: cb_inv_def cb_read_def)

lemma length_cb_held: "length (cb_held q) = nat (cb_size q)"
  by (simp add: cb_held_def)

section \<open>Arithmetic on the ring\<close>

lemma ring_diff:
  fixes a b N :: int
  assumes "0 \<le> a" "a \<le> N" "0 \<le> b" "b < N"
  shows "(a - b) mod N = (if a < b then a - b + N else if a - b = N then 0 else a - b)"
  using assms mod_pos_pos_trivial[of "a - b" N] mod_add_self2[of "a - b" N] mod_pos_pos_trivial[of "a - b + N" N]
  by auto

lemma ring_pos: "0 \<le> a \<Longrightarrow> a \<le> N \<Longrightarrow> 0 < N \<Longrightarrow> a mod N = (if a = N then 0 else a)" for a N :: int
  by auto

lemma ring_inj: "\<lbrakk>0 \<le> i; i < N; 0 \<le> j; j < N; (b + i) mod N = (b + j) mod N\<rbrakk> \<Longrightarrow> i = j" for i j b N :: int
  by (metis add_diff_cancel_left' mod_diff_left_eq mod_pos_pos_trivial)

lemma ring_Suc: "0 < N \<Longrightarrow> x mod N + 1 < N \<Longrightarrow> (x + 1) mod N = x mod N + 1" for x N :: int
  by (metis mod_add_left_eq mod_pos_pos_trivial pos_mod_sign add_nonneg_nonneg zero_le_one)

lemma ring_end: "(b + (p - b) mod N) mod N = p mod N" for b p N :: int
  by (simp add: mod_add_right_eq)

lemma cb_inv_pos: "cb_inv q \<Longrightarrow> 8 \<le> buf_size q \<and> 0 < buf_size q"
  by (simp add: cb_inv_def)

section \<open>Writing\<close>

lemma cb_held_snoc:
  assumes "bgn q' = bgn q" "buf_size q' = buf_size q" "0 < buf_size q"
    "0 \<le> cb_size q" "cb_size q < buf_size q" "cb_size q' = cb_size q + 1"
    "p = (bgn q + cb_size q) mod buf_size q" "cbuffer q' = (cbuffer q)[nat p := c]"
    "length (cbuffer q) = nat (buf_size q)"
  shows "cb_held q' = cb_held q @ [c]"
proof -
  have p: "0 \<le> p" "p < buf_size q" using assms by simp_all
  have "cbuffer q' ! nat ((bgn q + int i) mod buf_size q) = cbuffer q ! nat ((bgn q + int i) mod buf_size q)"
    if "i < nat (cb_size q)" for i
  proof -
    have "int i < cb_size q" using that by linarith
    then have "(bgn q + int i) mod buf_size q \<noteq> p"
      using assms(3-5,7) ring_inj[of "int i" "buf_size q" "cb_size q" "bgn q"] by auto
    then have "nat ((bgn q + int i) mod buf_size q) \<noteq> nat p" using p assms(3) by (simp add: nat_eq_iff)
    then show ?thesis using assms(8) by simp
  qed
  moreover have "cbuffer q' ! nat ((bgn q + int (nat (cb_size q))) mod buf_size q) = c"
    using assms p by (simp add: nat_less_iff)
  moreover have "nat (cb_size q') = Suc (nat (cb_size q))" using assms by simp
  ultimately show ?thesis using assms(1,2) by (simp add: cb_held_def)
qed

text \<open>A byte stored at the put pointer, which is below the buffer's end and not the last free cell.\<close>

lemma cb_store:
  fixes c :: u8
  assumes inv: "cb_inv q" and lt: "pptr q < epptr q"
  defines "q' \<equiv> q\<lparr>cbuffer := (cbuffer q)[nat (pptr q) := c], pptr := pptr q + 1\<rparr>"
  shows "cb_inv q'" "cb_held q' = cb_held q @ [c]" "cb_pending q' = cb_pending q @ [c]"
proof -
  have N: "0 < buf_size q" using cb_inv_pos[OF inv] by simp
  have s: "cb_size q + (epptr q - pptr q) \<le> buf_size q - 1" "cb_size q = (pptr q - bgn q) mod buf_size q"
    using inv by (simp_all add: cb_size_mod) (simp add: cb_inv_def)
  have s': "(pptr q + 1 - bgn q) mod buf_size q = cb_size q + 1"
    using ring_Suc[of "buf_size q" "pptr q - bgn q"] N s lt by (simp add: algebra_simps)
  have r: "cb_read q' = cb_read q" by (simp add: q'_def cb_read_def)
  show inv': "cb_inv q'"
    using inv lt s s' r unfolding cb_inv_def by (simp add: q'_def)
  then have sz: "cb_size q' = cb_size q + 1" using s' by (simp add: cb_size_mod) (simp add: q'_def)
  have "pptr q mod buf_size q = pptr q" using inv lt by (auto simp: cb_inv_def)
  then show h: "cb_held q' = cb_held q @ [c]"
    using inv N s lt sz ring_end[of "bgn q" "pptr q" "buf_size q"] cb_size_bounds[OF inv]
    by (intro cb_held_snoc[where p = "pptr q"]) (simp_all add: q'_def cb_inv_def)
  show "cb_pending q' = cb_pending q @ [c]"
    using cb_read_bounds[OF inv] nat_mono[of "cb_read q" "cb_size q"] by (simp add: cb_pending_def h r length_cb_held)
qed

lemma cb_full_iff: "cb_inv q \<Longrightarrow> pptr q AND size_mask q = (bgn q - 1) AND size_mask q \<longleftrightarrow> cb_size q = buf_size q - 1"
proof -
  assume inv: "cb_inv q"
  have b: "0 \<le> pptr q" "pptr q \<le> buf_size q" "0 \<le> bgn q" "bgn q < buf_size q" "8 \<le> buf_size q"
    using inv by (auto simp: cb_inv_def)
  have "(bgn q - 1) mod buf_size q = (if bgn q = 0 then buf_size q - 1 else bgn q - 1)"
    using b by (auto simp: mod_pos_pos_trivial zmod_minus1)
  then show ?thesis
    using inv b ring_diff[of "pptr q" "buf_size q" "bgn q"] ring_pos[of "pptr q" "buf_size q"]
    by (auto simp: and_mask_mod cb_size_mod)
qed

lemma cb_overflow_store:
  assumes inv: "cb_inv q" and room: "cb_size q \<noteq> buf_size q - 1" and e: "pptr q = epptr q"
  shows "\<exists>q1. cb_overflow c q = (True, q1\<lparr>cbuffer := (cbuffer q1)[nat (pptr q1) := c], pptr := pptr q1 + 1\<rparr>) \<and>
    cb_inv q1 \<and> pptr q1 < epptr q1 \<and> cb_held q1 = cb_held q \<and> cb_pending q1 = cb_pending q \<and> buf_size q1 = buf_size q"
proof -
  define ppos where "ppos = pptr q mod buf_size q"
  define pend where "pend = (bgn q - 1) mod buf_size q"
  have b: "0 \<le> pptr q" "pptr q \<le> buf_size q" "0 \<le> bgn q" "bgn q < buf_size q" "8 \<le> buf_size q"
    using inv by (auto simp: cb_inv_def)
  have pp: "ppos = (if pptr q = buf_size q then 0 else pptr q)" using b by (simp add: ppos_def ring_pos)
  have pe: "pend = (if bgn q = 0 then buf_size q - 1 else bgn q - 1)"
    using b by (auto simp: pend_def mod_pos_pos_trivial zmod_minus1)
  have ne: "ppos \<noteq> pend" using cb_full_iff[OF inv] room by (simp add: and_mask_mod[OF inv] ppos_def pend_def)
  define q1 where "q1 = cb_setp ppos (if ppos > pend then buf_size q else pend) q"
  have m: "(ppos - bgn q) mod buf_size q = (pptr q - bgn q) mod buf_size q" by (simp add: ppos_def mod_diff_left_eq)
  have d: "(ppos - bgn q) mod buf_size q = (if ppos < bgn q then ppos - bgn q + buf_size q else ppos - bgn q)"
    using b pp by (subst ring_diff) auto
  have lt: "pptr q1 < epptr q1" using ne pp b by (auto simp: q1_def cb_setp_def)
  have r: "0 \<le> ppos" "ppos < buf_size q" "pend \<le> buf_size q" using pp pe b by auto
  moreover have "(ppos - bgn q) mod buf_size q + (epptr q1 - ppos) \<le> buf_size q - 1"
    unfolding d q1_def cb_setp_def using pe ne b r by auto
  ultimately have inv1: "cb_inv q1"
    using inv lt m unfolding cb_inv_def cb_read_def q1_def cb_setp_def by simp
  have sz: "cb_size q1 = cb_size q" using m inv inv1 by (simp add: cb_size_mod) (simp add: q1_def cb_setp_def)
  have "cb_held q1 = cb_held q" "cb_read q1 = cb_read q" by (simp_all add: cb_held_def sz cb_read_def) (simp_all add: q1_def cb_setp_def)
  moreover from this have "cb_pending q1 = cb_pending q" by (simp add: cb_pending_def)
  moreover have "cb_overflow c q = (True, q1\<lparr>cbuffer := (cbuffer q1)[nat (pptr q1) := c], pptr := pptr q1 + 1\<rparr>)"
    using ne by (simp add: cb_overflow_def Let_def and_mask_mod[OF inv] ppos_def[symmetric] pend_def[symmetric] q1_def)
  ultimately show ?thesis using inv1 lt by (intro exI[of _ q1]) (simp add: q1_def cb_setp_def)
qed

lemma cb_sputc_room:
  assumes inv: "cb_inv q" and room: "int (length (cb_held q)) < buf_size q - 1"
  shows "\<exists>q'. cb_sputc q c = (True, q') \<and> cb_inv q' \<and> cb_held q' = cb_held q @ [c] \<and>
    cb_pending q' = cb_pending q @ [c] \<and> buf_size q' = buf_size q"
proof (cases "pptr q < epptr q")
  case True
  then show ?thesis using cb_store[OF inv True, of c] by (simp add: cb_sputc_def)
next
  case False
  then have e: "pptr q = epptr q" using inv by (simp add: cb_inv_def)
  have "cb_size q \<noteq> buf_size q - 1" using room cb_size_bounds[OF inv] by (simp add: length_cb_held)
  from cb_overflow_store[OF inv this e, of c] obtain q1 where q1:
    "cb_overflow c q = (True, q1\<lparr>cbuffer := (cbuffer q1)[nat (pptr q1) := c], pptr := pptr q1 + 1\<rparr>)"
    "cb_inv q1" "pptr q1 < epptr q1" "cb_held q1 = cb_held q" "cb_pending q1 = cb_pending q" "buf_size q1 = buf_size q"
    by blast
  then show ?thesis using False cb_store[OF q1(2,3), of c] by (simp add: cb_sputc_def)
qed

lemma cb_sputc_full:
  assumes inv: "cb_inv q" and full: "int (length (cb_held q)) = buf_size q - 1"
  shows "cb_sputc q c = (False, q)"
proof -
  have s: "cb_size q = buf_size q - 1" using full cb_size_bounds[OF inv] by (simp add: length_cb_held)
  then have "\<not> pptr q < epptr q" using inv cb_size_mod[OF inv] by (simp add: cb_inv_def)
  then show ?thesis using s cb_full_iff[OF inv] by (simp add: cb_sputc_def cb_overflow_def)
qed

section \<open>Reading\<close>

lemma cb_take:
  fixes q
  assumes inv: "cb_inv q" and lt: "gptr q < egptr q"
  defines "q' \<equiv> q\<lparr>gptr := gptr q + 1\<rparr>"
  shows "cb_inv q'" "cb_held q' = cb_held q" "cb_pending q = (cbuffer q ! nat (gptr q)) # cb_pending q'"
proof -
  have N: "0 < buf_size q" using cb_inv_pos[OF inv] by simp
  have r: "cb_read q + (egptr q - gptr q) \<le> cb_size q" using inv by (simp add: cb_size_mod) (simp add: cb_inv_def)
  note b = cb_size_bounds[OF inv] cb_read_bounds[OF inv]
  have r': "cb_read q' = cb_read q + 1"
    using ring_Suc[of "buf_size q" "gptr q - bgn q"] N r b lt by (simp add: q'_def cb_read_def algebra_simps)
  show "cb_inv q'" using inv lt r' unfolding cb_inv_def by (simp add: q'_def)
  show h: "cb_held q' = cb_held q" by (simp add: q'_def cb_held_def cb_size_def)
  have i: "nat (cb_read q) < length (cb_held q)" using r b lt by (simp add: length_cb_held nat_less_eq_zless)
  have "gptr q mod buf_size q = gptr q" using inv lt by (auto simp: cb_inv_def)
  then have "cb_held q ! nat (cb_read q) = cbuffer q ! nat (gptr q)"
    using i b ring_end[of "bgn q" "gptr q" "buf_size q"]
    by (simp add: cb_held_def length_cb_held cb_read_def)
  then show "cb_pending q = (cbuffer q ! nat (gptr q)) # cb_pending q'"
    using i b by (simp add: cb_pending_def h r' nat_add_distrib Cons_nth_drop_Suc[symmetric])
qed

text \<open>The get area set to run from an offset inside the bytes held to the end of the run.\<close>

lemma cb_setg_inv:
  assumes inv: "cb_inv q" and g: "0 \<le> g" "g < buf_size q"
    and w: "(g - bgn q) mod buf_size q \<le> cb_size q"
  defines "ppos \<equiv> pptr q mod buf_size q"
  defines "q' \<equiv> cb_setg g (if g \<le> ppos then ppos else buf_size q) q"
  shows "cb_inv q'" "cb_held q' = cb_held q" "cb_read q' = (g - bgn q) mod buf_size q"
    "gptr q' < egptr q' \<longleftrightarrow> g \<noteq> ppos"
proof -
  have b: "0 \<le> pptr q" "pptr q \<le> buf_size q" "0 \<le> bgn q" "bgn q < buf_size q" "8 \<le> buf_size q"
    using inv by (auto simp: cb_inv_def)
  have pp: "ppos = (if pptr q = buf_size q then 0 else pptr q)" using b by (simp add: ppos_def ring_pos)
  have sz: "cb_size q = (if ppos < bgn q then ppos - bgn q + buf_size q else ppos - bgn q)"
  proof -
    have "cb_size q = (ppos - bgn q) mod buf_size q" by (simp add: cb_size_mod[OF inv] ppos_def mod_diff_left_eq)
    then show ?thesis using b pp by (simp add: ring_diff)
  qed
  have gd: "(g - bgn q) mod buf_size q = (if g < bgn q then g - bgn q + buf_size q else g - bgn q)"
    using b g by (simp add: ring_diff)
  show r: "cb_read q' = (g - bgn q) mod buf_size q" by (simp add: q'_def cb_setg_def cb_read_def)
  have p: "0 \<le> ppos" "ppos < buf_size q" using pp b by auto
  then have "(g - bgn q) mod buf_size q + (egptr q' - g) \<le> cb_size q"
    using w b g unfolding gd sz q'_def cb_setg_def by (auto split: if_splits)
  moreover have "0 \<le> ppos" "ppos \<le> buf_size q" using p by auto
  ultimately show "cb_inv q'"
    using inv g r by (simp add: cb_size_mod[OF inv]) (simp add: cb_inv_def q'_def cb_setg_def)
  show "cb_held q' = cb_held q" by (simp add: q'_def cb_setg_def cb_held_def cb_size_def)
  show "gptr q' < egptr q' \<longleftrightarrow> g \<noteq> ppos" using g by (auto simp: q'_def cb_setg_def)
qed

lemma cb_pending_Nil_iff: "cb_inv q \<Longrightarrow> cb_pending q = [] \<longleftrightarrow> cb_read q = cb_size q"
  using cb_read_bounds[of q] by (auto simp: cb_pending_def length_cb_held)

lemma cb_read_eq_size_iff:
  assumes inv: "cb_inv q"
  shows "cb_read q = cb_size q \<longleftrightarrow> gptr q mod buf_size q = pptr q mod buf_size q"
proof -
  have "cb_read q = cb_size q \<longleftrightarrow> (gptr q - bgn q) mod buf_size q = (pptr q - bgn q) mod buf_size q"
    by (simp add: cb_read_def cb_size_mod[OF inv])
  also have "\<dots> \<longleftrightarrow> gptr q mod buf_size q = pptr q mod buf_size q"
    by (simp add: mod_eq_dvd_iff)
  finally show ?thesis .
qed

lemma cb_sbumpc_some:
  assumes inv: "cb_inv q" and ne: "cb_pending q = c # r"
  shows "\<exists>q'. cb_sbumpc q = (Some c, q') \<and> cb_inv q' \<and> cb_held q' = cb_held q \<and> cb_pending q' = r \<and> buf_size q' = buf_size q"
proof (cases "gptr q < egptr q")
  case True
  then show ?thesis using cb_take[OF inv True] ne by (simp add: cb_sbumpc_def)
next
  case False
  define g where "g = gptr q mod buf_size q"
  define q1 where "q1 = cb_setg g (if g \<le> pptr q mod buf_size q then pptr q mod buf_size q else buf_size q) q"
  have N: "0 < buf_size q" using cb_inv_pos[OF inv] by simp
  have gd: "(g - bgn q) mod buf_size q = cb_read q" by (simp add: g_def cb_read_def mod_diff_left_eq)
  have g: "0 \<le> g" "g < buf_size q" "g \<noteq> pptr q mod buf_size q"
    using N ne cb_pending_Nil_iff[OF inv] cb_read_eq_size_iff[OF inv] by (auto simp: g_def)
  have q1: "cb_inv q1" "cb_held q1 = cb_held q" "cb_read q1 = cb_read q" "gptr q1 < egptr q1"
    using cb_setg_inv[OF inv g(1,2)] gd g(3) cb_read_bounds[OF inv] by (simp_all add: q1_def)
  have p1: "cb_pending q1 = cb_pending q" by (simp add: cb_pending_def q1)
  have "cb_underflow q = (Some (cbuffer q ! nat g), q1)"
    using g by (auto simp: cb_underflow_def Let_def and_mask_mod[OF inv] g_def[symmetric] q1_def)
  then show ?thesis using False cb_take[OF q1(1,4)] ne p1 q1
    by (simp add: cb_sbumpc_def) (simp add: q1_def cb_setg_def)
qed

lemma cb_sbumpc_none:
  assumes inv: "cb_inv q" and "cb_pending q = []"
  shows "cb_sbumpc q = (None, q)"
proof -
  have r: "cb_read q = cb_size q" using assms cb_pending_Nil_iff by blast
  then have "\<not> gptr q < egptr q" using inv cb_size_mod[OF inv] by (simp add: cb_inv_def)
  then show ?thesis using r cb_read_eq_size_iff[OF inv]
    by (simp add: cb_sbumpc_def cb_underflow_def Let_def and_mask_mod[OF inv])
qed

section \<open>Consuming and seeking\<close>

lemma ring_window:
  fixes b g p N :: int
  assumes "0 \<le> b" "b < N" "0 \<le> g" "g < N" "0 \<le> p" "p < N"
  shows "(g - b) mod N \<le> (p - b) mod N \<longleftrightarrow>
    (p \<ge> b \<and> (g \<ge> b \<and> g \<le> p)) \<or> (p < b \<and> (g \<ge> b \<or> g \<le> p))"
  using assms by (auto simp: ring_diff)

lemma ring_advance:
  fixes x b n N :: int
  assumes "0 \<le> n" "n \<le> (x - b) mod N" "0 < N"
  shows "(x - (b + n) mod N) mod N = (x - b) mod N - n"
proof -
  have "(x - (b + n) mod N) mod N = ((x - b) mod N - n) mod N"
    by (simp add: mod_diff_left_eq mod_diff_right_eq algebra_simps)
  also have "\<dots> = (x - b) mod N - n"
  proof (rule mod_pos_pos_trivial)
    have "(x - b) mod N < N" using assms by simp
    then show "(x - b) mod N - n < N" using assms by linarith
  qed (use assms in simp)
  finally show ?thesis .
qed

lemma ring_behind:
  fixes x b n N :: int
  assumes "(x - b) mod N < n" "n < N" "0 < N"
  shows "(x - (b + n) mod N) mod N = (x - b) mod N - n + N"
proof -
  have "0 \<le> (x - b) mod N" using assms by simp
  have "(x - (b + n) mod N) mod N = (x - b - n) mod N"
    by (simp add: mod_diff_right_eq algebra_simps)
  also have "\<dots> = ((x - b) mod N - n + N) mod N"
    by (simp add: mod_diff_left_eq)
  also have "\<dots> = (x - b) mod N - n + N"
    using assms \<open>0 \<le> (x - b) mod N\<close> by (intro mod_pos_pos_trivial) auto
  finally show ?thesis .
qed

lemma cb_advance:
  fixes g e :: int
  assumes inv: "cb_inv q" and n: "0 \<le> n" "n \<le> cb_size q"
  defines "q1 \<equiv> q\<lparr>bgn := (bgn q + n) mod buf_size q, gptr := g, egptr := e\<rparr>"
  shows "(pptr q - (bgn q + n) mod buf_size q) mod buf_size q = cb_size q - n"
    "cb_inv q1 \<Longrightarrow> cb_held q1 = drop (nat n) (cb_held q)"
proof -
  have N: "0 < buf_size q" using cb_inv_pos[OF inv] by simp
  show s: "(pptr q - (bgn q + n) mod buf_size q) mod buf_size q = cb_size q - n"
    using ring_advance[of n "pptr q" "bgn q" "buf_size q"] n N by (simp add: cb_size_mod[OF inv])
  assume "cb_inv q1"
  then have s1: "cb_size q1 = cb_size q - n" using s by (simp add: cb_size_mod) (simp add: q1_def)
  show "cb_held q1 = drop (nat n) (cb_held q)"
  proof (rule nth_equalityI)
    show "length (cb_held q1) = length (drop (nat n) (cb_held q))"
      using n s1 by (simp add: length_cb_held nat_diff_distrib)
    fix i assume "i < length (cb_held q1)"
    then have i: "i < nat (cb_size q - n)" using s1 by (simp add: length_cb_held)
    have "((bgn q + n) mod buf_size q + int i) mod buf_size q = (bgn q + int (nat n + i)) mod buf_size q"
      using n mod_add_left_eq[of "bgn q + n" "buf_size q" "int i"] by (simp add: add.assoc)
    then show "cb_held q1 ! i = drop (nat n) (cb_held q) ! i"
      using i n s1 by (simp add: cb_held_def) (simp add: q1_def)
  qed
qed

lemma cb_consume_spec:
  assumes inv: "cb_inv q" and n: "0 \<le> n"
  shows "cb_inv (cb_consume n q)" "cb_held (cb_consume n q) = drop (nat n) (cb_held q)"
    "cb_pending (cb_consume n q) = drop (nat n - nat (cb_read q)) (cb_pending q)"
    "buf_size (cb_consume n q) = buf_size q"
proof -
  define m where "m = min n (cb_size q)"
  define b where "b = (bgn q + m) mod buf_size q"
  define ppos where "ppos = pptr q mod buf_size q"
  define gpos where "gpos = gptr q mod buf_size q"
  note sb = cb_size_bounds[OF inv] and rb = cb_read_bounds[OF inv]
  have N: "0 < buf_size q" using cb_inv_pos[OF inv] by simp
  have m: "0 \<le> m" "m \<le> cb_size q" using n sb by (auto simp: m_def)
  have bb: "b = (if n \<ge> cb_size q then ppos else (bgn q + n) mod buf_size q)"
    using ring_end[of "bgn q" "pptr q" "buf_size q"] by (auto simp: b_def m_def ppos_def cb_size_mod[OF inv])
  have rng: "0 \<le> b" "b < buf_size q" "0 \<le> gpos" "gpos < buf_size q" "0 \<le> ppos" "ppos < buf_size q"
    using N by (simp_all add: b_def gpos_def ppos_def)
  have s: "(ppos - b) mod buf_size q = cb_size q - m"
    using cb_advance(1)[OF inv m] by (simp add: b_def ppos_def mod_diff_left_eq)
  have g: "(gpos - b) mod buf_size q = (if cb_read q < m then cb_read q - m + buf_size q else cb_read q - m)"
    using ring_advance[of m "gptr q" "bgn q" "buf_size q"] ring_behind[of "gptr q" "bgn q" "buf_size q" m] m N sb
    by (simp add: gpos_def b_def cb_read_def mod_diff_left_eq)
  have win: "(ppos \<ge> b \<and> (gpos < b \<or> gpos > ppos)) \<or> (ppos < b \<and> (gpos < b \<and> gpos > ppos)) \<longleftrightarrow> cb_read q < m"
  proof -
    have "(gpos - b) mod buf_size q \<le> (ppos - b) mod buf_size q \<longleftrightarrow> \<not> cb_read q < m"
      unfolding s g using rb sb m by auto
    then show ?thesis using ring_window[of b "buf_size q" gpos ppos] rng by linarith
  qed
  define q1 where "q1 = (if cb_read q < m then q\<lparr>bgn := b, gptr := b, egptr := (if b \<le> ppos then ppos else buf_size q)\<rparr>
      else q\<lparr>bgn := b, gptr := gptr q, egptr := egptr q\<rparr>)"
  have c: "cb_consume n q = q1"
    unfolding cb_consume_def Let_def and_mask_mod[OF inv] ppos_def[symmetric] gpos_def[symmetric]
      bb[symmetric] win q1_def cb_setg_def by simp
  have s': "(pptr q - b) mod buf_size q = cb_size q - m" using s by (simp add: ppos_def mod_diff_left_eq)
  have g': "(gptr q - b) mod buf_size q = cb_read q - m" if "\<not> cb_read q < m"
    using g that by (simp add: gpos_def mod_diff_left_eq)
  have sp: "cb_size q - m = (if ppos < b then ppos - b + buf_size q else ppos - b)"
    using s rng ring_diff[of ppos "buf_size q" b] by auto
  have "(pptr q - bgn q) mod buf_size q = cb_size q" by (simp add: cb_size_mod[OF inv])
  then show inv1: "cb_inv (cb_consume n q)"
    using inv rng s' g' sp m unfolding c q1_def cb_inv_def cb_read_def by auto
  have h: "cb_held q1 = drop (nat m) (cb_held q)"
    using cb_advance(2)[OF inv m, where g = "gptr q" and e = "egptr q"]
      cb_advance(2)[OF inv m, where g = b and e = "if b \<le> ppos then ppos else buf_size q"] inv1
    unfolding c q1_def b_def by (cases "cb_read q < m") (simp_all only: if_True if_False)
  have "drop (nat m) (cb_held q) = drop (nat n) (cb_held q)" by (auto simp: m_def min_def length_cb_held)
  then show "cb_held (cb_consume n q) = drop (nat n) (cb_held q)" by (simp add: c h)
  have "cb_read q1 = (if cb_read q < m then 0 else cb_read q - m)"
    using g' by (auto simp: q1_def cb_read_def)
  then show "cb_pending (cb_consume n q) = drop (nat n - nat (cb_read q)) (cb_pending q)"
    using rb m n by (auto simp: c cb_pending_def h m_def min_def length_cb_held nat_diff_distrib)
  show "buf_size (cb_consume n q) = buf_size q" by (simp add: c q1_def)
qed

text \<open>A position is accepted exactly when it lies inside the bytes held, and then becomes the read position.\<close>

lemma cb_seekpos_spec:
  assumes inv: "cb_inv q"
  shows "if (pos - bgn q) mod buf_size q \<le> cb_size q
    then fst (cb_seekpos pos q) = pos mod buf_size q \<and> cb_inv (snd (cb_seekpos pos q)) \<and>
      cb_held (snd (cb_seekpos pos q)) = cb_held q \<and>
      cb_pending (snd (cb_seekpos pos q)) = drop (nat ((pos - bgn q) mod buf_size q)) (cb_held q)
    else cb_seekpos pos q = (- 1, q)"
proof -
  define g where "g = pos mod buf_size q"
  define ppos where "ppos = pptr q mod buf_size q"
  have N: "0 < buf_size q" using cb_inv_pos[OF inv] by simp
  have rng: "0 \<le> bgn q" "bgn q < buf_size q" "0 \<le> g" "g < buf_size q" "0 \<le> ppos" "ppos < buf_size q"
    using N inv by (simp_all add: g_def ppos_def) (simp_all add: cb_inv_def)
  have e: "(pos - bgn q) mod buf_size q = (g - bgn q) mod buf_size q" "cb_size q = (ppos - bgn q) mod buf_size q"
    by (simp_all add: g_def ppos_def mod_diff_left_eq cb_size_mod[OF inv])
  have w: "(g - bgn q) mod buf_size q \<le> cb_size q \<longleftrightarrow> (ppos \<ge> bgn q \<and> (g \<ge> bgn q \<and> g \<le> ppos))
      \<or> (ppos < bgn q \<and> (g \<ge> bgn q \<or> g \<le> ppos))"
    using ring_window[OF rng] e(2) by simp
  have s: "cb_seekpos pos q = (if (g - bgn q) mod buf_size q \<le> cb_size q
      then (g, cb_setg g (if g \<le> ppos then ppos else buf_size q) q) else (- 1, q))"
    unfolding cb_seekpos_def Let_def and_mask_mod[OF inv] g_def[symmetric] ppos_def[symmetric] w by auto
  show ?thesis
  proof (cases "(g - bgn q) mod buf_size q \<le> cb_size q")
    case True
    note f = cb_setg_inv[OF inv rng(3,4) True, folded ppos_def]
    show ?thesis unfolding e(1) s cb_pending_def
      using True by (simp only: if_True fst_conv snd_conv f) (simp add: g_def)
  next
    case False
    then show ?thesis unfolding e(1) s by simp
  qed
qed

section \<open>The constructor\<close>

lemma unat_p2: "j < 64 \<Longrightarrow> unat (2 ^ j :: u64) = 2 ^ j"
  using unat_of_nat[of "2 ^ j", where ?'a = 64] power_strict_increasing[of j 64 "2 :: nat"]
  by (simp add: take_bit_nat_eq_self)

lemma grow_loop_pow:
  "\<lbrakk>j \<le> k; k \<le> 63; unat maximum_size \<le> 2 ^ k\<rbrakk> \<Longrightarrow>
   \<exists>m. grow_loop maximum_size (2 ^ j) = Some (2 ^ m) \<and> j \<le> m \<and> m \<le> k \<and> unat maximum_size \<le> 2 ^ m \<and> (m = j \<or> 2 ^ (m - 1) < unat maximum_size)"
proof (induction "k - j" arbitrary: j)
  case 0
  then have "unat (2 ^ j :: u64) = 2 ^ j" "j = k" by (simp_all add: unat_p2)
  then show ?case using 0 by (subst grow_loop.simps) (auto simp: word_less_nat_alt)
next
  case (Suc d)
  then have u: "unat (2 ^ j :: u64) = 2 ^ j" by (simp add: unat_p2)
  show ?case
  proof (cases "(2 :: u64) ^ j < maximum_size")
    case True
    have "push_bit 1 (2 ^ j :: u64) = 2 ^ Suc j" by (simp add: push_bit_eq_mult)
    then have e: "grow_loop maximum_size (2 ^ j) = grow_loop maximum_size (2 ^ Suc j)"
      using True by (subst grow_loop.simps) (simp add: mult.commute)
    have j: "d = k - Suc j" "Suc j \<le> k" using Suc.hyps(2) by simp_all
    obtain m where m: "grow_loop maximum_size (2 ^ Suc j) = Some (2 ^ m)" "Suc j \<le> m" "m \<le> k" "unat maximum_size \<le> 2 ^ m"
        "m = Suc j \<or> 2 ^ (m - 1) < unat maximum_size"
      using Suc.hyps(1)[OF j Suc.prems(2,3)] by blast
    have "2 ^ (m - 1) < unat maximum_size" using m(5) True u by (auto simp: word_less_nat_alt)
    then show ?thesis unfolding e using m by (intro exI[of _ m]) simp
  next
    case False
    then show ?thesis using u Suc.prems
      by (subst grow_loop.simps) (auto simp: word_less_nat_alt intro!: exI[of _ j])
  qed
qed

text \<open>Above \<open>2 ^ 63\<close> the loop does not end: it only returns a power of two or 0, none of which is large enough.\<close>

lemma grow_loop_result:
  assumes "grow_loop maximum_size sz = Some r"
  shows "\<not> r < maximum_size \<and> (\<exists>d. r = push_bit d sz)"
  using _ assms
proof (rule grow_loop.raw_induct)
  fix f maximum_size sz r
  assume IH: "\<And>m x y. f m x = Some y \<Longrightarrow> \<not> y < m \<and> (\<exists>d. y = push_bit d x)"
    and f: "(if sz < maximum_size then f maximum_size (push_bit 1 sz) else Some sz) = Some r"
  show "\<not> r < maximum_size \<and> (\<exists>d. r = push_bit d sz)"
  proof (cases "sz < maximum_size")
    case True
    then obtain d where "\<not> r < maximum_size" "r = push_bit d (push_bit 1 sz)" using IH[of maximum_size "push_bit 1 sz" r] f by auto
    then show ?thesis by (metis push_bit_push_bit)
  next
    case False
    then show ?thesis using f by (auto intro: exI[of _ 0])
  qed
qed

lemma grow_loop_diverges:
  assumes "2 ^ 63 < unat maximum_size"
  shows "grow_loop maximum_size 8 = None"
proof (rule ccontr)
  assume "grow_loop maximum_size 8 \<noteq> None"
  then obtain r d where r: "\<not> r < maximum_size" "r = push_bit d (8 :: u64)" using grow_loop_result by blast
  have "r = 2 ^ (d + 3)" unfolding r(2) by (simp add: push_bit_eq_mult power_add)
  moreover have "(2 :: u64) ^ (d + 3) = 0" if "64 \<le> d + 3" by (rule exp_eq_zero_iff[THEN iffD2]) (use that in simp)
  ultimately have "unat r \<le> 2 ^ 63"
    using unat_p2[of "d + 3"] power_increasing[of "d + 3" 63 "2 :: nat"] by (cases "d + 3 < 64") auto
  then show False using r(1) assms by (simp add: word_less_nat_alt)
qed

lemma cb_new_spec:
  assumes "unat maximum_size \<le> 2 ^ 62"
  shows "\<exists>q. cb_new maximum_size = Some (Inr q) \<and> cb_inv q \<and> cb_held q = [] \<and> cb_pending q = [] \<and>
    (\<exists>m. buf_size q = 2 ^ m \<and> 3 \<le> m \<and> unat maximum_size \<le> 2 ^ m \<and> (m = 3 \<or> 2 ^ (m - 1) < unat maximum_size))"
proof -
  obtain m where m: "grow_loop maximum_size (2 ^ 3) = Some (2 ^ m)" "3 \<le> m" "m \<le> 62" "unat maximum_size \<le> 2 ^ m"
      "m = 3 \<or> 2 ^ (m - 1) < unat maximum_size"
    using grow_loop_pow[of 3 62 maximum_size] assms by auto
  have u: "unat (2 ^ m :: u64) = 2 ^ m" using m by (simp add: unat_p2)
  then have ui: "uint (2 ^ m :: u64) = 2 ^ m" by (simp only: uint_nat u of_nat_power of_nat_numeral)
  have "unat (2 ^ m :: u64) \<le> 2 ^ 62" unfolding u using m(3) by (intro power_increasing) auto
  then have small: "\<not> vector_max_size < 2 ^ m" by (simp add: word_less_nat_alt vector_max_size_def)
  have "(2 :: int) ^ 3 \<le> 2 ^ m" using m by (intro power_increasing) auto
  then have e: "(8 :: int) \<le> 2 ^ m" by simp
  define q where "q = \<lparr>buf_size = 2 ^ m, size_mask = 2 ^ m - 1, bgn = 0, cbuffer = replicate (2 ^ m) 0,
      gptr = 0, egptr = 0, pptr = 0, epptr = 2 ^ m - 1 :: int\<rparr>"
  have c: "cb_new maximum_size = Some (Inr q)" using m small by (simp add: cb_new_def q_def u ui)
  have i: "cb_inv q" using e by (auto simp: cb_inv_def q_def cb_read_def nat_power_eq)
  have "cb_held q = []" using cb_size_mod[OF i] by (simp add: cb_held_def) (simp add: q_def)
  moreover have "buf_size q = 2 ^ m" by (simp add: q_def)
  ultimately show ?thesis using c i m(2,4,5) by (auto simp: cb_pending_def)
qed

lemma cb_new_too_long:
  assumes "2 ^ 62 < unat maximum_size" "unat maximum_size \<le> 2 ^ 63"
  shows "cb_new maximum_size = Some (Inl Length_Error)"
proof -
  obtain m where m: "grow_loop maximum_size (2 ^ 3) = Some (2 ^ m)" "m \<le> 63" "unat maximum_size \<le> 2 ^ m"
    using grow_loop_pow[of 3 63 maximum_size] assms by auto
  have "2 ^ 62 < (2 :: nat) ^ m" using assms(1) m(3) by (rule less_le_trans)
  then have "m = 63" using m(2) power_less_imp_less_exp[of "2 :: nat" 62 m] by simp
  then show ?thesis using m(1) by (simp add: cb_new_def vector_max_size_def)
qed

section \<open>The contract of a bounded, re-readable queue\<close>

fun put_bytes :: "('q \<Rightarrow> u8 \<Rightarrow> bool \<times> 'q) \<Rightarrow> 'q \<Rightarrow> bytes \<Rightarrow> bool \<times> 'q" where
  "put_bytes put q [] = (True, q)"
| "put_bytes put q (c # cs) = (case put q c of (True, q') \<Rightarrow> put_bytes put q' cs | (False, q') \<Rightarrow> (False, q'))"

fun get_bytes :: "('q \<Rightarrow> u8 option \<times> 'q) \<Rightarrow> 'q \<Rightarrow> nat \<Rightarrow> bytes \<times> 'q" where
  "get_bytes get q 0 = ([], q)"
| "get_bytes get q (Suc n) = (case get q of
     (None, q') \<Rightarrow> ([], q')
   | (Some c, q') \<Rightarrow> (let (cs, q'') = get_bytes get q' n in (c # cs, q'')))"

locale byte_queue =
  fixes inv :: "'q \<Rightarrow> bool" and held pending :: "'q \<Rightarrow> bytes" and cap :: "'q \<Rightarrow> int"
    and put :: "'q \<Rightarrow> u8 \<Rightarrow> bool \<times> 'q" and get :: "'q \<Rightarrow> u8 option \<times> 'q"
  assumes put_room: "\<lbrakk>inv q; int (length (held q)) < cap q\<rbrakk> \<Longrightarrow>
      \<exists>q'. put q c = (True, q') \<and> inv q' \<and> held q' = held q @ [c] \<and> pending q' = pending q @ [c] \<and> cap q' = cap q"
    and put_full: "\<lbrakk>inv q; int (length (held q)) = cap q\<rbrakk> \<Longrightarrow> put q c = (False, q)"
    and get_some: "\<lbrakk>inv q; pending q = c # r\<rbrakk> \<Longrightarrow>
      \<exists>q'. get q = (Some c, q') \<and> inv q' \<and> held q' = held q \<and> pending q' = r \<and> cap q' = cap q"
    and get_none: "\<lbrakk>inv q; pending q = []\<rbrakk> \<Longrightarrow> get q = (None, q)"
begin

lemma put_bytes_room:
  "\<lbrakk>inv q; int (length (held q) + length cs) \<le> cap q\<rbrakk> \<Longrightarrow>
   \<exists>q'. put_bytes put q cs = (True, q') \<and> inv q' \<and> held q' = held q @ cs \<and> pending q' = pending q @ cs \<and> cap q' = cap q"
proof (induction cs arbitrary: q)
  case (Cons c cs)
  obtain q1 where "put q c = (True, q1)" "inv q1" "held q1 = held q @ [c]" "pending q1 = pending q @ [c]" "cap q1 = cap q"
    using put_room[of q c] Cons.prems by auto
  then show ?case using Cons.IH[of q1] Cons.prems by auto
qed simp

lemma get_bytes_pending:
  "inv q \<Longrightarrow> \<exists>q'. get_bytes get q n = (take n (pending q), q') \<and> inv q' \<and> held q' = held q \<and>
     pending q' = drop n (pending q) \<and> cap q' = cap q"
proof (induction n arbitrary: q)
  case (Suc n)
  show ?case
  proof (cases "pending q")
    case Nil
    then show ?thesis using Suc.prems get_none[of q] by simp
  next
    case (Cons c r)
    obtain q1 where q1: "get q = (Some c, q1)" "inv q1" "held q1 = held q" "pending q1 = r" "cap q1 = cap q"
      using get_some[OF Suc.prems Cons] by blast
    then show ?thesis using Suc.IH[of q1] Cons by auto
  qed
qed simp

lemma write_then_read:
  assumes "inv q" "pending q = []" "int (length (held q) + length cs) \<le> cap q"
  shows "fst (put_bytes put q cs) \<and> fst (get_bytes get (snd (put_bytes put q cs)) (length cs)) = cs"
proof -
  obtain q1 where q1: "put_bytes put q cs = (True, q1)" "inv q1" "pending q1 = cs"
    using put_bytes_room[OF assms(1,3)] assms(2) by auto
  then show ?thesis using get_bytes_pending[of q1 "length cs"] by auto
qed

end

interpretation cbq: byte_queue cb_inv cb_held cb_pending "\<lambda>q. buf_size q - 1" cb_sputc cb_sbumpc
proof
  show "\<exists>q'. cb_sputc q c = (True, q') \<and> cb_inv q' \<and> cb_held q' = cb_held q @ [c] \<and> cb_pending q' = cb_pending q @ [c] \<and>
      buf_size q' - 1 = buf_size q - 1" if "cb_inv q" "int (length (cb_held q)) < buf_size q - 1" for q c
    using cb_sputc_room[OF that] by auto
  show "\<exists>q'. cb_sbumpc q = (Some c, q') \<and> cb_inv q' \<and> cb_held q' = cb_held q \<and> cb_pending q' = r \<and>
      buf_size q' - 1 = buf_size q - 1" if "cb_inv q" "cb_pending q = c # r" for q c r
    using cb_sbumpc_some[OF that] by auto
qed (simp_all add: cb_sputc_full cb_sbumpc_none)

section \<open>Properties\<close>

text \<open>
  (C9) The ring buffer refines a queue that holds at most \<^verbatim>\<open>buf_size_ - 1\<close> bytes: writing a string that
  fits appends it, writing to a full buffer fails and changes nothing, reading returns the bytes in the order
  they were written without dropping them, and \<^verbatim>\<open>consume\<close> drops from the front. The invariant on the six
  pointers is kept by every operation, wrap-around included.
\<close>

theorem circularbuf_refines_queue:
  assumes "cb_inv q"
  shows "(int (length (cb_held q) + length cs) \<le> buf_size q - 1 \<longrightarrow>
      (\<exists>q'. put_bytes cb_sputc q cs = (True, q') \<and> cb_inv q' \<and> cb_held q' = cb_held q @ cs \<and>
        cb_pending q' = cb_pending q @ cs)) \<and>
    (int (length (cb_held q)) = buf_size q - 1 \<longrightarrow> cb_sputc q c = (False, q)) \<and>
    (\<exists>q'. get_bytes cb_sbumpc q n = (take n (cb_pending q), q') \<and> cb_inv q' \<and> cb_held q' = cb_held q \<and>
      cb_pending q' = drop n (cb_pending q)) \<and>
    cb_inv (cb_consume (int n) q) \<and> cb_held (cb_consume (int n) q) = drop n (cb_held q)"
  using cbq.put_bytes_room[OF assms, of cs] cb_sputc_full[OF assms, of c] cbq.get_bytes_pending[OF assms, of n]
    cb_consume_spec(1,2)[OF assms, of "int n"]
  by auto

theorem circularbuf_refines_queue_witness:
  "\<exists>q. cb_new 16 = Some (Inr q) \<and> (\<exists>q'. put_bytes cb_sputc q [1, 2, 3] = (True, q') \<and> cb_held q' = [1, 2, 3])"
proof -
  obtain q m where q: "cb_new 16 = Some (Inr q)" "cb_inv q" "cb_held q = []" "buf_size q = 2 ^ m" "16 \<le> (2 :: nat) ^ m"
    using cb_new_spec[of 16] by auto
  have "int 16 \<le> int (2 ^ m)" using q(5) by (simp only: of_nat_le_iff)
  then have "16 \<le> buf_size q" using q(4) by simp
  then show ?thesis using circularbuf_refines_queue[OF q(2), of "[1, 2, 3]"] q(1,3) by auto
qed

text \<open>
  (C30) The constructor, for every maximum. Up to \<open>2 ^ 62\<close> it returns an empty buffer, given that the memory is there, whose size
  is the least power of two that is at least 8 and at least the maximum. From there to \<open>2 ^ 63\<close> its loop ends with a size the
  vector refuses, and it throws. Above \<open>2 ^ 63\<close> the doubled size wraps to 0 and the loop never ends.
\<close>

theorem circularbuf_new_returns:
  "(unat maximum_size \<le> 2 ^ 62 \<longrightarrow> (\<exists>q. cb_new maximum_size = Some (Inr q) \<and> cb_inv q \<and> cb_held q = [] \<and> cb_pending q = [] \<and>
      (\<exists>m. buf_size q = 2 ^ m \<and> 3 \<le> m \<and> unat maximum_size \<le> 2 ^ m \<and> (m = 3 \<or> 2 ^ (m - 1) < unat maximum_size)))) \<and>
   (2 ^ 62 < unat maximum_size \<and> unat maximum_size \<le> 2 ^ 63 \<longrightarrow> cb_new maximum_size = Some (Inl Length_Error)) \<and>
   (2 ^ 63 < unat maximum_size \<longrightarrow> cb_new maximum_size = None)"
  using cb_new_spec[of maximum_size] cb_new_too_long[of maximum_size] grow_loop_diverges[of maximum_size]
  by (auto simp: cb_new_def)

theorem circularbuf_new_returns_witness:
  "(\<exists>q. cb_new 4096 = Some (Inr q) \<and> cb_inv q \<and> cb_held q = []) \<and> cb_new (2 ^ 62 + 1) = Some (Inl Length_Error) \<and> cb_new (2 ^ 63 + 1) = None"
  using circularbuf_new_returns[of 4096] circularbuf_new_returns[of "2 ^ 62 + 1"] circularbuf_new_returns[of "2 ^ 63 + 1"] by auto

end
