(* ===== verification/MerkleTree.thy ===== *)
theory MerkleTree
  imports HA_Prelude
begin

text \<open>
  \<^verbatim>\<open>CMerkleTree\<close> of \<^verbatim>\<open>src/src/hnbase/structure/merkletree.h\<close>. The hash of two nodes,
  \<^verbatim>\<open>CryptoHash\<close>, is the parameter \<open>H\<close> of every definition; the theorems that need more of it name the
  property they use. The vector of the tree is a list to which the layers are appended from the leaves up.
\<close>

section \<open>Building the tree\<close>

text \<open>The inner loop, for the even \<open>i\<close> below \<^verbatim>\<open>nSize\<close>.\<close>

fun layer_loop :: "('h \<Rightarrow> 'h \<Rightarrow> 'h) \<Rightarrow> nat \<Rightarrow> nat \<Rightarrow> nat list \<Rightarrow> 'h list \<Rightarrow> 'h list" where
  "layer_loop H nLayerHeadIndex nSize [] t = t"
| "layer_loop H nLayerHeadIndex nSize (i # is) t =
     (let i2 = min (i + 1) (nSize - 1)
      in layer_loop H nLayerHeadIndex nSize is (t @ [H (t ! (nLayerHeadIndex + i)) (t ! (nLayerHeadIndex + i2))]))"

definition evens :: "nat \<Rightarrow> nat list" where
  "evens n = map (\<lambda>i. 2 * i) [0..<(n + 1) div 2]"

function build_loop :: "('h \<Rightarrow> 'h \<Rightarrow> 'h) \<Rightarrow> nat \<Rightarrow> nat \<Rightarrow> 'h list \<Rightarrow> 'h list" where
  "build_loop H nLayerHeadIndex nSize t =
     (if nSize > 1
      then build_loop H (nLayerHeadIndex + nSize) ((nSize + 1) div 2) (layer_loop H nLayerHeadIndex nSize (evens nSize) t)
      else t)"
  by pat_completeness auto
termination by (relation "measure (\<lambda>(H, k, n, t). n)") auto

declare build_loop.simps [simp del]

text \<open>The tree left in the argument, and the root that is returned; \<open>zero\<close> is \<^verbatim>\<open>uint64(0)\<close> as a hash.\<close>

definition BuildMerkleTree :: "('h \<Rightarrow> 'h \<Rightarrow> 'h) \<Rightarrow> 'h \<Rightarrow> 'h list \<Rightarrow> 'h list \<times> 'h" where
  "BuildMerkleTree H zero v = (let t = build_loop H 0 (length v) v in (t, if t = [] then zero else last t))"

definition CalcMerkleTreeRoot :: "('h \<Rightarrow> 'h \<Rightarrow> 'h) \<Rightarrow> 'h \<Rightarrow> 'h list \<Rightarrow> 'h" where
  "CalcMerkleTreeRoot H zero vLeafHash = snd (BuildMerkleTree H zero vLeafHash)"

section \<open>Proofs of membership\<close>

datatype prove_side = PD_LEFT | PD_RIGHT

type_synonym 'h merkle_prove = "(prove_side \<times> 'h) list"

function prove_loop :: "'h list \<Rightarrow> nat \<Rightarrow> nat \<Rightarrow> nat \<Rightarrow> 'h merkle_prove \<Rightarrow> bool \<times> 'h merkle_prove" where
  "prove_loop t nLayerHeadIndex nIndex nSize pv =
     (if nSize > 1 then
        (if nLayerHeadIndex + nSize > length t then (False, pv)
         else let e = (if nIndex mod 2 = 0
                       then (if nIndex \<ge> nSize - 1 then (PD_RIGHT, t ! (nLayerHeadIndex + nIndex))
                             else (PD_RIGHT, t ! (nLayerHeadIndex + nIndex + 1)))
                       else (PD_LEFT, t ! (nLayerHeadIndex + nIndex - 1)))
              in prove_loop t (nLayerHeadIndex + nSize) (nIndex div 2) ((nSize + 1) div 2) (pv @ [e]))
      else (True, pv))"
  by pat_completeness auto
termination by (relation "measure (\<lambda>(t, k, i, n, pv). n)") auto

declare prove_loop.simps [simp del]

definition BuildMerkleProve :: "nat \<Rightarrow> 'h list \<Rightarrow> nat \<Rightarrow> 'h merkle_prove \<Rightarrow> bool \<times> 'h merkle_prove" where
  "BuildMerkleProve nLeafIndex t nLeafCount pv =
     (if nLeafIndex \<ge> nLeafCount then (False, pv) else prove_loop t 0 nLeafIndex nLeafCount pv)"

fun find_leaf :: "'h \<Rightarrow> 'h list \<Rightarrow> nat \<Rightarrow> nat \<Rightarrow> nat" where
  "find_leaf h t i 0 = i"
| "find_leaf h t i (Suc k) = (if t ! i = h then i else find_leaf h t (Suc i) k)"

definition BuildMerkleProveHash :: "'h \<Rightarrow> 'h list \<Rightarrow> nat \<Rightarrow> 'h merkle_prove \<Rightarrow> bool \<times> 'h merkle_prove" where
  "BuildMerkleProveHash hashLeaf t nLeafCount pv =
     (if length t < nLeafCount then (False, pv)
      else let nLeafIndex = find_leaf hashLeaf t 0 nLeafCount
           in if nLeafIndex = nLeafCount then (False, pv) else BuildMerkleProve nLeafIndex t nLeafCount pv)"

definition GetMerkleRootByProve :: "('h \<Rightarrow> 'h \<Rightarrow> 'h) \<Rightarrow> 'h merkle_prove \<Rightarrow> 'h \<Rightarrow> 'h" where
  "GetMerkleRootByProve H pv hashVerify =
     fold (\<lambda>(side, h) node. if side = PD_LEFT then H h node else H node h) pv hashVerify"

definition VerifyMerkleProve :: "('h \<Rightarrow> 'h \<Rightarrow> 'h) \<Rightarrow> 'h \<Rightarrow> 'h merkle_prove \<Rightarrow> 'h \<Rightarrow> bool" where
  "VerifyMerkleProve H root pv hashVerify = (root = GetMerkleRootByProve H pv hashVerify)"

section \<open>Layer by layer\<close>

text \<open>The layer above, and the layers of the tree one after the other.\<close>

definition up :: "('h \<Rightarrow> 'h \<Rightarrow> 'h) \<Rightarrow> 'h list \<Rightarrow> 'h list" where
  "up H xs = map (\<lambda>i. H (xs ! (2 * i)) (xs ! min (2 * i + 1) (length xs - 1))) [0..<(length xs + 1) div 2]"

function layers :: "('h \<Rightarrow> 'h \<Rightarrow> 'h) \<Rightarrow> 'h list \<Rightarrow> 'h list" where
  "layers H xs = (if length xs > 1 then xs @ layers H (up H xs) else xs)"
  by pat_completeness auto
termination by (relation "measure (\<lambda>(H, xs). length xs)") (auto simp: up_def)

declare layers.simps [simp del]

function merkle_root :: "('h \<Rightarrow> 'h \<Rightarrow> 'h) \<Rightarrow> 'h list \<Rightarrow> 'h" where
  "merkle_root H xs = (if length xs > 1 then merkle_root H (up H xs) else hd xs)"
  by pat_completeness auto
termination by (relation "measure (\<lambda>(H, xs). length xs)") (auto simp: up_def)

declare merkle_root.simps [simp del]

lemma length_up [simp]: "length (up H xs) = (length xs + 1) div 2"
  by (simp add: up_def)

lemma up_nonempty: "xs \<noteq> [] \<Longrightarrow> up H xs \<noteq> []"
  by (cases xs) (auto simp: up_def)

lemma layer_loop_map:
  "\<forall>i \<in> set is. i < n \<Longrightarrow> layer_loop H (length pre) n is (pre @ xs @ ys) =
     pre @ xs @ ys @ map (\<lambda>i. H (xs ! i) (xs ! min (i + 1) (n - 1))) is" if "length xs = n"
proof (induction "is" arbitrary: ys)
  case (Cons i "is")
  have i: "i < length xs" "min (i + 1) (n - 1) < length xs" using Cons.prems that by auto
  then have "(pre @ xs @ ys) ! (length pre + i) = xs ! i"
    "(pre @ xs @ ys) ! (length pre + min (i + 1) (n - 1)) = xs ! min (i + 1) (n - 1)"
    by (simp_all add: nth_append)
  then show ?case using Cons by (simp add: Let_def)
qed simp

lemma evens_less: "i \<in> set (evens n) \<Longrightarrow> i < n"
  by (auto simp: evens_def)

lemma layer_loop_up:
  "layer_loop H (length pre) (length xs) (evens (length xs)) (pre @ xs) = pre @ xs @ up H xs"
proof -
  have "layer_loop H (length pre) (length xs) (evens (length xs)) (pre @ xs @ []) =
      pre @ xs @ [] @ map (\<lambda>i. H (xs ! i) (xs ! min (i + 1) (length xs - 1))) (evens (length xs))"
    by (rule layer_loop_map) (auto dest: evens_less)
  then show ?thesis by (simp add: evens_def up_def comp_def)
qed

lemma build_loop_layers: "build_loop H (length pre) (length xs) (pre @ xs) = pre @ layers H xs"
proof (induction H xs arbitrary: pre rule: layers.induct)
  case (1 H xs)
  show ?case
  proof (cases "length xs > 1")
    case True
    have "build_loop H (length (pre @ xs)) (length (up H xs)) ((pre @ xs) @ up H xs) = (pre @ xs) @ layers H (up H xs)"
      using 1 True by blast
    then show ?thesis using True layer_loop_up[of H pre xs]
      by (subst build_loop.simps, subst layers.simps) simp
  next
    case False
    then show ?thesis by (subst build_loop.simps, subst layers.simps) simp
  qed
qed

lemma layers_last: "xs \<noteq> [] \<Longrightarrow> layers H xs \<noteq> [] \<and> last (layers H xs) = merkle_root H xs"
proof (induction H xs rule: layers.induct)
  case (1 H xs)
  show ?case
  proof (cases "length xs > 1")
    case True
    then have "up H xs \<noteq> []" using 1 up_nonempty[of xs H] by blast
    then have IH: "layers H (up H xs) \<noteq> [] \<and> last (layers H (up H xs)) = merkle_root H (up H xs)"
      using 1(1)[OF True] by blast
    have "layers H xs = xs @ layers H (up H xs)" using True by (subst layers.simps) simp
    moreover have "merkle_root H xs = merkle_root H (up H xs)" using True by (subst merkle_root.simps) simp
    ultimately show ?thesis using IH by simp
  next
    case False
    then obtain x where x: "xs = [x]" using 1(2) by (cases xs) auto
    have "layers H [x] = [x]" "merkle_root H [x] = x"
      by (subst layers.simps, simp) (subst merkle_root.simps, simp)
    then show ?thesis by (simp add: x)
  qed
qed

lemma layers_prefix: "\<exists>r. layers H xs = xs @ r"
  by (subst layers.simps) simp

section \<open>Membership proofs verify\<close>

definition sibling :: "'h list \<Rightarrow> nat \<Rightarrow> prove_side \<times> 'h" where
  "sibling xs i = (if i mod 2 = 0 then (PD_RIGHT, if i \<ge> length xs - 1 then xs ! i else xs ! (i + 1))
     else (PD_LEFT, xs ! (i - 1)))"

function path :: "('h \<Rightarrow> 'h \<Rightarrow> 'h) \<Rightarrow> 'h list \<Rightarrow> nat \<Rightarrow> 'h merkle_prove" where
  "path H xs i = (if length xs > 1 then sibling xs i # path H (up H xs) (i div 2) else [])"
  by pat_completeness auto
termination by (relation "measure (\<lambda>(H, xs, i). length xs)") auto

declare path.simps [simp del]

definition combine :: "('h \<Rightarrow> 'h \<Rightarrow> 'h) \<Rightarrow> prove_side \<times> 'h \<Rightarrow> 'h \<Rightarrow> 'h" where
  "combine H e node = (if fst e = PD_LEFT then H (snd e) node else H node (snd e))"

lemma GetMerkleRootByProve_combine: "GetMerkleRootByProve H pv h = fold (combine H) pv h"
proof -
  have "(\<lambda>(side, h) node. if side = PD_LEFT then H h node else H node h) = combine H"
    by (auto simp: combine_def fun_eq_iff)
  then show ?thesis by (simp add: GetMerkleRootByProve_def)
qed

lemma combine_sibling:
  assumes "i < length xs" "1 < length xs"
  shows "combine H (sibling xs i) (xs ! i) = up H xs ! (i div 2)" "i div 2 < length (up H xs)"
proof -
  show l: "i div 2 < length (up H xs)" using assms by simp
  have u: "up H xs ! (i div 2) = H (xs ! (2 * (i div 2))) (xs ! min (2 * (i div 2) + 1) (length xs - 1))"
    using l by (simp add: up_def)
  show "combine H (sibling xs i) (xs ! i) = up H xs ! (i div 2)"
  proof (cases "i mod 2 = 0")
    case True
    then have i: "2 * (i div 2) = i" by auto
    have "length xs - 1 = i" if "i \<ge> length xs - 1" using that assms by linarith
    then show ?thesis using True assms unfolding u i by (auto simp: combine_def sibling_def min_def)
  next
    case False
    then have i: "2 * (i div 2) = i - 1" "2 * (i div 2) + 1 = i" by presburger+
    have "min i (length xs - 1) = i" using assms by simp
    then show ?thesis using False assms unfolding u i by (simp add: combine_def sibling_def)
  qed
qed

lemma path_root:
  "i < length xs \<Longrightarrow> fold (combine H) (path H xs i) (xs ! i) = merkle_root H xs"
proof (induction H xs i rule: path.induct)
  case (1 H xs i)
  show ?case
  proof (cases "length xs > 1")
    case True
    then show ?thesis
      using 1(1)[OF True] combine_sibling[OF 1(2) True, of H]
      by (subst path.simps, subst merkle_root.simps) simp
  next
    case False
    then obtain x where "xs = [x]" using 1(2) by (cases xs) auto
    then show ?thesis using 1(2) by (subst path.simps, subst merkle_root.simps) simp
  qed
qed

lemma sibling_nth:
  assumes "t = pre @ xs @ post" "i < length xs" "1 < length xs"
  shows "(if i mod 2 = 0 then (if i \<ge> length xs - 1 then (PD_RIGHT, t ! (length pre + i)) else (PD_RIGHT, t ! (length pre + i + 1)))
     else (PD_LEFT, t ! (length pre + i - 1))) = sibling xs i"
proof -
  have nth: "t ! (length pre + j) = xs ! j" if "j < length xs" for j using that assms(1) by (simp add: nth_append)
  have "t ! (length pre + i - 1) = xs ! (i - 1)" if "i mod 2 \<noteq> 0"
    using nth[of "i - 1"] assms(2) that by (cases i) auto
  then show ?thesis using nth[of i] nth[of "i + 1"] assms(2) by (auto simp: sibling_def)
qed

lemma prove_loop_path:
  "\<lbrakk>i < length xs; t = pre @ layers H xs\<rbrakk> \<Longrightarrow> prove_loop t (length pre) i (length xs) pv = (True, pv @ path H xs i)"
proof (induction H xs i arbitrary: pre pv rule: path.induct)
  case (1 H xs i)
  show ?case
  proof (cases "length xs > 1")
    case True
    have l: "layers H xs = xs @ layers H (up H xs)" using True by (subst layers.simps) simp
    have t: "t = pre @ xs @ layers H (up H xs)" using 1(3) l by simp
    have "prove_loop t (length (pre @ xs)) (i div 2) (length (up H xs)) (pv @ [sibling xs i]) =
        (True, (pv @ [sibling xs i]) @ path H (up H xs) (i div 2))"
      by (rule 1(1)[OF True]) (use combine_sibling(2)[OF 1(2) True] t in simp_all)
    then show ?thesis using True sibling_nth[OF t 1(2) True] t
      by (subst prove_loop.simps, subst path.simps) (simp add: Let_def)
  next
    case False
    then show ?thesis by (subst prove_loop.simps, subst path.simps) simp
  qed
qed

lemma BuildMerkleTree_layers:
  "v \<noteq> [] \<Longrightarrow> BuildMerkleTree H zero v = (layers H v, merkle_root H v)"
  using build_loop_layers[of H "[]" v] layers_last[of v H] by (simp add: BuildMerkleTree_def Let_def)

lemma find_leaf_least:
  "\<lbrakk>j < k; t ! (i + j) = h\<rbrakk> \<Longrightarrow> find_leaf h t i k < i + k \<and> t ! find_leaf h t i k = h"
proof (induction h t i k arbitrary: j rule: find_leaf.induct)
  case (2 h t i k)
  show ?case
  proof (cases "t ! i = h")
    case False
    then obtain j' where "j = Suc j'" using 2(3) by (cases j) auto
    then show ?thesis using 2(1)[OF False, of j'] 2(2,3) False by simp
  qed simp
qed simp

section \<open>Forged proofs need a collision\<close>

text \<open>The pairs that a verification hashes, one for each entry of the proof.\<close>

definition hashed_pair :: "prove_side \<times> 'h \<Rightarrow> 'h \<Rightarrow> 'h \<times> 'h" where
  "hashed_pair e node = (if fst e = PD_LEFT then (snd e, node) else (node, snd e))"

fun hashed_pairs :: "('h \<Rightarrow> 'h \<Rightarrow> 'h) \<Rightarrow> 'h merkle_prove \<Rightarrow> 'h \<Rightarrow> ('h \<times> 'h) list" where
  "hashed_pairs H [] node = []"
| "hashed_pairs H (e # pv) node = hashed_pair e node # hashed_pairs H pv (combine H e node)"

lemma combine_pair: "combine H e node = case_prod H (hashed_pair e node)"
  by (simp add: combine_def hashed_pair_def)

lemma hashed_pair_inj: "hashed_pair e h = hashed_pair e' h' \<Longrightarrow> fst e = fst e' \<Longrightarrow> e = e' \<and> h = h'"
  by (cases e; cases e') (auto simp: hashed_pair_def split: if_splits)

lemma fold_combine_inj:
  "\<lbrakk>fold (combine H) p h = fold (combine H) p' h'; map fst p = map fst p'\<rbrakk> \<Longrightarrow> (p = p' \<and> h = h') \<or>
   (\<exists>j < length p. hashed_pairs H p h ! j \<noteq> hashed_pairs H p' h' ! j \<and> case_prod H (hashed_pairs H p h ! j) = case_prod H (hashed_pairs H p' h' ! j))"
proof (induction p arbitrary: p' h h')
  case (Cons e p)
  then obtain e' q where p': "p' = e' # q" "fst e = fst e'" "map fst p = map fst q" by (cases p') auto
  let ?k = "combine H e h" and ?k' = "combine H e' h'"
  have "fold (combine H) p ?k = fold (combine H) q ?k'" using Cons.prems(1) p'(1) by simp
  from Cons.IH[OF this p'(3)] consider (eq) "p = q" "?k = ?k'"
    | (col) j where "j < length p" "hashed_pairs H p ?k ! j \<noteq> hashed_pairs H q ?k' ! j"
        "case_prod H (hashed_pairs H p ?k ! j) = case_prod H (hashed_pairs H q ?k' ! j)" by blast
  then show ?case
  proof cases
    case eq
    show ?thesis
    proof (cases "hashed_pair e h = hashed_pair e' h'")
      case True
      then show ?thesis using hashed_pair_inj[OF True p'(2)] eq(1) p'(1) by simp
    next
      case False
      then show ?thesis using eq(2) p'(1) unfolding combine_pair by (intro disjI2 exI[of _ 0]) simp
    qed
  next
    case col
    then show ?thesis using p'(1) by (intro disjI2 exI[of _ "Suc j"]) simp
  qed
qed simp

lemma up_snoc_last:
  assumes "odd (length xs)"
  shows "up H (xs @ [last xs]) = up H xs"
proof (rule nth_equalityI)
  obtain k where k: "length xs = 2 * k + 1" using assms by (rule oddE)
  show "length (up H (xs @ [last xs])) = length (up H xs)" using k by simp
  fix i assume "i < length (up H (xs @ [last xs]))"
  then have i: "i \<le> k" using k by simp
  have ne: "xs \<noteq> []" using k by auto
  show "up H (xs @ [last xs]) ! i = up H xs ! i"
  proof (cases "i = k")
    case True
    then show ?thesis using k ne by (simp add: up_def nth_append last_conv_nth)
  next
    case False
    then show ?thesis using k i by (simp add: up_def nth_append min_def)
  qed
qed

section \<open>Properties\<close>

text \<open>
  (C13) Completeness: for every leaf of a non-empty tree, \<^verbatim>\<open>BuildMerkleProve\<close> on the vector left by
  \<^verbatim>\<open>BuildMerkleTree\<close> succeeds, by index and by leaf hash, and \<^verbatim>\<open>VerifyMerkleProve\<close> accepts the result
  against the root that was returned, whatever the hash function.
\<close>

theorem merkle_prove_complete:
  assumes "i < length v"
  shows "\<exists>pv. BuildMerkleProve i (fst (BuildMerkleTree H zero v)) (length v) [] = (True, pv) \<and>
      VerifyMerkleProve H (CalcMerkleTreeRoot H zero v) pv (v ! i) \<and>
    (\<exists>pv'. BuildMerkleProveHash (v ! i) (fst (BuildMerkleTree H zero v)) (length v) [] = (True, pv') \<and>
      VerifyMerkleProve H (CalcMerkleTreeRoot H zero v) pv' (v ! i))"
proof -
  have ne: "v \<noteq> []" using assms by auto
  have b: "BuildMerkleTree H zero v = (layers H v, merkle_root H v)" using ne by (rule BuildMerkleTree_layers)
  obtain r where r: "layers H v = v @ r" using layers_prefix by blast
  have one: "BuildMerkleProve j (layers H v) (length v) [] = (True, path H v j) \<and>
      merkle_root H v = GetMerkleRootByProve H (path H v j) (v ! j)" if "j < length v" for j
    using that prove_loop_path[of j v "layers H v" "[]" H "[]"] path_root[of j v H]
    by (simp add: BuildMerkleProve_def GetMerkleRootByProve_combine)
  define j where "j = find_leaf (v ! i) (layers H v) 0 (length v)"
  have j: "j < length v" "v ! j = v ! i"
    using find_leaf_least[of i "length v" "layers H v" 0 "v ! i"] assms by (auto simp: j_def r nth_append split: if_splits)
  then have "BuildMerkleProveHash (v ! i) (layers H v) (length v) [] = (True, path H v j)"
    using one[OF j(1)] by (simp add: BuildMerkleProveHash_def Let_def j_def[symmetric]) (simp add: r)
  then show ?thesis
    using one[OF assms] one[OF j(1)] j by (simp add: b VerifyMerkleProve_def CalcMerkleTreeRoot_def)
qed

theorem merkle_prove_complete_witness:
  "\<exists>pv. BuildMerkleProve 2 (fst (BuildMerkleTree (\<lambda>a b. 3 * a + b) 0 [5, 6, 7 :: u256])) (length [5, 6, 7 :: u256]) [] = (True, pv)"
  using merkle_prove_complete[of 2 "[5, 6, 7 :: u256]" "\<lambda>a b. 3 * a + b" 0] by fastforce

text \<open>
  (C14) Soundness: a proof with the left and right turns of leaf \<open>i\<close> that \<^verbatim>\<open>VerifyMerkleProve\<close> accepts
  for some hash is the proof \<^verbatim>\<open>BuildMerkleProve\<close> makes and the hash is that leaf, or at one of its steps the
  verification hashed a pair of nodes that differs from the pair the built proof hashes at this step, with
  the same \<^verbatim>\<open>CryptoHash\<close>. The collision is one of the finitely many pairs these two verifications hash.
\<close>

theorem merkle_prove_sound:
  assumes "i < length v" "BuildMerkleProve i (fst (BuildMerkleTree H zero v)) (length v) [] = (True, pv)"
    and "map fst pv' = map fst pv" "VerifyMerkleProve H (CalcMerkleTreeRoot H zero v) pv' h"
  shows "(pv' = pv \<and> h = v ! i) \<or>
    (\<exists>j < length pv. hashed_pairs H pv' h ! j \<noteq> hashed_pairs H pv (v ! i) ! j \<and>
      case_prod H (hashed_pairs H pv' h ! j) = case_prod H (hashed_pairs H pv (v ! i) ! j))"
proof -
  have "v \<noteq> []" using assms(1) by auto
  then have b: "BuildMerkleTree H zero v = (layers H v, merkle_root H v)" by (rule BuildMerkleTree_layers)
  have pv: "pv = path H v i"
    using assms(1,2) prove_loop_path[of i v "layers H v" "[]" H "[]"] by (simp add: b BuildMerkleProve_def)
  have "fold (combine H) pv' h = fold (combine H) pv (v ! i)"
    using assms(4) path_root[OF assms(1), of H]
    by (simp add: VerifyMerkleProve_def CalcMerkleTreeRoot_def b GetMerkleRootByProve_combine pv)
  from fold_combine_inj[OF this assms(3)] show ?thesis using map_eq_imp_length_eq[OF assms(3)] by simp
qed

text \<open>With a weak hash a proof of another value for the second of three leaves is accepted, and the collision is found.\<close>

theorem merkle_prove_sound_witness:
  "BuildMerkleProve 1 (fst (BuildMerkleTree (\<lambda>a b. 3 * a + b) 0 [5, 6, 7 :: nat])) 3 [] = (True, [(PD_LEFT, 5), (PD_RIGHT, 28)]) \<and>
   VerifyMerkleProve (\<lambda>a b. 3 * a + b) (CalcMerkleTreeRoot (\<lambda>a b. 3 * a + b) 0 [5, 6, 7 :: nat]) [(PD_LEFT, 4), (PD_RIGHT, 28)] 9 \<and>
   (\<exists>j < 2. hashed_pairs (\<lambda>a b. 3 * a + b) [(PD_LEFT, 4), (PD_RIGHT, 28)] (9 :: nat) ! j \<noteq>
      hashed_pairs (\<lambda>a b. 3 * a + b) [(PD_LEFT, 5), (PD_RIGHT, 28)] 6 ! j)"
proof -
  let ?H = "\<lambda>a b :: nat. 3 * a + b"
  have b: "BuildMerkleProve 1 (fst (BuildMerkleTree ?H 0 [5, 6, 7])) 3 [] = (True, [(PD_LEFT, 5), (PD_RIGHT, 28)])" by code_simp
  have a: "VerifyMerkleProve ?H (CalcMerkleTreeRoot ?H 0 [5, 6, 7]) [(PD_LEFT, 4), (PD_RIGHT, 28)] 9" by code_simp
  let ?p = "[(PD_LEFT, 5), (PD_RIGHT, 28)] :: nat merkle_prove" and ?f = "[(PD_LEFT, 4), (PD_RIGHT, 28)] :: nat merkle_prove"
  have l: "length [5, 6, 7 :: nat] = 3" "length ?p = 2" "[5, 6, 7 :: nat] ! 1 = 6" "1 < length [5, 6, 7 :: nat]" "map fst ?f = map fst ?p" "?f \<noteq> ?p" by simp_all
  have "(?f = ?p \<and> 9 = [5, 6, 7 :: nat] ! 1) \<or> (\<exists>j < length ?p. hashed_pairs ?H ?f 9 ! j \<noteq> hashed_pairs ?H ?p ([5, 6, 7] ! 1) ! j \<and>
      case_prod ?H (hashed_pairs ?H ?f 9 ! j) = case_prod ?H (hashed_pairs ?H ?p ([5, 6, 7] ! 1) ! j))"
    by (rule merkle_prove_sound[OF l(4) _ l(5) a]) (simp only: l(1) b)
  then show ?thesis using a b l(6) unfolding l(2,3) by blast
qed

text \<open>The last node of an odd layer is paired with itself, so a list of leaves is not determined by its
  root: repeating the last of an odd number of leaves (more than one) gives the same root.
\<close>

theorem merkle_root_duplicate_last:
  assumes "odd (length v)" "1 < length v"
  shows "CalcMerkleTreeRoot H zero (v @ [last v]) = CalcMerkleTreeRoot H zero v"
proof -
  have v: "v \<noteq> []" using assms by auto
  then have "merkle_root H (v @ [last v]) = merkle_root H v"
    using assms up_snoc_last[OF assms(1), of H] by (subst (1 2) merkle_root.simps) simp
  then show ?thesis using v by (simp add: CalcMerkleTreeRoot_def BuildMerkleTree_layers)
qed

theorem merkle_root_duplicate_last_witness:
  "CalcMerkleTreeRoot (\<lambda>a b. 3 * a + b) 0 [1, 2, 3, 3 :: u256] = CalcMerkleTreeRoot (\<lambda>a b. 3 * a + b) 0 [1, 2, 3]"
  using merkle_root_duplicate_last[of "[1, 2, 3 :: u256]" "\<lambda>a b. 3 * a + b" 0] by simp

end
