(* ===== verification/DataSched.thy ===== *)
theory DataSched
  imports HA_Prelude
begin

text \<open>
  \<^verbatim>\<open>CDataScheduler\<close> of \<^verbatim>\<open>src/src/hnbase/peernet/datasched.h\<close>: which peers know which data, and which
  peer each piece is being fetched from. \<^verbatim>\<open>mapData[ident]\<close> creates an empty entry when there is none. The
  pointers of \<^verbatim>\<open>mapPeer\<close> are never null as long as they are looked up with \<^verbatim>\<open>find\<close>; the two operations
  that go through \<^verbatim>\<open>mapPeer[nonce]->\<close> return \<open>None\<close> when the entry is missing, where the code would follow
  a null pointer.
\<close>

section \<open>State and operations\<close>

record 'i data_peer =
  nNonce :: u64
  listDataIdent :: "'i list"
  fAssigned :: bool

record data_known =
  setKnownPeer :: "u64 list"
  nAssigned :: u64

record 'i data_sched =
  mapPeer :: "(u64 \<times> 'i data_peer) list"
  mapData :: "('i \<times> data_known) list"

definition dk_AddPeer :: "u64 \<Rightarrow> data_known \<Rightarrow> bool \<times> data_known" where
  "dk_AddPeer n k = (n \<notin> set (setKnownPeer k), k\<lparr>setKnownPeer := sins n (setKnownPeer k)\<rparr>)"

definition dk_RemovePeer :: "u64 \<Rightarrow> data_known \<Rightarrow> data_known" where
  "dk_RemovePeer n k = (let k1 = k\<lparr>setKnownPeer := sdel n (setKnownPeer k)\<rparr>
     in if nAssigned k1 = n then k1\<lparr>nAssigned := 0\<rparr> else k1)"

definition dk_IsAssigned :: "data_known \<Rightarrow> bool" where
  "dk_IsAssigned k = (nAssigned k \<noteq> 0)"

definition dk_Assign :: "u64 \<Rightarrow> data_known \<Rightarrow> bool \<times> data_known" where
  "dk_Assign n k = (if nAssigned k \<noteq> 0 \<and> nAssigned k \<noteq> n then (False, k) else (True, k\<lparr>nAssigned := n\<rparr>))"

definition dk_Unassign :: "data_known \<Rightarrow> u64 \<times> data_known" where
  "dk_Unassign k = (nAssigned k, k\<lparr>nAssigned := 0\<rparr>)"

definition data_at :: "('i \<times> data_known) list \<Rightarrow> 'i \<Rightarrow> data_known" where
  "data_at m i = (case map_of m i of Some k \<Rightarrow> k | None \<Rightarrow> \<lparr>setKnownPeer = [], nAssigned = 0\<rparr>)"

definition ds_GetPeer :: "u64 \<Rightarrow> 'i data_sched \<Rightarrow> 'i data_peer option" where
  "ds_GetPeer n d = map_of (mapPeer d) n"

definition ds_ActivatePeer :: "'i data_peer \<Rightarrow> 'i data_sched \<Rightarrow> 'i data_sched" where
  "ds_ActivatePeer r d = d\<lparr>mapPeer := mins (nNonce r) r (mapPeer d)\<rparr>"

definition ds_DeactivatePeer :: "u64 \<Rightarrow> 'i::linorder data_sched \<Rightarrow> 'i data_sched" where
  "ds_DeactivatePeer n d = (case map_of (mapPeer d) n of
     None \<Rightarrow> d
   | Some r \<Rightarrow> d\<lparr>mapData := fold (\<lambda>i m. mput i (dk_RemovePeer n (data_at m i)) m) (listDataIdent r) (mapData d),
                mapPeer := mdel n (mapPeer d)\<rparr>)"

definition ds_AddKnownData :: "u64 \<Rightarrow> 'i::linorder \<Rightarrow> 'i data_sched \<Rightarrow> 'i data_sched" where
  "ds_AddKnownData n i d = (case map_of (mapPeer d) n of
     None \<Rightarrow> d
   | Some r \<Rightarrow> (let (added, k) = dk_AddPeer n (data_at (mapData d) i); d1 = d\<lparr>mapData := mput i k (mapData d)\<rparr>
       in if added then d1\<lparr>mapPeer := mput n (r\<lparr>listDataIdent := listDataIdent r @ [i]\<rparr>) (mapPeer d1)\<rparr> else d1))"

text \<open>\<^verbatim>\<open>mapPeer[n]->...\<close>.\<close>

definition peer_deref :: "u64 \<Rightarrow> ('i data_peer \<Rightarrow> 'i data_peer) \<Rightarrow> (u64 \<times> 'i data_peer) list \<Rightarrow> (u64 \<times> 'i data_peer) list option" where
  "peer_deref n f m = map_option (\<lambda>r. mput n (f r) m) (map_of m n)"

fun forget_ident :: "'i \<Rightarrow> u64 list \<Rightarrow> (u64 \<times> 'i data_peer) list \<Rightarrow> (u64 \<times> 'i data_peer) list option" where
  "forget_ident i [] m = Some m"
| "forget_ident i (n # ns) m =
     Option.bind (peer_deref n (\<lambda>r. r\<lparr>listDataIdent := removeAll i (listDataIdent r)\<rparr>) m) (forget_ident i ns)"

definition ds_RemoveKnownData :: "'i \<Rightarrow> 'i data_sched \<Rightarrow> 'i data_sched option" where
  "ds_RemoveKnownData i d = (case map_of (mapData d) i of
     None \<Rightarrow> Some d
   | Some k \<Rightarrow> Option.bind (forget_ident i (setKnownPeer k) (mapPeer d)) (\<lambda>m.
       Option.bind (if nAssigned k \<noteq> 0 then peer_deref (nAssigned k) (\<lambda>r. r\<lparr>fAssigned := False\<rparr>) m else Some m) (\<lambda>m'.
       Some (d\<lparr>mapPeer := m', mapData := mdel i (mapData d)\<rparr>))))"

text \<open>The inner loop of \<^verbatim>\<open>Schedule\<close> over one peer's list.\<close>

fun assign_loop :: "('i::linorder \<Rightarrow> bool) \<Rightarrow> u64 \<Rightarrow> 'i list \<Rightarrow> ('i \<times> data_known) list \<Rightarrow> 'i option \<times> ('i \<times> data_known) list" where
  "assign_loop ignored n [] m = (None, m)"
| "assign_loop ignored n (i # is) m =
     (if \<not> ignored i then
        (let (done, k) = dk_Assign n (data_at m i); m1 = mput i k m
         in if done then (Some i, m1) else assign_loop ignored n is m1)
      else assign_loop ignored n is m)"

definition sched_peer :: "('i::linorder \<Rightarrow> bool) \<Rightarrow> u64 \<Rightarrow> (u64 \<times> 'i) list \<times> 'i data_sched \<Rightarrow> (u64 \<times> 'i) list \<times> 'i data_sched" where
  "sched_peer ignored n s = (case s of (vAssigned, d) \<Rightarrow> (case map_of (mapPeer d) n of
     None \<Rightarrow> (vAssigned, d)
   | Some r \<Rightarrow>
       if fAssigned r then (vAssigned, d)
       else (case assign_loop ignored n (listDataIdent r) (mapData d) of
           (None, m) \<Rightarrow> (vAssigned, d\<lparr>mapData := m\<rparr>)
         | (Some i, m) \<Rightarrow> (vAssigned @ [(n, i)], d\<lparr>mapData := m, mapPeer := mput n (r\<lparr>fAssigned := True\<rparr>) (mapPeer d)\<rparr>))))"

definition ds_Schedule :: "('i::linorder \<Rightarrow> bool) \<Rightarrow> 'i data_sched \<Rightarrow> (u64 \<times> 'i) list \<times> 'i data_sched" where
  "ds_Schedule ignored d = fold (sched_peer ignored) (map fst (mapPeer d)) ([], d)"

definition ds_GetAssignedPeer :: "'i \<Rightarrow> 'i data_sched \<Rightarrow> u64" where
  "ds_GetAssignedPeer i d = (case map_of (mapData d) i of Some k \<Rightarrow> nAssigned k | None \<Rightarrow> 0)"

definition ds_UnassignPeer :: "'i::linorder \<Rightarrow> 'i data_sched \<Rightarrow> 'i data_sched option" where
  "ds_UnassignPeer i d =
     (let (n, k) = dk_Unassign (data_at (mapData d) i); d1 = d\<lparr>mapData := mput i k (mapData d)\<rparr>
      in if n \<noteq> 0 then map_option (\<lambda>m. d1\<lparr>mapPeer := m\<rparr>) (peer_deref n (\<lambda>r. r\<lparr>fAssigned := False\<rparr>) (mapPeer d1))
         else Some d1)"

definition ds_Clear :: "'i data_sched" where
  "ds_Clear = \<lparr>mapPeer = [], mapData = []\<rparr>"

definition ds_GetPeerCount :: "'i data_sched \<Rightarrow> nat" where
  "ds_GetPeerCount d = length (mapPeer d)"

definition ds_GetPeerNonce :: "'i data_sched \<Rightarrow> u64 list" where
  "ds_GetPeerNonce d = map fst (mapPeer d)"

section \<open>Invariant\<close>

definition known_by :: "'i data_sched \<Rightarrow> 'i \<Rightarrow> u64 set" where
  "known_by d i = set (setKnownPeer (data_at (mapData d) i))"

definition assigned_to :: "'i data_sched \<Rightarrow> 'i \<Rightarrow> u64" where
  "assigned_to d i = nAssigned (data_at (mapData d) i)"

text \<open>Both directions of the relation agree, a piece is fetched from a peer that knows it, and each peer fetches
  at most one piece, recorded by its flag.\<close>

definition ds_inv :: "'i data_sched \<Rightarrow> bool" where
  "ds_inv d \<longleftrightarrow> msorted (mapPeer d) \<and> map_of (mapPeer d) 0 = None \<and>
     (\<forall>i. known_by d i \<subseteq> dom (map_of (mapPeer d))) \<and>
     (\<forall>i. assigned_to d i \<noteq> 0 \<longrightarrow> assigned_to d i \<in> known_by d i) \<and>
     (\<forall>i j. assigned_to d i = assigned_to d j \<longrightarrow> assigned_to d i \<noteq> 0 \<longrightarrow> i = j) \<and>
     (\<forall>n r. map_of (mapPeer d) n = Some r \<longrightarrow>
        distinct (listDataIdent r) \<and> set (listDataIdent r) = {i. n \<in> known_by d i} \<and>
        (fAssigned r \<longleftrightarrow> (\<exists>i. assigned_to d i = n)))"

lemma data_at_mput [simp]: "data_at (mput i k m) j = (if j = i then k else data_at m j)"
  by (simp add: data_at_def)

lemma data_at_mdel [simp]: "data_at (mdel i m) j = (if j = i then \<lparr>setKnownPeer = [], nAssigned = 0\<rparr> else data_at m j)"
  by (simp add: data_at_def)

lemma ds_invD:
  assumes "ds_inv d"
  shows "msorted (mapPeer d)" "map_of (mapPeer d) 0 = None"
    "\<And>i n. n \<in> known_by d i \<Longrightarrow> \<exists>r. map_of (mapPeer d) n = Some r"
    "\<And>i. assigned_to d i \<noteq> 0 \<Longrightarrow> assigned_to d i \<in> known_by d i"
    "\<And>i j. assigned_to d i = assigned_to d j \<Longrightarrow> assigned_to d i \<noteq> 0 \<Longrightarrow> i = j"
    "\<And>n r. map_of (mapPeer d) n = Some r \<Longrightarrow> distinct (listDataIdent r)"
    "\<And>n r. map_of (mapPeer d) n = Some r \<Longrightarrow> set (listDataIdent r) = {i. n \<in> known_by d i}"
    "\<And>n r. map_of (mapPeer d) n = Some r \<Longrightarrow> fAssigned r \<longleftrightarrow> (\<exists>i. assigned_to d i = n)"
  using assms unfolding ds_inv_def by blast+

lemma ds_invI:
  assumes "msorted (mapPeer d)" "map_of (mapPeer d) 0 = None"
    "\<And>i n. n \<in> known_by d i \<Longrightarrow> \<exists>r. map_of (mapPeer d) n = Some r"
    "\<And>i. assigned_to d i \<noteq> 0 \<Longrightarrow> assigned_to d i \<in> known_by d i"
    "\<And>i j. assigned_to d i = assigned_to d j \<Longrightarrow> assigned_to d i \<noteq> 0 \<Longrightarrow> i = j"
    "\<And>n r. map_of (mapPeer d) n = Some r \<Longrightarrow> distinct (listDataIdent r) \<and> set (listDataIdent r) = {i. n \<in> known_by d i}"
    "\<And>n r. map_of (mapPeer d) n = Some r \<Longrightarrow> fAssigned r \<longleftrightarrow> (\<exists>i. assigned_to d i = n)"
  shows "ds_inv d"
  using assms unfolding ds_inv_def by blast

lemma ds_Clear_inv: "ds_inv ds_Clear"
  by (simp add: ds_inv_def ds_Clear_def known_by_def assigned_to_def data_at_def)

lemma ds_ActivatePeer_inv:
  assumes "ds_inv d" "nNonce r \<noteq> 0" "listDataIdent r = []" "\<not> fAssigned r"
  shows "ds_inv (ds_ActivatePeer r d)"
proof (cases "map_of (mapPeer d) (nNonce r)")
  case None
  note I = ds_invD[OF assms(1)]
  have v: "known_by (ds_ActivatePeer r d) = known_by d" "assigned_to (ds_ActivatePeer r d) = assigned_to d"
    by (simp_all add: ds_ActivatePeer_def known_by_def assigned_to_def fun_eq_iff)
  have "nNonce r \<notin> known_by d i" for i using I(3)[of "nNonce r" i] None by auto
  moreover from this have "assigned_to d i \<noteq> nNonce r" for i using I(4)[of i] assms(2) by metis
  moreover have m: "map_of (mapPeer (ds_ActivatePeer r d)) = (map_of (mapPeer d))(nNonce r \<mapsto> r)"
    using None by (auto simp: ds_ActivatePeer_def fun_eq_iff)
  ultimately show ?thesis
    using I assms(2-4) unfolding ds_inv_def v m
    by (auto simp: ds_ActivatePeer_def)
next
  case (Some q)
  then have "ds_ActivatePeer r d = d" by (simp add: ds_ActivatePeer_def smap_insert_def)
  then show ?thesis using assms(1) by simp
qed

lemma fold_RemovePeer:
  "data_at (fold (\<lambda>i m. mput i (dk_RemovePeer n (data_at m i)) m) is m) j =
   (if j \<in> set is then dk_RemovePeer n (data_at m j) else data_at m j)"
proof (induction "is" arbitrary: m)
  case (Cons i "is")
  have "dk_RemovePeer n (dk_RemovePeer n k) = dk_RemovePeer n k" for k
    by (simp add: dk_RemovePeer_def Let_def)
  then show ?case using Cons by auto
qed simp

lemma ds_DeactivatePeer_inv:
  assumes "ds_inv d"
  shows "ds_inv (ds_DeactivatePeer n d)"
proof (cases "map_of (mapPeer d) n")
  case (Some r)
  note I = ds_invD[OF assms]
  let ?d = "ds_DeactivatePeer n d"
  have at: "data_at (mapData ?d) i = (if n \<in> known_by d i then dk_RemovePeer n (data_at (mapData d) i) else data_at (mapData d) i)" for i
    using Some I(7)[OF Some] by (simp add: ds_DeactivatePeer_def fold_RemovePeer)
  have k: "known_by ?d i = known_by d i - {n}" for i
    unfolding known_by_def[of ?d] at by (auto simp: known_by_def dk_RemovePeer_def Let_def)
  have a: "assigned_to ?d i = (if assigned_to d i = n then 0 else assigned_to d i)" for i
    using I(4)[of i] unfolding assigned_to_def[of ?d] at
    by (auto simp: assigned_to_def[of d] dk_RemovePeer_def Let_def)
  have m: "map_of (mapPeer ?d) p = (if p = n then None else map_of (mapPeer d) p)" for p
    using Some by (simp add: ds_DeactivatePeer_def)
  have n0: "n \<noteq> 0" using Some I(2) by auto
  show ?thesis
  proof (rule ds_invI)
    show "msorted (mapPeer ?d)" using Some I(1) by (simp add: ds_DeactivatePeer_def)
    show "map_of (mapPeer ?d) 0 = None" using I(2) by (simp add: m)
    show "\<exists>r. map_of (mapPeer ?d) p = Some r" if "p \<in> known_by ?d i" for i p
      using that I(3)[of p i] by (auto simp: k m)
    show "assigned_to ?d i \<in> known_by ?d i" if "assigned_to ?d i \<noteq> 0" for i
      using that I(4)[of i] by (auto simp: a k split: if_splits)
    show "i = j" if "assigned_to ?d i = assigned_to ?d j" "assigned_to ?d i \<noteq> 0" for i j
      using that I(5)[of i j] by (auto simp: a split: if_splits)
    show "distinct (listDataIdent q) \<and> set (listDataIdent q) = {i. p \<in> known_by ?d i}"
      if "map_of (mapPeer ?d) p = Some q" for p q
      using that I(6,7)[of p q] by (auto simp: k m split: if_splits)
    show "fAssigned q \<longleftrightarrow> (\<exists>i. assigned_to ?d i = p)" if "map_of (mapPeer ?d) p = Some q" for p q
      using that I(8)[of p q] I(2) n0 by (auto simp: a m split: if_splits)
  qed
qed (simp add: ds_DeactivatePeer_def assms)

lemma ds_AddKnownData_views:
  assumes "map_of (mapPeer d) n = Some r"
  shows "known_by (ds_AddKnownData n i d) j = (if j = i then insert n (known_by d j) else known_by d j)"
    "assigned_to (ds_AddKnownData n i d) j = assigned_to d j"
    "mapPeer (ds_AddKnownData n i d) = (if n \<in> known_by d i then mapPeer d
       else mput n (r\<lparr>listDataIdent := listDataIdent r @ [i]\<rparr>) (mapPeer d))"
  by (simp_all add: ds_AddKnownData_def assms known_by_def assigned_to_def dk_AddPeer_def Let_def)

lemma ds_AddKnownData_inv:
  assumes "ds_inv d"
  shows "ds_inv (ds_AddKnownData n i d)"
proof (cases "map_of (mapPeer d) n")
  case (Some r)
  note I = ds_invD[OF assms]
  let ?d = "ds_AddKnownData n i d"
  note v = ds_AddKnownData_views[OF Some, of i]
  have m: "map_of (mapPeer ?d) p = (if p = n \<and> n \<notin> known_by d i
      then Some (r\<lparr>listDataIdent := listDataIdent r @ [i]\<rparr>) else map_of (mapPeer d) p)" for p
    by (simp add: v(3))
  show ?thesis
  proof (rule ds_invI)
    show "msorted (mapPeer ?d)" using I(1) by (simp add: v(3) msorted_ops(1))
    show "map_of (mapPeer ?d) 0 = None" using I(2) Some by (auto simp: m)
    show "\<exists>r. map_of (mapPeer ?d) p = Some r" if "p \<in> known_by ?d j" for j p
      using that I(3)[of p j] Some by (auto simp: v(1) m split: if_splits)
    show "assigned_to ?d j \<in> known_by ?d j" if "assigned_to ?d j \<noteq> 0" for j
      using that I(4)[of j] by (auto simp: v)
    show "j = j'" if "assigned_to ?d j = assigned_to ?d j'" "assigned_to ?d j \<noteq> 0" for j j'
      using that I(5) by (simp add: v(2))
    show "distinct (listDataIdent q) \<and> set (listDataIdent q) = {j. p \<in> known_by ?d j}" if q: "map_of (mapPeer ?d) p = Some q" for p q
    proof (cases "p = n")
      case True
      have k: "{j. n \<in> known_by ?d j} = insert i {j. n \<in> known_by d j}" by (auto simp: v(1))
      have q': "q = (if n \<in> known_by d i then r else r\<lparr>listDataIdent := listDataIdent r @ [i]\<rparr>)"
        using q True Some by (simp add: m split: if_splits)
      have "i \<in> set (listDataIdent r) \<longleftrightarrow> n \<in> known_by d i" using I(7)[OF Some] by simp
      then show ?thesis using I(6)[OF Some] unfolding True k q' I(7)[OF Some, symmetric] by auto
    next
      case False
      then show ?thesis using q I(6,7)[of p q] by (simp add: v(1) m) auto
    qed
    show "fAssigned q \<longleftrightarrow> (\<exists>j. assigned_to ?d j = p)" if q: "map_of (mapPeer ?d) p = Some q" for p q
      using q I(8)[of p q] I(8)[OF Some] by (auto simp: v(2) m split: if_splits)
  qed
qed (simp add: ds_AddKnownData_def assms)

definition drop_ident :: "'i \<Rightarrow> 'i data_peer \<Rightarrow> 'i data_peer" where
  "drop_ident i r = r\<lparr>listDataIdent := removeAll i (listDataIdent r)\<rparr>"

lemma drop_ident_id: "i \<notin> set (listDataIdent r) \<Longrightarrow> drop_ident i r = r"
  by (simp add: drop_ident_def)

lemma drop_ident_twice [simp]: "drop_ident i (drop_ident i r) = drop_ident i r"
  by (simp add: drop_ident_def)

lemma map_option_mput:
  "map_of m n = Some r \<Longrightarrow> map_of (mput n (f r) m) p = map_option (\<lambda>x. if p = n then f x else x) (map_of m p)"
  by (cases "map_of m p") auto

lemma forget_ident_spec:
  assumes "\<forall>n \<in> set ns. map_of m n \<noteq> None"
  shows "\<exists>m'. forget_ident i ns m = Some m' \<and> (msorted m \<longrightarrow> msorted m') \<and>
    (\<forall>p. map_of m' p = (if p \<in> set ns then map_option (drop_ident i) (map_of m p) else map_of m p))"
  using assms
proof (induction ns arbitrary: m)
  case (Cons n ns)
  obtain r where r: "map_of m n = Some r" using Cons.prems by auto
  define m1 where "m1 = mput n (drop_ident i r) m"
  have "\<forall>n \<in> set ns. map_of m1 n \<noteq> None" using Cons.prems by (simp add: m1_def)
  from Cons.IH[OF this] obtain m' where m': "forget_ident i ns m1 = Some m'" "msorted m1 \<longrightarrow> msorted m'"
    "\<And>p. map_of m' p = (if p \<in> set ns then map_option (drop_ident i) (map_of m1 p) else map_of m1 p)"
    by blast
  have "forget_ident i (n # ns) m = Some m'" using r m'(1) by (simp add: peer_deref_def m1_def drop_ident_def)
  moreover have "msorted m \<longrightarrow> msorted m'" using m'(2) by (simp add: m1_def msorted_ops(1))
  moreover have "map_of m' p = (if p \<in> set (n # ns) then map_option (drop_ident i) (map_of m p) else map_of m p)" for p
    by (cases "p = n") (simp_all add: m'(3) m1_def r)
  ultimately show ?case by blast
qed simp

text \<open>The peers after a piece of data was dropped: gone from every list, and not assigned any more.\<close>

lemma RemoveKnownData_peers:
  assumes inv: "ds_inv d" and k: "map_of (mapData d) i = Some k"
  shows "\<exists>m. ds_RemoveKnownData i d = Some (d\<lparr>mapPeer := m, mapData := mdel i (mapData d)\<rparr>) \<and> msorted m \<and>
    (\<forall>p. map_of m p = map_option (\<lambda>r. (drop_ident i r)\<lparr>fAssigned := fAssigned r \<and> p \<noteq> assigned_to d i\<rparr>) (map_of (mapPeer d) p))"
proof -
  note I = ds_invD[OF inv]
  have kk: "set (setKnownPeer k) = known_by d i" "nAssigned k = assigned_to d i"
    using k by (simp_all add: known_by_def assigned_to_def data_at_def)
  have "\<forall>n \<in> set (setKnownPeer k). map_of (mapPeer d) n \<noteq> None" using I(3)[of _ i] unfolding kk(1) by fastforce
  from forget_ident_spec[OF this, of i] obtain m where m: "forget_ident i (setKnownPeer k) (mapPeer d) = Some m" "msorted m"
    "\<And>p. map_of m p = (if p \<in> known_by d i then map_option (drop_ident i) (map_of (mapPeer d) p) else map_of (mapPeer d) p)"
    using I(1) unfolding kk(1) by blast
  have m2: "map_of m p = map_option (drop_ident i) (map_of (mapPeer d) p)" for p
    using m(3)[of p] I(7)[of p] by (cases "map_of (mapPeer d) p") (auto simp: drop_ident_id)
  show ?thesis
  proof (cases "assigned_to d i = 0")
    case True
    have "map_of m p = map_option (\<lambda>r. (drop_ident i r)\<lparr>fAssigned := fAssigned r \<and> p \<noteq> assigned_to d i\<rparr>) (map_of (mapPeer d) p)" for p
      using I(2) True by (cases "p = 0"; cases "map_of (mapPeer d) p") (simp_all add: m2 drop_ident_def)
    moreover have "ds_RemoveKnownData i d = Some (d\<lparr>mapPeer := m, mapData := mdel i (mapData d)\<rparr>)"
      using m(1) True kk(2) k by (simp add: ds_RemoveKnownData_def)
    ultimately show ?thesis using m(2) by (intro exI[of _ m] conjI allI)
  next
    case False
    then obtain r where r: "map_of m (assigned_to d i) = Some r" using I(3)[OF I(4)[OF False]] by (auto simp: m2)
    define m' where "m' = mput (assigned_to d i) (r\<lparr>fAssigned := False\<rparr>) m"
    have "map_of m' p = map_option (\<lambda>r. (drop_ident i r)\<lparr>fAssigned := fAssigned r \<and> p \<noteq> assigned_to d i\<rparr>) (map_of (mapPeer d) p)" for p
    proof (cases "p = assigned_to d i")
      case True
      then show ?thesis using r m2[of p] by (cases "map_of (mapPeer d) p") (simp_all add: m'_def)
    next
      case False
      then show ?thesis by (cases "map_of (mapPeer d) p") (simp_all add: m'_def m2 drop_ident_def)
    qed
    moreover have "msorted m'" using m(2) by (simp add: m'_def msorted_ops(1))
    moreover have "ds_RemoveKnownData i d = Some (d\<lparr>mapPeer := m', mapData := mdel i (mapData d)\<rparr>)"
      using False m(1) r kk(2) k by (simp add: ds_RemoveKnownData_def peer_deref_def m'_def)
    ultimately show ?thesis by (intro exI[of _ m'] conjI allI)
  qed
qed


lemma assigned_other:
  assumes "ds_inv d" "p \<noteq> 0"
  shows "(\<exists>j. (if j = i then 0 else assigned_to d j) = p) \<longleftrightarrow> (\<exists>j. assigned_to d j = p) \<and> p \<noteq> assigned_to d i"
  using ds_invD(5)[OF assms(1)] assms(2) by metis

lemma ds_RemoveKnownData_inv:
  assumes "ds_inv d"
  shows "\<exists>d'. ds_RemoveKnownData i d = Some d' \<and> ds_inv d' \<and> known_by d' i = {} \<and> assigned_to d' i = 0"
proof (cases "map_of (mapData d) i")
  case None
  then show ?thesis using assms by (simp add: ds_RemoveKnownData_def known_by_def assigned_to_def data_at_def)
next
  case (Some k)
  note I = ds_invD[OF assms]
  obtain m where m: "ds_RemoveKnownData i d = Some (d\<lparr>mapPeer := m, mapData := mdel i (mapData d)\<rparr>)" "msorted m"
    "\<And>p. map_of m p = map_option (\<lambda>r. (drop_ident i r)\<lparr>fAssigned := fAssigned r \<and> p \<noteq> assigned_to d i\<rparr>) (map_of (mapPeer d) p)"
    using RemoveKnownData_peers[OF assms Some] by blast
  define d' where "d' = d\<lparr>mapPeer := m, mapData := mdel i (mapData d)\<rparr>"
  have kb: "known_by d' j = (if j = i then {} else known_by d j)" "assigned_to d' j = (if j = i then 0 else assigned_to d j)" for j
    by (simp_all add: d'_def known_by_def assigned_to_def)
  have mp: "mapPeer d' = m" by (simp add: d'_def)
  have "ds_inv d'"
  proof (rule ds_invI)
    show "msorted (mapPeer d')" "map_of (mapPeer d') 0 = None" using m I(2) by (simp_all add: mp)
    show "\<exists>r. map_of (mapPeer d') p = Some r" if "p \<in> known_by d' j" for j p
      using that I(3)[of p j] by (auto simp: kb mp m(3) split: if_splits)
    show "assigned_to d' j \<in> known_by d' j" if "assigned_to d' j \<noteq> 0" for j
      using that I(4)[of j] by (simp add: kb split: if_splits)
    show "j = j'" if "assigned_to d' j = assigned_to d' j'" "assigned_to d' j \<noteq> 0" for j j'
      using that I(5)[of j j'] by (simp add: kb split: if_splits)
    fix p q assume "map_of (mapPeer d') p = Some q"
    then obtain r where r: "map_of (mapPeer d) p = Some r"
      and q: "q = (drop_ident i r)\<lparr>fAssigned := fAssigned r \<and> p \<noteq> assigned_to d i\<rparr>"
      by (auto simp: mp m(3))
    have k: "{j. p \<in> known_by d' j} = {j. p \<in> known_by d j} - {i}" by (auto simp: kb)
    show "distinct (listDataIdent q) \<and> set (listDataIdent q) = {j. p \<in> known_by d' j}"
      unfolding k I(7)[OF r, symmetric] using I(6)[OF r] by (simp add: q drop_ident_def distinct_removeAll)
    have "p \<noteq> 0" using r I(2) by auto
    then show "fAssigned q \<longleftrightarrow> (\<exists>j. assigned_to d' j = p)"
      using I(8)[OF r] assigned_other[OF assms, of p i] by (simp add: q kb)
  qed
  then show ?thesis using m(1) by (auto simp: d'_def[symmetric] kb)
qed

lemma ds_UnassignPeer_inv:
  assumes "ds_inv d"
  shows "\<exists>d'. ds_UnassignPeer i d = Some d' \<and> ds_inv d' \<and> assigned_to d' i = 0 \<and> (\<forall>j. known_by d' j = known_by d j)"
proof -
  note I = ds_invD[OF assms]
  define d1 where "d1 = d\<lparr>mapData := mput i ((data_at (mapData d) i)\<lparr>nAssigned := 0\<rparr>) (mapData d)\<rparr>"
  have v: "known_by (d1\<lparr>mapPeer := m\<rparr>) j = known_by d j" "assigned_to (d1\<lparr>mapPeer := m\<rparr>) j = (if j = i then 0 else assigned_to d j)" for j m
    by (simp_all add: d1_def known_by_def assigned_to_def)
  obtain m where m: "ds_UnassignPeer i d = Some (d1\<lparr>mapPeer := m\<rparr>)" "msorted m"
    "\<And>p. map_of m p = map_option (\<lambda>r. r\<lparr>fAssigned := fAssigned r \<and> p \<noteq> assigned_to d i\<rparr>) (map_of (mapPeer d) p)"
  proof (cases "assigned_to d i = 0")
    case True
    have "map_of (mapPeer d) p = map_option (\<lambda>r. r\<lparr>fAssigned := fAssigned r \<and> p \<noteq> assigned_to d i\<rparr>) (map_of (mapPeer d) p)" for p
      using I(2) True by (cases "p = 0"; cases "map_of (mapPeer d) p") simp_all
    moreover have "ds_UnassignPeer i d = Some (d1\<lparr>mapPeer := mapPeer d\<rparr>)"
      using True by (simp add: ds_UnassignPeer_def dk_Unassign_def d1_def assigned_to_def)
    ultimately show ?thesis using that I(1) by blast
  next
    case False
    then obtain r where r: "map_of (mapPeer d) (assigned_to d i) = Some r" using I(3)[OF I(4)[OF False]] by blast
    have "map_of (mput (assigned_to d i) (r\<lparr>fAssigned := False\<rparr>) (mapPeer d)) p =
        map_option (\<lambda>r. r\<lparr>fAssigned := fAssigned r \<and> p \<noteq> assigned_to d i\<rparr>) (map_of (mapPeer d) p)" for p
      using r by (cases "p = assigned_to d i"; cases "map_of (mapPeer d) p") simp_all
    moreover have "ds_UnassignPeer i d = Some (d1\<lparr>mapPeer := mput (assigned_to d i) (r\<lparr>fAssigned := False\<rparr>) (mapPeer d)\<rparr>)"
      using False r by (simp add: ds_UnassignPeer_def dk_Unassign_def d1_def assigned_to_def peer_deref_def)
    ultimately show ?thesis using that msorted_ops(1)[OF I(1)] by blast
  qed
  have "ds_inv (d1\<lparr>mapPeer := m\<rparr>)"
  proof (rule ds_invI; (unfold v)?)
    show "msorted (mapPeer (d1\<lparr>mapPeer := m\<rparr>))" "map_of (mapPeer (d1\<lparr>mapPeer := m\<rparr>)) 0 = None" using m I(2) by simp_all
    show "\<exists>r. map_of (mapPeer (d1\<lparr>mapPeer := m\<rparr>)) p = Some r" if "p \<in> known_by d j" for j p
      using that I(3)[of p j] by (auto simp: m(3))
    show "(if j = i then 0 else assigned_to d j) \<in> known_by d j" if "(if j = i then 0 else assigned_to d j) \<noteq> 0" for j
      using that I(4)[of j] by (simp split: if_splits)
    show "j = j'" if "(if j = i then 0 else assigned_to d j) = (if j' = i then 0 else assigned_to d j')"
      "(if j = i then 0 else assigned_to d j) \<noteq> 0" for j j'
      using that I(5)[of j j'] by (simp split: if_splits)
    fix p q assume "map_of (mapPeer (d1\<lparr>mapPeer := m\<rparr>)) p = Some q"
    then obtain r where r: "map_of (mapPeer d) p = Some r" and q: "q = r\<lparr>fAssigned := fAssigned r \<and> p \<noteq> assigned_to d i\<rparr>"
      by (auto simp: m(3))
    show "distinct (listDataIdent q) \<and> set (listDataIdent q) = {j. p \<in> known_by d j}"
      using I(6,7)[OF r] by (simp add: q)
    have "p \<noteq> 0" using r I(2) by auto
    then show "fAssigned q \<longleftrightarrow> (\<exists>j. (if j = i then 0 else assigned_to d j) = p)"
      using I(8)[OF r] assigned_other[OF assms, of p i] by (simp add: q)
  qed
  then show ?thesis using m(1) v by auto
qed

section \<open>Scheduling\<close>

lemma data_at_mput_same: "data_at (mput i (data_at m i) m) = data_at m"
  by (simp add: fun_eq_iff)

lemma assign_loop_spec:
  "assign_loop ignored n is m = (x, m') \<Longrightarrow>
    (\<forall>j. data_at m' j = (if x = Some j then (data_at m j)\<lparr>nAssigned := n\<rparr> else data_at m j)) \<and>
    (case x of
       None \<Rightarrow> \<forall>i \<in> set is. \<not> ignored i \<longrightarrow> nAssigned (data_at m i) \<noteq> 0
     | Some i \<Rightarrow> i \<in> set is \<and> \<not> ignored i \<and> nAssigned (data_at m i) \<in> {0, n})"
proof (induction ignored n "is" m rule: assign_loop.induct)
  case (2 ignored n i "is" m)
  consider "ignored i" | "\<not> ignored i" "nAssigned (data_at m i) \<notin> {0, n}" | "\<not> ignored i" "nAssigned (data_at m i) \<in> {0, n}"
    by blast
  then show ?case
  proof cases
    case 1
    then have "assign_loop ignored n is m = (x, m')" using 2(3) by simp
    from 2(2)[OF _ this] 1 show ?thesis by (auto split: option.splits)
  next
    case 2
    then have a: "dk_Assign n (data_at m i) = (False, data_at m i)" by (simp add: dk_Assign_def)
    then have "assign_loop ignored n is (mput i (data_at m i) m) = (x, m')" using "2.prems" 2 by simp
    from "2.IH"(1)[OF 2(1) refl a[symmetric] refl _ this] show ?thesis
      using 2 by (simp add: data_at_mput_same split: option.splits del: data_at_mput)
  next
    case 3
    then have "dk_Assign n (data_at m i) = (True, (data_at m i)\<lparr>nAssigned := n\<rparr>)" by (auto simp: dk_Assign_def)
    then have "x = Some i" "m' = mput i ((data_at m i)\<lparr>nAssigned := n\<rparr>) m" using "2.prems" 3 by simp_all
    then show ?thesis using 3 by simp
  qed
qed simp

lemma sched_peer_cases:
  assumes inv: "ds_inv d" and s: "sched_peer ignored n (v, d) = (v', d')"
  obtains
    (skip) "v' = v" "ds_inv d'" "known_by d' = known_by d" "assigned_to d' = assigned_to d" "mapPeer d' = mapPeer d"
      "\<forall>r i. map_of (mapPeer d) n = Some r \<longrightarrow> \<not> fAssigned r \<longrightarrow> n \<in> known_by d i \<longrightarrow> \<not> ignored i \<longrightarrow> assigned_to d i \<noteq> 0"
  | (assign) i where "v' = v @ [(n, i)]" "ds_inv d'" "known_by d' = known_by d" "assigned_to d' = (assigned_to d)(i := n)"
      "n \<in> known_by d i" "\<not> ignored i" "assigned_to d i = 0" "n \<noteq> 0"
      "\<forall>p. p \<noteq> n \<longrightarrow> map_of (mapPeer d') p = map_of (mapPeer d) p" "\<forall>r. map_of (mapPeer d') n = Some r \<longrightarrow> fAssigned r"
proof (cases "map_of (mapPeer d) n")
  case None
  then show ?thesis using s inv skip by (simp add: sched_peer_def)
next
  case (Some r)
  note I = ds_invD[OF inv]
  show ?thesis
  proof (cases "fAssigned r")
    case True
    then show ?thesis using Some s inv skip by (simp add: sched_peer_def)
  next
    case f: False
    obtain x m where a: "assign_loop ignored n (listDataIdent r) (mapData d) = (x, m)" by fastforce
    note sp = assign_loop_spec[OF a]
    show ?thesis
    proof (cases x)
      case None
      have d': "v' = v" "d' = d\<lparr>mapData := m\<rparr>" using s Some f a None by (simp_all add: sched_peer_def)
      have "data_at m j = data_at (mapData d) j" for j using sp None by simp
      then have v: "known_by d' = known_by d" "assigned_to d' = assigned_to d" "mapPeer d' = mapPeer d"
        by (simp_all add: d' known_by_def assigned_to_def fun_eq_iff)
      have "ds_inv d'" using inv unfolding ds_inv_def v .
      moreover have "\<forall>i. n \<in> known_by d i \<longrightarrow> \<not> ignored i \<longrightarrow> assigned_to d i \<noteq> 0"
        using sp None I(7)[OF Some] by (auto simp: assigned_to_def)
      ultimately show ?thesis using skip d' v Some by simp
    next
      case (Some i)
      define d1 where "d1 = d\<lparr>mapData := m, mapPeer := mput n (r\<lparr>fAssigned := True\<rparr>) (mapPeer d)\<rparr>"
      have d': "v' = v @ [(n, i)]" "d' = d1"
        using s \<open>map_of (mapPeer d) n = Some r\<close> f a Some by (simp_all add: sched_peer_def d1_def)
      have at: "data_at m j = (if j = i then (data_at (mapData d) i)\<lparr>nAssigned := n\<rparr> else data_at (mapData d) j)" for j
        using sp Some by auto
      have k: "known_by d1 = known_by d" by (auto simp: d1_def known_by_def at fun_eq_iff)
      have as: "assigned_to d1 = (assigned_to d)(i := n)" by (auto simp: d1_def assigned_to_def at fun_eq_iff)
      have i: "n \<in> known_by d i" "\<not> ignored i" "assigned_to d i \<in> {0, n}"
        using sp Some I(7)[OF \<open>map_of (mapPeer d) n = Some r\<close>] by (auto simp: assigned_to_def)
      have free: "assigned_to d j \<noteq> n" for j using f I(8)[OF \<open>map_of (mapPeer d) n = Some r\<close>] by blast
      have n0: "n \<noteq> 0" using \<open>map_of (mapPeer d) n = Some r\<close> I(2) by auto
      have mp: "map_of (mapPeer d1) p = (if p = n then Some (r\<lparr>fAssigned := True\<rparr>) else map_of (mapPeer d) p)" for p
        by (simp add: d1_def)
      have "ds_inv d1"
      proof (rule ds_invI)
        show "msorted (mapPeer d1)" using I(1) by (simp add: d1_def msorted_ops(1))
        show "map_of (mapPeer d1) 0 = None" using n0 I(2) by (simp add: mp)
        show "\<exists>r. map_of (mapPeer d1) p = Some r" if "p \<in> known_by d1 j" for j p
          using that I(3)[of p j] by (simp add: k mp)
        show "assigned_to d1 j \<in> known_by d1 j" if "assigned_to d1 j \<noteq> 0" for j
          using that I(4)[of j] i by (auto simp: k as)
        show "j = j'" if "assigned_to d1 j = assigned_to d1 j'" "assigned_to d1 j \<noteq> 0" for j j'
          using that I(5)[of j j'] free[of j] free[of j'] by (auto simp: as split: if_splits)
        fix p q assume q: "map_of (mapPeer d1) p = Some q"
        show "distinct (listDataIdent q) \<and> set (listDataIdent q) = {j. p \<in> known_by d1 j}"
          using q I(6,7)[of p] \<open>map_of (mapPeer d) n = Some r\<close> by (auto simp: k mp split: if_splits)
        show "fAssigned q \<longleftrightarrow> (\<exists>j. assigned_to d1 j = p)"
        proof (cases "p = n")
          case True
          then show ?thesis using q by (auto simp: mp as)
        next
          case False
          have "p \<noteq> 0" using q False I(2) mp[of p] by auto
          then show ?thesis using q False I(8)[of p q] i(3) free[of i] by (auto simp: mp as)
        qed
      qed
      then show ?thesis using assign[of i] d' k as i free[of i] n0 mp by auto
    qed
  qed
qed


text \<open>What holds after the peers \<open>ns\<close> have been visited, starting from \<open>d0\<close>.\<close>

definition sched_inv :: "('i \<Rightarrow> bool) \<Rightarrow> 'i data_sched \<Rightarrow> u64 list \<Rightarrow> (u64 \<times> 'i) list \<Rightarrow> 'i data_sched \<Rightarrow> bool" where
  "sched_inv ignored d0 ns v d \<longleftrightarrow> ds_inv d \<and> known_by d = known_by d0 \<and> dom (map_of (mapPeer d)) = dom (map_of (mapPeer d0)) \<and>
     (\<forall>i. assigned_to d i \<noteq> assigned_to d0 i \<longrightarrow> assigned_to d0 i = 0 \<and> \<not> ignored i) \<and>
     (\<forall>n i. (n, i) \<in> set v \<longleftrightarrow> assigned_to d i = n \<and> assigned_to d0 i \<noteq> n) \<and>
     (\<forall>n \<in> set ns. \<forall>r i. map_of (mapPeer d) n = Some r \<longrightarrow> \<not> fAssigned r \<longrightarrow> n \<in> known_by d0 i \<longrightarrow> \<not> ignored i \<longrightarrow>
        assigned_to d i \<noteq> 0)"

lemma sched_invD:
  assumes "sched_inv ignored d0 ns v d"
  shows "ds_inv d" "known_by d = known_by d0" "dom (map_of (mapPeer d)) = dom (map_of (mapPeer d0))"
    "\<And>i. assigned_to d i \<noteq> assigned_to d0 i \<Longrightarrow> assigned_to d0 i = 0 \<and> \<not> ignored i"
    "\<And>n i. (n, i) \<in> set v \<longleftrightarrow> assigned_to d i = n \<and> assigned_to d0 i \<noteq> n"
    "\<And>n r i. n \<in> set ns \<Longrightarrow> map_of (mapPeer d) n = Some r \<Longrightarrow> \<not> fAssigned r \<Longrightarrow> n \<in> known_by d0 i \<Longrightarrow>
      \<not> ignored i \<Longrightarrow> assigned_to d i \<noteq> 0"
  using assms unfolding sched_inv_def by (elim conjE; assumption | elim conjE; simp only:; fail | meson)+

lemma sched_invI:
  assumes "ds_inv d" "known_by d = known_by d0" "dom (map_of (mapPeer d)) = dom (map_of (mapPeer d0))"
    "\<And>i. assigned_to d i \<noteq> assigned_to d0 i \<Longrightarrow> assigned_to d0 i = 0 \<and> \<not> ignored i"
    "\<And>n i. (n, i) \<in> set v \<longleftrightarrow> assigned_to d i = n \<and> assigned_to d0 i \<noteq> n"
    "\<And>n r i. n \<in> set ns \<Longrightarrow> map_of (mapPeer d) n = Some r \<Longrightarrow> \<not> fAssigned r \<Longrightarrow> n \<in> known_by d0 i \<Longrightarrow>
      \<not> ignored i \<Longrightarrow> assigned_to d i \<noteq> 0"
  shows "sched_inv ignored d0 ns v d"
  unfolding sched_inv_def by (intro conjI allI ballI impI; (rule assms | rule assms(4)[THEN conjunct1] | rule assms(4)[THEN conjunct2]); assumption)

lemma sched_peer_step:
  assumes h: "sched_inv ignored d0 ns v d" and s': "sched_peer ignored n (v, d) = (v', d')"
  shows "sched_inv ignored d0 (ns @ [n]) v' d'"
proof -
  note H = sched_invD[OF h]
  from H(1) s' show ?thesis
  proof (cases rule: sched_peer_cases)
    case skip
    show ?thesis
    proof (rule sched_invI)
      fix m r i
      assume m: "m \<in> set (ns @ [n])" and p: "map_of (mapPeer d') m = Some r" "\<not> fAssigned r" "m \<in> known_by d0 i" "\<not> ignored i"
      show "assigned_to d' i \<noteq> 0"
      proof (cases "m = n")
        case True
        then show ?thesis using skip(6) p unfolding skip(4,5) H(2) by blast
      next
        case False
        then show ?thesis using m p H(6)[of m r i] unfolding skip(4,5) by simp
      qed
    qed (use skip(2) H(4) in \<open>simp_all only: skip(1,3,4,5) H(2,3,5)\<close>)
  next
    case (assign i)
    have i0: "assigned_to d0 i = 0" using H(4)[of i] assign(7) by force
    show ?thesis
    proof (rule sched_invI)
      show "ds_inv d'" by fact
      show "known_by d' = known_by d0" using assign(3) H(2) by simp
      show "dom (map_of (mapPeer d')) = dom (map_of (mapPeer d0))"
        using assign(9) ds_invD(3)[OF H(1) assign(5)] ds_invD(3)[OF assign(2), of n i] assign(3,5) H(3)
        by (fastforce simp: dom_def)
      show "(m, j) \<in> set v' \<longleftrightarrow> assigned_to d' j = m \<and> assigned_to d0 j \<noteq> m" for m j
        using H(5)[of m j] assign(7,8) i0 unfolding assign(1,4) by auto
      show "assigned_to d0 j = 0 \<and> \<not> ignored j" if "assigned_to d' j \<noteq> assigned_to d0 j" for j
        using that H(4)[of j] assign(6) i0 unfolding assign(4) by (cases "j = i") auto
      fix m r j
      assume m: "m \<in> set (ns @ [n])" and p: "map_of (mapPeer d') m = Some r" "\<not> fAssigned r" "m \<in> known_by d0 j" "\<not> ignored j"
      have "m \<noteq> n" using p(1,2) assign(10) by blast
      then show "assigned_to d' j \<noteq> 0" using m p H(6)[of m r j] assign(8,9) unfolding assign(4) by (cases "j = i") auto
    qed
  qed
qed

lemma sched_fold:
  assumes "sched_inv ignored d0 ns v d" "fold (sched_peer ignored) ms (v, d) = (v', d')"
  shows "sched_inv ignored d0 (ns @ ms) v' d'"
  using assms
proof (induction ms arbitrary: ns v d)
  case (Cons m ms)
  obtain v1 d1 where m: "sched_peer ignored m (v, d) = (v1, d1)" by fastforce
  show ?case using Cons.IH[OF sched_peer_step[OF Cons.prems(1) m]] Cons.prems(2) m by simp
qed simp

lemma ds_Schedule_inv:
  assumes "ds_inv d" "ds_Schedule ignored d = (v, d')"
  shows "sched_inv ignored d (map fst (mapPeer d)) v d'"
proof -
  have "sched_inv ignored d [] [] d" using assms(1) by (simp add: sched_inv_def)
  then show ?thesis using sched_fold[of ignored d "[]" "[]" d] assms(2) by (simp add: ds_Schedule_def)
qed

section \<open>Reachable states\<close>

text \<open>A scheduler starts empty and changes through the operations of the class. Peers are created by the
  constructor, so a new one knows nothing and fetches nothing; the nonce 0 stands for "no peer".\<close>

inductive ds_reach :: "'i::linorder data_sched \<Rightarrow> bool" where
  start: "ds_reach ds_Clear"
| activate: "ds_reach d \<Longrightarrow> n \<noteq> 0 \<Longrightarrow> ds_reach (ds_ActivatePeer \<lparr>nNonce = n, listDataIdent = [], fAssigned = False\<rparr> d)"
| deactivate: "ds_reach d \<Longrightarrow> ds_reach (ds_DeactivatePeer n d)"
| add: "ds_reach d \<Longrightarrow> ds_reach (ds_AddKnownData n i d)"
| remove: "ds_reach d \<Longrightarrow> ds_RemoveKnownData i d = Some d' \<Longrightarrow> ds_reach d'"
| schedule: "ds_reach d \<Longrightarrow> ds_Schedule ignored d = (v, d') \<Longrightarrow> ds_reach d'"
| unassign: "ds_reach d \<Longrightarrow> ds_UnassignPeer i d = Some d' \<Longrightarrow> ds_reach d'"

lemma ds_reach_inv: "ds_reach d \<Longrightarrow> ds_inv d"
proof (induction rule: ds_reach.induct)
  case (activate d n)
  then show ?case by (simp add: ds_ActivatePeer_inv)
next
  case (remove d i d')
  then show ?case using ds_RemoveKnownData_inv[of d i] by simp
next
  case (schedule d ignored v d')
  then show ?case using ds_Schedule_inv sched_invD(1) by blast
next
  case (unassign d i d')
  then show ?case using ds_UnassignPeer_inv[of d i] by simp
qed (simp_all add: ds_Clear_inv ds_DeactivatePeer_inv ds_AddKnownData_inv)

text \<open>(C10) In every state the scheduler can reach, the two directions of the relation between peers and
  data agree, a piece is only fetched from an active peer that knows it, no peer fetches two pieces, and
  its flag says whether it fetches one. The two operations that dereference \<^verbatim>\<open>mapPeer[nonce]\<close> without a
  lookup never meet a missing peer, and they forget exactly what they should.\<close>

theorem data_sched_invariant:
  assumes "ds_reach d"
  shows "ds_inv d \<and>
    (\<exists>d'. ds_RemoveKnownData i d = Some d' \<and> known_by d' i = {} \<and> assigned_to d' i = 0) \<and>
    (\<exists>d'. ds_UnassignPeer i d = Some d' \<and> assigned_to d' i = 0 \<and> known_by d' = known_by d) \<and>
    (assigned_to d i \<noteq> 0 \<longrightarrow> (\<exists>r. ds_GetPeer (ds_GetAssignedPeer i d) d = Some r \<and> fAssigned r \<and> i \<in> set (listDataIdent r)))"
proof (intro conjI)
  have inv: "ds_inv d" using ds_reach_inv[OF assms] .
  show "ds_inv d" by fact
  show "\<exists>d'. ds_RemoveKnownData i d = Some d' \<and> known_by d' i = {} \<and> assigned_to d' i = 0"
    using ds_RemoveKnownData_inv[OF inv] by blast
  show "\<exists>d'. ds_UnassignPeer i d = Some d' \<and> assigned_to d' i = 0 \<and> known_by d' = known_by d"
    using ds_UnassignPeer_inv[OF inv] by blast
  have g: "ds_GetAssignedPeer i d = assigned_to d i"
    by (simp add: ds_GetAssignedPeer_def assigned_to_def data_at_def split: option.splits)
  show "assigned_to d i \<noteq> 0 \<longrightarrow> (\<exists>r. ds_GetPeer (ds_GetAssignedPeer i d) d = Some r \<and> fAssigned r \<and> i \<in> set (listDataIdent r))"
  proof
    assume "assigned_to d i \<noteq> 0"
    from ds_invD(4)[OF inv this] obtain r where r: "map_of (mapPeer d) (assigned_to d i) = Some r" "assigned_to d i \<in> known_by d i"
      using ds_invD(3)[OF inv] by blast
    then show "\<exists>r. ds_GetPeer (ds_GetAssignedPeer i d) d = Some r \<and> fAssigned r \<and> i \<in> set (listDataIdent r)"
      using ds_invD(7,8)[OF inv r(1)] by (auto simp: g ds_GetPeer_def)
  qed
qed

text \<open>(C31) \<^verbatim>\<open>Schedule\<close> keeps every assignment there was, reports exactly the new ones, gives a peer only a
  piece it knows, that is not ignored and that nobody was fetching, and leaves no work undone: after it, a peer that
  still fetches nothing knows no piece it could fetch.\<close>

theorem data_sched_schedule:
  assumes "ds_reach d" "ds_Schedule ignored d = (v, d')"
  shows "(\<forall>n i. (n, i) \<in> set v \<longleftrightarrow> assigned_to d' i = n \<and> assigned_to d i \<noteq> n) \<and>
    (\<forall>n i. (n, i) \<in> set v \<longrightarrow> n \<in> known_by d i \<and> \<not> ignored i \<and> assigned_to d i = 0) \<and>
    known_by d' = known_by d \<and>
    (\<forall>n r i. ds_GetPeer n d' = Some r \<longrightarrow> \<not> fAssigned r \<longrightarrow> n \<in> known_by d i \<longrightarrow> \<not> ignored i \<longrightarrow> assigned_to d' i \<noteq> 0)"
proof (intro conjI allI impI)
  note inv = ds_reach_inv[OF assms(1)]
  note S = sched_invD[OF ds_Schedule_inv[OF inv assms(2)]]
  show "(n, i) \<in> set v \<longleftrightarrow> assigned_to d' i = n \<and> assigned_to d i \<noteq> n" for n i by (rule S(5))
  show "known_by d' = known_by d" by (rule S(2))
  show "assigned_to d' i \<noteq> 0" if "ds_GetPeer n d' = Some r" "\<not> fAssigned r" "n \<in> known_by d i" "\<not> ignored i" for n r i
  proof (rule S(6)[OF _ _ that(2-4)])
    show "map_of (mapPeer d') n = Some r" using that(1) by (simp add: ds_GetPeer_def)
    show "n \<in> set (map fst (mapPeer d))" using ds_invD(3)[OF inv that(3)] by (auto dest: map_of_SomeD intro: rev_image_eqI)
  qed
  fix n i assume "(n, i) \<in> set v"
  then have a: "assigned_to d' i = n" "assigned_to d i \<noteq> n" using S(5) by blast+
  with S(4)[of i] show z: "\<not> ignored i" "assigned_to d i = 0" by auto
  have "assigned_to d' i \<noteq> 0" using a z(2) by simp
  then show "n \<in> known_by d i" using ds_invD(4)[OF S(1), of i] a(1) S(2) by simp
qed

definition ds_demo :: "nat data_sched" where
  "ds_demo = ds_AddKnownData 7 1 (ds_AddKnownData 9 1 (ds_AddKnownData 9 2
     (ds_ActivatePeer \<lparr>nNonce = 9, listDataIdent = [], fAssigned = False\<rparr>
       (ds_ActivatePeer \<lparr>nNonce = 7, listDataIdent = [], fAssigned = False\<rparr> ds_Clear))))"

lemma ds_demo_reach: "ds_reach ds_demo"
  unfolding ds_demo_def by (intro ds_reach.intros) simp_all

theorem data_sched_invariant_witness: "ds_reach ds_demo \<and> ds_inv ds_demo"
  using data_sched_invariant[OF ds_demo_reach] ds_demo_reach by simp

lemma ds_demo_schedule:
  "fst (ds_Schedule (\<lambda>_. False) ds_demo) = [(7, 1), (9, 2)]"
  by code_simp

theorem data_sched_schedule_witness:
  "fst (ds_Schedule (\<lambda>_. False) ds_demo) = [(7, 1), (9, 2)] \<and> assigned_to (snd (ds_Schedule (\<lambda>_. False) ds_demo)) 2 = 9"
  using data_sched_schedule[OF ds_demo_reach surjective_pairing[of "ds_Schedule (\<lambda>_. False) ds_demo"],
      THEN conjunct1, rule_format, of 9 2] ds_demo_schedule
  by simp

end
