(* ===== verification/Orphan.thy ===== *)
theory Orphan
  imports HA_Prelude
begin

text \<open>
  \<^verbatim>\<open>COrphan\<close> (\<^verbatim>\<open>src/src/blockchain/schedule.cpp\<close>): the blocks and transactions that wait for a predecessor,
  as a multimap from the predecessor to the waiting hash. \<open>RemoveBranch\<close> collects everything that waits,
  directly or not, for a hash. Its work list is an array that grows while it is walked; the model keeps the
  array and the index, and it ends on every multimap, cyclic ones included, because each round removes the
  entries it follows. The array never grows past the capacity reserved at the start, which is what keeps
  the reference into it valid while elements are appended.
\<close>

record orphan =
  mapOrphanByPrev :: "(u256 \<times> u256) list"

definition or_GetSize :: "orphan \<Rightarrow> nat" where
  "or_GetSize w = length (mapOrphanByPrev w)"

definition or_AddNew :: "u256 \<Rightarrow> u256 \<Rightarrow> orphan \<Rightarrow> orphan" where
  "or_AddNew prev hash w = w\<lparr>mapOrphanByPrev := mm_insert prev hash (mapOrphanByPrev w)\<rparr>"

definition or_Remove :: "u256 \<Rightarrow> orphan \<Rightarrow> orphan" where
  "or_Remove hash w = w\<lparr>mapOrphanByPrev := filter (\<lambda>e. snd e \<noteq> hash) (mapOrphanByPrev w)\<rparr>"

definition or_GetNext :: "u256 \<Rightarrow> u256 list \<Rightarrow> orphan \<Rightarrow> u256 list" where
  "or_GetNext prev vNext w = vNext @ mm_range prev (mapOrphanByPrev w)"

text \<open>The overload that skips what the set already has.\<close>

fun next_new :: "u256 list \<Rightarrow> u256 list \<times> u256 list \<Rightarrow> u256 list \<times> u256 list" where
  "next_new [] (vNext, setHash) = (vNext, setHash)"
| "next_new (h # hs) (vNext, setHash) =
     next_new hs (if h \<in> set setHash then (vNext, setHash) else (vNext @ [h], sins h setHash))"

definition or_GetNextNew :: "u256 \<Rightarrow> u256 list \<times> u256 list \<Rightarrow> orphan \<Rightarrow> u256 list \<times> u256 list" where
  "or_GetNextNew prev vs w = next_new (mm_range prev (mapOrphanByPrev w)) vs"

definition or_erase :: "u256 \<Rightarrow> orphan \<Rightarrow> orphan" where
  "or_erase prev w = w\<lparr>mapOrphanByPrev := filter (\<lambda>e. fst e \<noteq> prev) (mapOrphanByPrev w)\<rparr>"

lemma length_next_new: "length (fst (next_new hs vs)) \<le> length (fst vs) + length hs"
proof (induction hs arbitrary: vs)
  case (Cons h hs)
  obtain v S where vs: "vs = (v, S)" by (cases vs)
  show ?case using Cons[of "if h \<in> set S then (v, S) else (v @ [h], sins h S)"] by (auto simp: vs split: if_splits)
qed (simp add: split_paired_all)

lemma length_mm_range: "length (mm_range k m) + length (filter (\<lambda>e. fst e \<noteq> k) m) = length m"
  using sum_length_filter_compl[of "\<lambda>e. fst e = k" m] by (simp add: mm_range_def)

function branch_loop :: "nat \<Rightarrow> u256 list \<times> u256 list \<Rightarrow> orphan \<Rightarrow> u256 list \<times> orphan" where
  "branch_loop i vs w =
     (if i < length (fst vs)
      then let hash = fst vs ! i in branch_loop (Suc i) (or_GetNextNew hash vs w) (or_erase hash w)
      else (fst vs, w))"
  by pat_completeness auto
termination
proof (relation "measure (\<lambda>(i, vs, w). length (mapOrphanByPrev w) + (length (fst vs) - i))")
  fix i :: nat and vs :: "u256 list \<times> u256 list" and w :: orphan and hash assume "i < length (fst vs)" "hash = fst vs ! i"
  then show "((Suc i, or_GetNextNew hash vs w, or_erase hash w), (i, vs, w))
      \<in> measure (\<lambda>(i, vs, w). length (mapOrphanByPrev w) + (length (fst vs) - i))"
    using length_next_new[of "mm_range hash (mapOrphanByPrev w)" vs] length_mm_range[of hash "mapOrphanByPrev w"]
    by (simp add: or_GetNextNew_def or_erase_def)
qed simp

declare branch_loop.simps [simp del]

definition or_RemoveBranch :: "u256 \<Rightarrow> orphan \<Rightarrow> u256 list \<times> orphan" where
  "or_RemoveBranch root w = branch_loop 0 (or_GetNextNew root ([], []) w) (or_erase root w)"

section \<open>What a branch is\<close>

definition waits :: "orphan \<Rightarrow> (u256 \<times> u256) set" where
  "waits w = set (mapOrphanByPrev w)"

lemma waits_ops [simp]:
  "waits (or_AddNew p h w) = insert (p, h) (waits w)"
  "waits (or_Remove h w) = {e \<in> waits w. snd e \<noteq> h}"
  "waits (or_erase p w) = {e \<in> waits w. fst e \<noteq> p}"
  by (simp_all add: waits_def or_AddNew_def or_Remove_def or_erase_def)

lemma set_mm_range: "set (mm_range k m) = {h. (k, h) \<in> set m}"
  by (force simp: mm_range_def)

lemma next_new_spec:
  assumes "distinct v" "set v = set S"
  shows "distinct (fst (next_new hs (v, S))) \<and> set (fst (next_new hs (v, S))) = set v \<union> set hs
    \<and> set (snd (next_new hs (v, S))) = set v \<union> set hs \<and> (\<exists>t. fst (next_new hs (v, S)) = v @ t)"
  using assms
proof (induction hs arbitrary: v S)
  case (Cons h hs)
  show ?case
  proof (cases "h \<in> set S")
    case False
    then show ?thesis using Cons.prems Cons.IH[of "v @ [h]" "sins h S"] by auto
  qed (use Cons.prems Cons.IH[of v S] in auto)
qed simp

text \<open>The loop's invariant: the array holds exactly what has been reached, the keys already walked are gone
  from the multimap, everything reached waits for the root, and what a walked hash led to is in the array.\<close>

definition branch_inv :: "orphan \<Rightarrow> u256 \<Rightarrow> nat \<Rightarrow> u256 list \<times> u256 list \<Rightarrow> orphan \<Rightarrow> bool" where
  "branch_inv w0 root i vs w \<longleftrightarrow>
     distinct (fst vs) \<and> set (fst vs) = set (snd vs) \<and> i \<le> length (fst vs)
     \<and> waits w = {e \<in> waits w0. fst e \<notin> insert root (set (take i (fst vs)))}
     \<and> (\<forall>h \<in> set (fst vs). (root, h) \<in> (waits w0)\<^sup>+)
     \<and> (\<forall>e \<in> waits w0. fst e \<in> insert root (set (take i (fst vs))) \<longrightarrow> snd e \<in> set (fst vs))"

lemma branch_step:
  assumes inv: "branch_inv w0 root i vs w" and i: "i < length (fst vs)"
  shows "branch_inv w0 root (Suc i) (or_GetNextNew (fst vs ! i) vs w) (or_erase (fst vs ! i) w)"
proof -
  obtain v S where vs: "vs = (v, S)" by (cases vs)
  define h where "h = v ! i"
  define hs where "hs = mm_range h (mapOrphanByPrev w)"
  obtain t where n: "distinct (fst (next_new hs (v, S)))" "set (fst (next_new hs (v, S))) = set v \<union> set hs"
      "set (snd (next_new hs (v, S))) = set v \<union> set hs" "fst (next_new hs (v, S)) = v @ t"
    using next_new_spec[of v S hs] inv by (auto simp: branch_inv_def vs)
  have tk: "take (Suc i) (v @ t) = take i v @ [h]" using i by (simp add: vs h_def take_Suc_conv_app_nth)
  have hv: "h \<in> set v" using i by (simp add: vs h_def)
  have hs: "set hs = {x. (h, x) \<in> waits w}" by (simp add: hs_def set_mm_range waits_def)
  have "\<forall>x \<in> set hs. (root, x) \<in> (waits w0)\<^sup>+"
    using inv hv by (auto simp: hs branch_inv_def vs intro: trancl_into_trancl)
  moreover have "snd e \<in> set v \<union> set hs" if "e \<in> waits w0" "fst e \<in> insert root (set (take i v @ [h]))" for e
    using inv that by (cases e) (auto simp: branch_inv_def vs hs)
  moreover have "waits (or_erase h w) = {e \<in> waits w0. fst e \<notin> insert root (set (take i v @ [h]))}"
    using inv by (auto simp: branch_inv_def vs)
  ultimately have "branch_inv w0 root (Suc i) (next_new hs (v, S)) (or_erase h w)"
    unfolding branch_inv_def n(2,3) unfolding n(4) tk using inv n i by (auto simp: branch_inv_def vs)
  then show ?thesis by (simp add: vs or_GetNextNew_def h_def[symmetric] hs_def[symmetric])
qed

lemma branch_loop_inv:
  "branch_inv w0 root i vs w \<Longrightarrow> branch_loop i vs w = (v, w') \<Longrightarrow>
    \<exists>S. branch_inv w0 root (length v) (v, S) w'"
proof (induction i vs w rule: branch_loop.induct)
  case (1 i vs w)
  show ?case
  proof (cases "i < length (fst vs)")
    case True
    then show ?thesis using 1 branch_step by (simp add: branch_loop.simps[of i vs w] Let_def)
  next
    case False
    then have "v = fst vs" "w' = w" using 1(3) by (simp_all add: branch_loop.simps[of i vs w])
    moreover have "i = length (fst vs)" using 1(2) False by (simp add: branch_inv_def)
    ultimately show ?thesis using 1(2) by (intro exI[of _ "snd vs"]) simp
  qed
qed

lemma branch_inv_start: "branch_inv w root 0 (or_GetNextNew root ([], []) w) (or_erase root w)"
  using next_new_spec[of "[]" "[]" "mm_range root (mapOrphanByPrev w)"]
  by (auto simp: branch_inv_def or_GetNextNew_def set_mm_range waits_def[symmetric])

lemma RemoveBranch_spec:
  assumes "or_RemoveBranch root w = (v, w')"
  shows "distinct v" "set v = {h. (root, h) \<in> (waits w)\<^sup>+}"
    "waits w' = {e \<in> waits w. fst e \<noteq> root \<and> (root, fst e) \<notin> (waits w)\<^sup>+}"
proof -
  obtain S where inv: "branch_inv w root (length v) (v, S) w'"
    using branch_loop_inv[OF branch_inv_start, of root w v w'] assms unfolding or_RemoveBranch_def by blast
  have "h \<in> set v" if "(root, h) \<in> (waits w)\<^sup>+" for h
    using that by induction (use inv in \<open>auto simp: branch_inv_def\<close>)
  then show v: "set v = {h. (root, h) \<in> (waits w)\<^sup>+}" using inv by (auto simp: branch_inv_def)
  show "distinct v" using inv by (simp add: branch_inv_def)
  show "waits w' = {e \<in> waits w. fst e \<noteq> root \<and> (root, fst e) \<notin> (waits w)\<^sup>+}"
    using inv v by (auto simp: branch_inv_def)
qed

lemma length_RemoveBranch: "or_RemoveBranch root w = (v, w') \<Longrightarrow> length v \<le> or_GetSize w"
proof -
  assume r: "or_RemoveBranch root w = (v, w')"
  have "(root, h) \<in> (waits w)\<^sup>+ \<Longrightarrow> h \<in> snd ` waits w" for h by (induction rule: trancl_induct) force+
  then have "set v \<subseteq> snd ` waits w" using RemoveBranch_spec(2)[OF r] by auto
  then have "card (set v) \<le> card (snd ` waits w)" by (rule card_mono[rotated]) (simp add: waits_def)
  also have "\<dots> \<le> length (mapOrphanByPrev w)"
    by (metis card_image_le card_length finite_set order_trans waits_def)
  finally show ?thesis using RemoveBranch_spec(1)[OF r] by (simp add: distinct_card or_GetSize_def)
qed

text \<open>(C18) Collecting a branch ends on every multimap, and returns each hash that waits for the root,
  directly or through others, exactly once and nothing else; the entries that remain are those whose
  predecessor is neither the root nor in the branch. The work list stays within the capacity reserved
  for it, which is the number of entries at the start.\<close>

theorem orphan_branch:
  "distinct (fst (or_RemoveBranch root w))
    \<and> set (fst (or_RemoveBranch root w)) = {h. (root, h) \<in> (set (mapOrphanByPrev w))\<^sup>+}
    \<and> set (mapOrphanByPrev (snd (or_RemoveBranch root w)))
      = {e \<in> set (mapOrphanByPrev w). fst e \<noteq> root \<and> fst e \<notin> set (fst (or_RemoveBranch root w))}
    \<and> length (fst (or_RemoveBranch root w)) \<le> or_GetSize w"
proof -
  obtain v w' where r: "or_RemoveBranch root w = (v, w')" by (cases "or_RemoveBranch root w")
  show ?thesis using RemoveBranch_spec[OF r] length_RemoveBranch[OF r] by (simp add: r waits_def)
qed

end
