(* ===== verification/Wide_Words.thy ===== *)
theory Wide_Words
  imports Stream_Codec
begin

text \<open>
  The components above the integer classes use the wide integers as words: a \<^verbatim>\<open>uint256\<close> is a
  \<^typ>\<open>u256\<close> and a \<^verbatim>\<open>uint160\<close> a \<^typ>\<open>u160\<close>. \<open>limbs\<close> is the array a word stands for and \<open>of_limbs\<close> reads
  it back, so that every operation that looks at the representation (the byte forms, the numbers packed
  into a block hash) is the one modelled on arrays. The theory also has the lemmas with which the
  serialisers of the structures built from these fields are shown to meet the contract \<open>codec\<close>.
\<close>

unbundle bit_operations_syntax

section \<open>Words and arrays\<close>

definition limbs :: "nat \<Rightarrow> 'a::len word \<Rightarrow> pn" where
  "limbs W w = map (\<lambda>i. ucast (drop_bit (32 * i) w)) [0..<W]"

definition of_limbs :: "pn \<Rightarrow> 'a::len word" where
  "of_limbs a = word_of_nat (pn_value a)"

lemma length_limbs [simp]: "length (limbs W w) = W"
  by (simp add: limbs_def)

lemma pn_value_limbs: "pn_value (limbs W (w :: 'a::len word)) = take_bit (32 * W) (unat w)"
proof (rule bit_eqI)
  fix n
  have "n < 32 * W \<Longrightarrow> 32 * (n div 32) + n mod 32 = n \<and> n div 32 < W" by (simp add: less_mult_imp_div_less mult.commute)
  then show "bit (pn_value (limbs W w)) n = bit (take_bit (32 * W) (unat w)) n"
    by (auto simp: bit_pn_value limbs_def bit_simps)
qed

lemma of_limbs_limbs: "LENGTH('a) \<le> 32 * W \<Longrightarrow> of_limbs (limbs W (w :: 'a::len word)) = w"
proof -
  assume l: "LENGTH('a) \<le> 32 * W"
  have "unat w < 2 ^ (32 * W)"
    by (rule less_le_trans[OF unsigned_less power_increasing[OF l]]) simp
  then show ?thesis by (simp add: of_limbs_def pn_value_limbs take_bit_nat_eq_self)
qed

lemma limbs_of_limbs: "length a = W \<Longrightarrow> LENGTH('a) = 32 * W \<Longrightarrow> limbs W (of_limbs a :: 'a::len word) = a"
proof -
  assume W: "length a = W" "LENGTH('a) = 32 * W"
  have "pn_value (limbs W (of_limbs a :: 'a word)) = pn_value a"
    using W pn_value_bound[of a] by (simp add: pn_value_limbs of_limbs_def unat_of_nat take_bit_nat_eq_self)
  then show ?thesis using pn_value_inj[of "limbs W (of_limbs a :: 'a word)" a] W by simp
qed

lemma of_limbs_u256: "of_limbs = u256_of"
  by (simp add: fun_eq_iff of_limbs_def u256_of_def)

lemma base_lt_limbs: "base_lt (limbs 8 a) (limbs 8 b) \<longleftrightarrow> a < (b :: u256)"
proof -
  have "unat a < 2 ^ 256" "unat b < 2 ^ 256" using unsigned_less[of a] unsigned_less[of b] by simp_all
  then have "pn_value (limbs 8 a) = unat a" "pn_value (limbs 8 b) = unat b"
    by (simp_all add: pn_value_limbs take_bit_nat_eq_self)
  then show ?thesis using lt_loop_rev[of "limbs 8 a" "limbs 8 b" False] by (simp add: base_lt_def word_less_nat_alt)
qed

section \<open>Fields of a structure\<close>

definition wide_save :: "nat \<Rightarrow> 'a::len word \<Rightarrow> bytes" where
  "wide_save W w = base_save (limbs W w)"

definition wide_load :: "nat \<Rightarrow> 'a::len word loader" where
  "wide_load W s = res_bind (uint_load W s) (\<lambda>(a, r). Inr (of_limbs a, r))"

definition wide_size :: "nat \<Rightarrow> 'a::len word \<Rightarrow> nat" where
  "wide_size W w = uint_size W (limbs W w)"

definition bool_save :: "bool \<Rightarrow> bytes" where
  "bool_save b = [if b then 1 else 0]"

definition bool_load :: "bool loader" where
  "bool_load s = res_bind (stream_Read 1 s) (\<lambda>(h, r). Inr (h ! 0 \<noteq> 0, r))"

definition bool_size :: "bool \<Rightarrow> nat" where
  "bool_size b = 1"

text \<open>The two field types whose element size is one byte.\<close>

definition u8_save :: "u8 \<Rightarrow> bytes" where
  "u8_save = fund_save 1"

definition u8_load :: "u8 loader" where
  "u8_load = fund_load 1"

definition bt_save :: "bytes \<Rightarrow> bytes" where
  "bt_save = fvector_save 1"

definition bt_load :: "bytes loader" where
  "bt_load = fvector_load 1"

definition bt_size :: "bytes \<Rightarrow> nat" where
  "bt_size = fvector_size 1"

text \<open>The shortened big-endian form, and its reader on an integer that is still null.\<close>

definition wide_ToValid :: "nat \<Rightarrow> 'a::len word \<Rightarrow> bytes" where
  "wide_ToValid W w = base_ToValidBigEndianData (limbs W w)"

definition wide_FromValid :: "nat \<Rightarrow> bytes \<Rightarrow> 'a::len word" where
  "wide_FromValid W d = of_limbs (base_FromValidBigEndianData (limbs W (0 :: 'a word)) d)"

lemma wide_FromValid_ToValid: "LENGTH('a) = 32 * W \<Longrightarrow> wide_FromValid W (wide_ToValid W w) = (w :: 'a::len word)"
  by (simp add: wide_FromValid_def wide_ToValid_def base_FromValid_ToValid of_limbs_limbs)

lemma length_wide_ToValid: "length (wide_ToValid W w) \<le> 4 * W"
  using length_dropWhile_le[of "\<lambda>b. b = 0" "rev (pn_bytes (limbs W w))"]
  by (simp add: wide_ToValid_def base_ToValid_dropWhile)

text \<open>A loader only takes bytes from the front. Loaders are composed with \<open>res_bind\<close>, and the property
  composes with them.\<close>

definition takes_prefix :: "'a loader \<Rightarrow> bool" where
  "takes_prefix ld \<longleftrightarrow> (\<forall>s x r. ld s = Inr (x, r) \<longrightarrow> (\<exists>p. s = p @ r))"

named_theorems prefix_intros \<open>loaders that take a prefix\<close>

lemma takes_prefix_bind [prefix_intros]:
  assumes "takes_prefix ld" "\<And>x. takes_prefix (k x)"
  shows "takes_prefix (\<lambda>s. res_bind (ld s) (\<lambda>(x, r). k x r))"
  unfolding takes_prefix_def
proof (intro allI impI)
  fix s y r assume "res_bind (ld s) (\<lambda>(x, r). k x r) = Inr (y, r)"
  then obtain x r1 where "ld s = Inr (x, r1)" "k x r1 = Inr (y, r)" by (auto simp: res_bind_Inr)
  then obtain p q where "s = p @ r1" "r1 = q @ r" using assms unfolding takes_prefix_def by blast
  then show "\<exists>p. s = p @ r" by (intro exI[of _ "p @ q"]) simp
qed

lemma takes_prefix_return [prefix_intros]: "takes_prefix (\<lambda>s. Inr (x, s))"
  by (simp add: takes_prefix_def)

lemma takes_prefix_fail [prefix_intros]: "takes_prefix (\<lambda>s. Inl e)"
  by (simp add: takes_prefix_def)

lemma takes_prefix_Read [prefix_intros]: "takes_prefix (stream_Read n)"
  unfolding takes_prefix_def by (auto dest!: stream_Read_suffix)

lemma takes_prefix_if [prefix_intros]: "takes_prefix a \<Longrightarrow> takes_prefix b \<Longrightarrow> takes_prefix (\<lambda>s. if P then a s else b s)"
  by (cases P) simp_all

context codec
begin

lemma load_prefix: "takes_prefix load"
  using load_suffix by (simp add: takes_prefix_def)

end

lemma takes_prefix_iff: "takes_prefix ld \<Longrightarrow> ld s = Inr (x, r) \<Longrightarrow> \<exists>p. s = p @ r"
  by (simp add: takes_prefix_def)

lemma takes_prefix_uint [prefix_intros]: "takes_prefix (uint_load W)"
  by (rule uint.load_prefix)

lemma takes_prefix_wide [prefix_intros]: "takes_prefix (wide_load W)"
  unfolding wide_load_def by (intro prefix_intros)

lemma wide_codec: "LENGTH('a) = 32 * W \<Longrightarrow> codec (wide_save W :: 'a::len word \<Rightarrow> bytes) (wide_load W) (wide_size W) (\<lambda>_. True)"
  using uint.load_save[of _ W] uint.size_save[of _ W] takes_prefix_iff[OF takes_prefix_wide]
  by unfold_locales (auto simp: wide_load_def wide_save_def wide_size_def of_limbs_limbs)

interpretation h256: codec "wide_save 8 :: u256 \<Rightarrow> bytes" "wide_load 8" "wide_size 8" "\<lambda>_. True"
  by (rule wide_codec) simp

interpretation h160: codec "wide_save 5 :: u160 \<Rightarrow> bytes" "wide_load 5" "wide_size 5" "\<lambda>_. True"
  by (rule wide_codec) simp

lemma takes_prefix_fund [prefix_intros]: "takes_prefix (fund_load n)"
  unfolding fund_load_def by (intro prefix_intros)

lemma fund_codec: "LENGTH('a) = 8 * n \<Longrightarrow> codec (fund_save n :: 'a::len word \<Rightarrow> bytes) (fund_load n) (\<lambda>_. n) (\<lambda>_. True)"
  using takes_prefix_iff[OF takes_prefix_fund]
  by unfold_locales (auto simp: fund_load_def fund_of_bytes_save)

interpretation f8: codec u8_save u8_load "\<lambda>_. 1" "\<lambda>_. True" unfolding u8_save_def u8_load_def by (rule fund_codec) simp
interpretation f16: codec "fund_save 2 :: u16 \<Rightarrow> bytes" "fund_load 2" "\<lambda>_. 2" "\<lambda>_. True" by (rule fund_codec) simp
interpretation f32: codec "fund_save 4 :: u32 \<Rightarrow> bytes" "fund_load 4" "\<lambda>_. 4" "\<lambda>_. True" by (rule fund_codec) simp
interpretation f64: codec "fund_save 8 :: u64 \<Rightarrow> bytes" "fund_load 8" "\<lambda>_. 8" "\<lambda>_. True" by (rule fund_codec) simp

lemma takes_prefix_bool [prefix_intros]: "takes_prefix bool_load"
  unfolding bool_load_def by (intro prefix_intros)

interpretation fbool: codec bool_save bool_load bool_size "\<lambda>_. True"
  using takes_prefix_iff[OF takes_prefix_bool]
  by unfold_locales (auto simp: bool_load_def bool_save_def bool_size_def)

abbreviation str_ok :: "bytes \<Rightarrow> bool" where
  "str_ok t \<equiv> length t < 2 ^ 62"
abbreviation bt_ok :: "bytes \<Rightarrow> bool" where
  "bt_ok t \<equiv> length t < 2 ^ 63"

interpretation bt: codec bt_save bt_load bt_size bt_ok
  using bytesv.load_save bytesv.size_save bytesv.load_suffix unfolding bt_save_def bt_load_def bt_size_def
  by unfold_locales auto

lemmas field_prefix [prefix_intros] = varint.load_prefix str.load_prefix bt.load_prefix f8.load_prefix

lemmas field_load [simp] = h256.load_save[OF TrueI] h160.load_save[OF TrueI] f8.load_save[OF TrueI] f16.load_save[OF TrueI]
  f32.load_save[OF TrueI] f64.load_save[OF TrueI] fbool.load_save[OF TrueI] varint.load_save[OF TrueI] bt.load_save str.load_save

lemma length_u8_save [simp]: "length (u8_save b) = Suc 0"
  by (simp add: u8_save_def)

lemmas field_size = bt.size_save str.size_save h256.size_save[OF TrueI] h160.size_save[OF TrueI] fbool.size_save[OF TrueI] varint.size_save[OF TrueI]

lemma takes_prefix_option [prefix_intros]:
  assumes "takes_prefix a" "\<And>x. takes_prefix (b x)"
  shows "takes_prefix (\<lambda>s. case y of None \<Rightarrow> a s | Some x \<Rightarrow> b x s)"
  using assms by (cases y) simp_all

lemma wide_bt_load [simp]:
  "bt_load (bt_save (wide_ToValid 5 d) @ r) = Inr (wide_ToValid 5 d, r)"
  "bt_load (bt_save (wide_ToValid 8 w) @ r) = Inr (wide_ToValid 8 w, r)"
  by (rule bt.load_save, use length_wide_ToValid[of 5 d] length_wide_ToValid[of 8 w] in simp)+

text \<open>\<^verbatim>\<open>SetBytes\<close> on a null integer and \<^verbatim>\<open>GetBytes\<close>, in memory order.\<close>

definition wide_GetBytes :: "nat \<Rightarrow> 'a::len word \<Rightarrow> bytes" where
  "wide_GetBytes W w = base_GetBytes (limbs W w)"

definition wide_SetBytes :: "nat \<Rightarrow> bytes \<Rightarrow> nat \<times> 'a::len word" where
  "wide_SetBytes W d = (case base_SetBytes (limbs W (0 :: 'a word)) d of (n, a) \<Rightarrow> (n, of_limbs a))"

lemma length_wide_GetBytes [simp]: "length (wide_GetBytes W w) = 4 * W"
  by (simp add: wide_GetBytes_def base_GetBytes_def)

lemma wide_SetBytes_GetBytes: "LENGTH('a) = 32 * W \<Longrightarrow> wide_SetBytes W (wide_GetBytes W w) = (4 * W, w :: 'a::len word)"
  using bytes_pn_pn_bytes[of "limbs W w"]
  by (simp add: wide_SetBytes_def wide_GetBytes_def base_SetBytes_def base_GetBytes_def of_limbs_limbs)

lemma wide_SetBytes_null: "LENGTH('a) = 32 * W \<Longrightarrow> 0 < W \<Longrightarrow> wide_SetBytes W [] = (0, 0 :: 'a::len word)"
  by (simp add: wide_SetBytes_def base_SetBytes_def of_limbs_limbs)

end
