(* ===== verification/TimeVault.thy ===== *)
theory TimeVault
  imports HA_Prelude
begin

text \<open>
  \<^verbatim>\<open>CTimeVault\<close> of \<^verbatim>\<open>src/src/common/destination.cpp\<close>: the time vault of an address, an amount that is
  either a surplus or a debt. The debt grows with the balance held over time and is paid off with the
  fees of transfers. Amounts are 256-bit words, times 64-bit words, with the wrap-around of the code.

  The height switches \<^verbatim>\<open>VERIFY_FHX_HEIGHT_BRANCH_003\<close> and \<^verbatim>\<open>_004\<close> and the constants
  \<^verbatim>\<open>ESTIMATE_TIME_VAULT_TS_MAINCHAIN\<close> and \<^verbatim>\<open>_SUBCHAIN\<close> are not defined by the repository; they are the
  fields of \<open>tv_params\<close>, as is the network flag \<^verbatim>\<open>TESTNET_FLAG\<close>.
\<close>

section \<open>State and operations\<close>

record time_vault =
  nPrevSettlementTime :: u64
  fSurplus :: bool
  nTvAmount :: u256
  nBalanceAmount :: u256

record tv_params =
  branch_003 :: "u32 \<Rightarrow> bool"
  branch_004 :: "u32 \<Rightarrow> bool"
  ts_mainchain :: u64
  ts_subchain :: u64
  TESTNET_FLAG :: bool

definition TIME_VAULT_RATE :: u256 where
  "TIME_VAULT_RATE = 365 * 24 * 3600 * 100"

definition GIVE_TIME_VAULT_TS :: u256 where
  "GIVE_TIME_VAULT_TS = 3600 * 24"

definition COIN :: u256 where
  "COIN = 10 ^ 18"

definition tv_SetNull :: time_vault where
  "tv_SetNull = \<lparr>nPrevSettlementTime = 0, fSurplus = False, nTvAmount = 0, nBalanceAmount = 0\<rparr>"

definition tv_IsNull :: "time_vault \<Rightarrow> bool" where
  "tv_IsNull v = (nPrevSettlementTime v = 0)"

definition tv_day :: "tv_params \<Rightarrow> u64" where
  "tv_day P = (if TESTNET_FLAG P then 60 * 5 else 3600 * 24)"

definition tv_tick :: "tv_params \<Rightarrow> u64" where
  "tv_tick P = (if TESTNET_FLAG P then 20 else 60 * 10)"

definition EstimateBlockTime :: "tv_params \<Rightarrow> u64 \<Rightarrow> bool \<Rightarrow> u64" where
  "EstimateBlockTime P nTime fEstimate =
     (let nDayTs = tv_day P; nEstCalcTime = nTime div nDayTs * nDayTs
      in if fEstimate then
           (let nTickTs = tv_tick P
            in if nEstCalcTime > nTickTs \<and> nEstCalcTime + nDayTs - nTime \<le> nTickTs
               then nEstCalcTime + nDayTs else nEstCalcTime)
         else nEstCalcTime)"

definition SettlementTimeVault :: "tv_params \<Rightarrow> u32 \<Rightarrow> u64 \<Rightarrow> bool \<Rightarrow> time_vault \<Rightarrow> time_vault" where
  "SettlementTimeVault P nHeight nBlockTime fEstimate v =
     (let nCalcTime = (if branch_003 P nHeight then EstimateBlockTime P nBlockTime fEstimate else nBlockTime);
          v1 = (if nPrevSettlementTime v > 0 \<and> nCalcTime > nPrevSettlementTime v then
                  (let nTvs = (nBalanceAmount v * ucast (nCalcTime - nPrevSettlementTime v)) div TIME_VAULT_RATE
                   in if fSurplus v then
                        (if nTvAmount v > nTvs then v\<lparr>nTvAmount := nTvAmount v - nTvs\<rparr>
                         else v\<lparr>nTvAmount := nTvs - nTvAmount v, fSurplus := False\<rparr>)
                      else v\<lparr>nTvAmount := nTvAmount v + nTvs\<rparr>)
                else v)
      in if branch_003 P nHeight then
           (if nCalcTime > nPrevSettlementTime v1 then v1\<lparr>nPrevSettlementTime := nCalcTime\<rparr> else v1)
         else v1\<lparr>nPrevSettlementTime := nCalcTime\<rparr>)"

definition ModifyBalance :: "u256 \<Rightarrow> time_vault \<Rightarrow> time_vault" where
  "ModifyBalance nBalance v = v\<lparr>nBalanceAmount := nBalance\<rparr>"

definition CalcTransTvGasFee :: "tv_params \<Rightarrow> u32 \<Rightarrow> u256 \<Rightarrow> time_vault \<Rightarrow> u256" where
  "CalcTransTvGasFee P nHeight nTransAmount v =
     (if fSurplus v \<or> nTvAmount v = 0 then 0
      else if nBalanceAmount v = 0 \<or> nBalanceAmount v \<le> nTransAmount then nTvAmount v
      else if branch_004 P nHeight \<and> nBalanceAmount v \<le> nTvAmount v * 2 then nTvAmount v
      else (nTvAmount v * nTransAmount) div nBalanceAmount v)"

definition EstimateTransTvGasFee ::
  "tv_params \<Rightarrow> bool \<Rightarrow> u32 \<Rightarrow> u64 \<Rightarrow> bool \<Rightarrow> u256 \<Rightarrow> time_vault \<Rightarrow> u256 \<times> time_vault" where
  "EstimateTransTvGasFee P fPrimary nHeight nEstimateBlockTime fEstimate nTransAmount v =
     (let v1 = (if branch_003 P nHeight then SettlementTimeVault P nHeight nEstimateBlockTime fEstimate v
                else SettlementTimeVault P nHeight
                       (if fEstimate then (if fPrimary then nEstimateBlockTime + ts_mainchain P
                                           else nEstimateBlockTime + ts_subchain P)
                        else nEstimateBlockTime) False v)
      in (CalcTransTvGasFee P nHeight (if nTransAmount = 0 then COIN else nTransAmount) v1, v1))"

definition PayTvGasFee :: "u256 \<Rightarrow> time_vault \<Rightarrow> time_vault" where
  "PayTvGasFee nTvGasFee v =
     (if fSurplus v then v\<lparr>nTvAmount := nTvAmount v + nTvGasFee\<rparr>
      else if nTvAmount v > nTvGasFee then v\<lparr>nTvAmount := nTvAmount v - nTvGasFee\<rparr>
      else v\<lparr>fSurplus := True, nTvAmount := nTvGasFee - nTvAmount v\<rparr>)"

definition CalcGiveTvFee :: "u256 \<Rightarrow> u256" where
  "CalcGiveTvFee nAmount = (nAmount * GIVE_TIME_VAULT_TS) div TIME_VAULT_RATE"

text \<open>The fee and the gas, as the code leaves them in its two reference arguments.\<close>

definition CalcRealityTvGasFee :: "u256 \<Rightarrow> u256 \<Rightarrow> u256 \<times> u256" where
  "CalcRealityTvGasFee nGasPrice nTvGasFee =
     (if nTvGasFee > 0 \<and> nGasPrice > 0 then
        (let nTvGas = nTvGasFee div nGasPrice
         in if nTvGas > 0 then
              (if nTvGas * nGasPrice < nTvGasFee then (nGasPrice * (nTvGas + 1), nTvGas + 1)
               else (nTvGasFee, nTvGas))
            else (nGasPrice, 1))
      else (0, 0))"

section \<open>What the vault holds\<close>

text \<open>The vault as a signed amount: positive for a surplus, negative for a debt.\<close>

definition tv_value :: "time_vault \<Rightarrow> int" where
  "tv_value v = (if fSurplus v then uint (nTvAmount v) else - uint (nTvAmount v))"

lemma uint_add_small: "uint (a :: u256) + uint b < 2 ^ 256 \<Longrightarrow> uint (a + b) = uint a + uint b"
  by (simp add: uint_word_ariths)

lemma uint_mult_small: "uint (a :: u256) * uint b < 2 ^ 256 \<Longrightarrow> uint (a * b) = uint a * uint b"
  by (simp add: uint_word_ariths)

lemma uint_sub_small: "b \<le> a \<Longrightarrow> uint (a - b :: u256) = uint a - uint b"
  by (simp add: uint_minus_simple_alt[THEN iffD1] word_le_def)

lemma uint_rate [simp]: "uint TIME_VAULT_RATE = 3153600000"
  by (simp add: TIME_VAULT_RATE_def)

lemma uint_time_u256: "uint (ucast (t :: u64) :: u256) = uint t"
  by (simp add: uint_up_ucast is_up)

text \<open>The debt a balance builds up over a time, in whole units.\<close>

definition tv_accrued :: "u256 \<Rightarrow> int \<Rightarrow> int" where
  "tv_accrued b t = uint b * t div 3153600000"

lemma accrued_word:
  assumes "uint b * uint t < 2 ^ 256"
  shows "uint (b * ucast (t :: u64) div TIME_VAULT_RATE) = tv_accrued b (uint t)"
  using assms uint_mult_small[of b "ucast t"] by (simp add: uint_div uint_time_u256 tv_accrued_def)

lemma PayTvGasFee_value:
  assumes "uint (nTvAmount v) + uint f < 2 ^ 256"
  shows "tv_value (PayTvGasFee f v) = tv_value v + uint f"
  using uint_add_small[OF assms]
  by (auto simp: PayTvGasFee_def tv_value_def uint_sub_small word_less_def word_le_def not_less)

lemma SettlementTimeVault_value:
  fixes P h t e v
  defines "c \<equiv> if branch_003 P h then EstimateBlockTime P t e else t"
  defines "d \<equiv> uint c - uint (nPrevSettlementTime v)"
  assumes "uint (nBalanceAmount v) * d < 2 ^ 256" "uint (nTvAmount v) + tv_accrued (nBalanceAmount v) d < 2 ^ 256"
  shows "tv_value (SettlementTimeVault P h t e v) =
    (if nPrevSettlementTime v > 0 \<and> c > nPrevSettlementTime v then tv_value v - tv_accrued (nBalanceAmount v) d else tv_value v)"
proof (cases "nPrevSettlementTime v > 0 \<and> c > nPrevSettlementTime v")
  case True
  have d: "uint (c - nPrevSettlementTime v) = d"
    using True by (simp add: d_def uint_minus_simple_alt[THEN iffD1] word_le_def word_less_def)
  have a: "uint ((nBalanceAmount v * ucast (c - nPrevSettlementTime v)) div TIME_VAULT_RATE) = tv_accrued (nBalanceAmount v) d"
    using accrued_word[of "nBalanceAmount v" "c - nPrevSettlementTime v"] assms(3) by (simp add: d)
  show ?thesis
    using True uint_add_small[of "nTvAmount v" "(nBalanceAmount v * ucast (c - nPrevSettlementTime v)) div TIME_VAULT_RATE"] assms(4)
    unfolding SettlementTimeVault_def c_def[symmetric] Let_def
    by (auto simp: tv_value_def a uint_sub_small word_less_def word_le_def not_less)
next
  case False
  then show ?thesis
    unfolding SettlementTimeVault_def c_def[symmetric] Let_def by (auto simp: tv_value_def)
qed

lemma CalcTransTvGasFee_bound:
  assumes "uint (nTvAmount v) * uint a < 2 ^ 256"
  shows "CalcTransTvGasFee P h a v \<le> nTvAmount v" "fSurplus v \<Longrightarrow> CalcTransTvGasFee P h a v = 0"
proof -
  have "uint (nTvAmount v * a div nBalanceAmount v) \<le> uint (nTvAmount v)" if "\<not> nBalanceAmount v \<le> a"
  proof -
    have "uint (nTvAmount v) * uint a \<le> uint (nTvAmount v) * uint (nBalanceAmount v)"
      using that by (intro mult_left_mono) (simp_all add: word_le_def)
    then have "uint (nTvAmount v) * uint a div uint (nBalanceAmount v) \<le>
        uint (nTvAmount v) * uint (nBalanceAmount v) div uint (nBalanceAmount v)"
      by (rule zdiv_mono1) (use that uint_nonnegative[of a] in \<open>unfold word_le_def, linarith\<close>)
    also have "\<dots> \<le> uint (nTvAmount v)" by simp
    finally show ?thesis using uint_mult_small[OF assms] by (simp add: uint_div)
  qed
  then show "CalcTransTvGasFee P h a v \<le> nTvAmount v"
    by (auto simp: CalcTransTvGasFee_def word_le_def)
qed (simp add: CalcTransTvGasFee_def)


lemma CalcRealityTvGasFee_cover:
  assumes "0 < p" "0 < f" "uint f + uint p < 2 ^ 256" "CalcRealityTvGasFee p f = (f', g)"
  shows "uint f' = uint p * uint g" "uint f \<le> uint f'" "uint f' < uint f + uint p"
proof -
  define q where "q = uint f div uint p"
  have p0: "0 < uint p" and f0: "0 < uint f" using assms(1,2) by (simp_all add: word_less_def)
  have f: "uint f = uint p * q + uint f mod uint p" "0 \<le> uint f mod uint p" "uint f mod uint p < uint p" "0 \<le> q"
    using p0 by (simp_all add: q_def pos_imp_zdiv_nonneg_iff)
  have le: "uint p * q \<le> uint f" using f by linarith
  have qp: "uint (f div p) = q" by (simp add: q_def uint_div)
  have "uint (f div p) * uint p < 2 ^ 256" unfolding qp mult.commute[of q] using le assms(3) p0 by linarith
  then have mul: "uint (f div p * p) = uint p * q" using uint_mult_small[of "f div p" p] by (simp only: qp mult.commute[of q])
  have "q * 1 \<le> q * uint p" by (rule mult_left_mono) (use p0 f(4) in simp_all)
  then have q256: "q + 1 < 2 ^ 256" using le p0 assms(3) unfolding mult.commute[of "uint p"] by linarith
  have inc: "uint (f div p + 1) = q + 1" using uint_add_small[of "f div p" 1] q256 by (simp only: qp uint_1)
  have "uint p * (q + 1) < 2 ^ 256" unfolding distrib_left mult_1_right using le assms(3) by linarith
  then have up: "uint (p * (f div p + 1)) = uint p * (q + 1)" using uint_mult_small[of p "f div p + 1"] by (simp only: inc)
  consider "q = 0" | "q > 0" "uint p * q < uint f" | "q > 0" "uint p * q = uint f" using f(4) le by fastforce
  then have "uint f' = uint p * uint g \<and> uint f \<le> uint f' \<and> uint f' < uint f + uint p"
  proof cases
    case 1
    then have "f' = p" "g = 1" using assms(1,2,4) qp by (simp_all add: CalcRealityTvGasFee_def Let_def word_less_def)
    then show ?thesis using 1 f f0 by simp
  next
    case 2
    have "f div p * p < f" using 2 mul by (simp add: word_less_def)
    moreover have "0 < f div p" using 2 qp by (simp add: word_less_def)
    ultimately have "f' = p * (f div p + 1)" "g = f div p + 1"
      using assms(1,2,4) by (auto simp: CalcRealityTvGasFee_def Let_def)
    then have "uint f' = uint p * q + uint p" "uint g = q + 1" using up inc by (simp_all only: distrib_left mult_1_right)
    then show ?thesis using 2(2) f(1,3) by (simp only: distrib_left mult_1_right) linarith
  next
    case 3
    have "\<not> f div p * p < f" using 3 mul by (simp add: word_less_def)
    moreover have "0 < f div p" using 3 qp by (simp add: word_less_def)
    ultimately have "f' = f" "g = f div p" using assms(1,2,4) by (auto simp: CalcRealityTvGasFee_def Let_def)
    then show ?thesis using 3 qp p0 by simp
  qed
  then show "uint f' = uint p * uint g" "uint f \<le> uint f'" "uint f' < uint f + uint p" by simp_all
qed


lemma EstimateBlockTime_floor: "uint (EstimateBlockTime P t False) = uint t div uint (tv_day P) * uint (tv_day P)"
proof -
  have "0 < uint (tv_day P)" by (simp add: tv_day_def)
  then have "uint t div uint (tv_day P) * uint (tv_day P) \<le> uint t" by (simp add: minus_mod_eq_div_mult[symmetric])
  then have "uint t div uint (tv_day P) * uint (tv_day P) < 2 ^ 64" using uint_bounded[of t] by simp
  moreover have "0 \<le> uint t div uint (tv_day P) * uint (tv_day P)" by (simp add: pos_imp_zdiv_nonneg_iff tv_day_def)
  ultimately show ?thesis by (simp add: EstimateBlockTime_def Let_def uint_word_ariths uint_div)
qed

lemma EstimateBlockTime_window:
  assumes "uint t < 2 ^ 64 - 86400"
  shows "uint (tv_day P) dvd uint (EstimateBlockTime P t e)"
    "uint t - uint (tv_day P) < uint (EstimateBlockTime P t e)"
    "uint (EstimateBlockTime P t e) \<le> uint t + (if e then uint (tv_tick P) else 0)"
proof -
  define D where "D = uint (tv_day P)"
  define B where "B = t div tv_day P * tv_day P"
  have D: "0 < D" "D \<le> 86400" by (simp_all add: D_def tv_day_def)
  have B: "uint B = uint t div D * D" using EstimateBlockTime_floor[of P t] by (simp add: EstimateBlockTime_def Let_def B_def D_def)
  have Bt: "uint B \<le> uint t" "uint t < uint B + D" using D unfolding B
    by (simp_all add: minus_mod_eq_div_mult[symmetric])
  have "uint B + uint (tv_day P) < 2 ^ 64" using Bt(1) D(2) assms unfolding D_def by linarith
  then have BD: "uint (B + tv_day P) = uint B + D" by (simp add: uint_word_ariths D_def)
  have gap: "uint (B + tv_day P - t) = uint B + D - uint t"
    using Bt(2) BD by (simp add: uint_minus_simple_alt[THEN iffD1] word_le_def)
  have E: "EstimateBlockTime P t e = (if e \<and> tv_tick P < B \<and> B + tv_day P - t \<le> tv_tick P then B + tv_day P else B)"
    by (simp add: EstimateBlockTime_def Let_def B_def)
  show "uint (tv_day P) dvd uint (EstimateBlockTime P t e)"
    unfolding E using B BD by (simp add: D_def)
  show "uint t - uint (tv_day P) < uint (EstimateBlockTime P t e)"
    unfolding E using Bt BD D by (simp add: D_def[symmetric])
  show "uint (EstimateBlockTime P t e) \<le> uint t + (if e then uint (tv_tick P) else 0)"
  proof -
    have "uint B \<le> uint t + uint (tv_tick P)" using Bt(1) uint_nonnegative[of "tv_tick P"] by linarith
    then show ?thesis unfolding E using Bt BD gap by (auto simp: word_le_def)
  qed
qed

section \<open>Properties\<close>

text \<open>(C32) The vault is an exact account: settling takes off what the balance built up since the last settlement (and
  turns a surplus into a debt where needed), paying a fee adds it (and turns a debt into a surplus), as long as the
  amounts involved stay below 2^256. After the height of branch 003 the settlement time never goes back.\<close>

theorem time_vault_account:
  assumes "c = (if branch_003 P h then EstimateBlockTime P t e else t)"
    and "uint (nBalanceAmount v) * (uint c - uint (nPrevSettlementTime v)) < 2 ^ 256"
    and "uint (nTvAmount v) + tv_accrued (nBalanceAmount v) (uint c - uint (nPrevSettlementTime v)) < 2 ^ 256"
    and "uint (nTvAmount v) + uint f < 2 ^ 256"
  shows "tv_value (SettlementTimeVault P h t e v) =
      (if nPrevSettlementTime v > 0 \<and> c > nPrevSettlementTime v
       then tv_value v - tv_accrued (nBalanceAmount v) (uint c - uint (nPrevSettlementTime v)) else tv_value v) \<and>
    nBalanceAmount (SettlementTimeVault P h t e v) = nBalanceAmount v \<and>
    (branch_003 P h \<longrightarrow> nPrevSettlementTime v \<le> nPrevSettlementTime (SettlementTimeVault P h t e v)) \<and>
    tv_value (PayTvGasFee f v) = tv_value v + uint f"
  using SettlementTimeVault_value[of v P h t e] PayTvGasFee_value[OF assms(4)] assms(2,3) unfolding assms(1)
  by (auto simp: SettlementTimeVault_def Let_def)

text \<open>(C33) The fee of a transfer never exceeds the debt and is 0 when there is none, and paying it never leaves
  a larger debt. Rounding the fee to whole gas gives the least multiple of the gas price that covers it.\<close>

theorem time_vault_fee:
  assumes "uint (nTvAmount v) * uint a < 2 ^ 256" "0 < p" "0 < f" "uint f + uint p < 2 ^ 256"
  shows "CalcTransTvGasFee P h a v \<le> nTvAmount v \<and> (fSurplus v \<longrightarrow> CalcTransTvGasFee P h a v = 0) \<and>
    tv_value v \<le> tv_value (PayTvGasFee (CalcTransTvGasFee P h a v) v) \<and>
    (\<exists>f' g. CalcRealityTvGasFee p f = (f', g) \<and> uint f' = uint p * uint g \<and> uint f \<le> uint f' \<and> uint f' < uint f + uint p)"
proof (intro conjI impI)
  note b = CalcTransTvGasFee_bound[OF assms(1), of P h]
  show "CalcTransTvGasFee P h a v \<le> nTvAmount v" by (rule b(1))
  show "CalcTransTvGasFee P h a v = 0" if "fSurplus v" using that by (rule b(2))
  show "tv_value v \<le> tv_value (PayTvGasFee (CalcTransTvGasFee P h a v) v)"
    using b by (auto simp: PayTvGasFee_def tv_value_def uint_sub_small word_less_def word_le_def)
  obtain f' g where r: "CalcRealityTvGasFee p f = (f', g)" by fastforce
  show "\<exists>f' g. CalcRealityTvGasFee p f = (f', g) \<and> uint f' = uint p * uint g \<and> uint f \<le> uint f' \<and> uint f' < uint f + uint p"
    using CalcRealityTvGasFee_cover[OF assms(2-4) r] r by blast
qed

text \<open>The time a settlement is made for is a whole number of days (of five minutes on the test network), no more
  than a day before the block and, when estimating, at most the tick after it.\<close>

theorem time_vault_day:
  assumes "uint t < 2 ^ 64 - 86400"
  shows "uint (tv_day P) dvd uint (EstimateBlockTime P t e) \<and> uint t - uint (tv_day P) < uint (EstimateBlockTime P t e) \<and>
    uint (EstimateBlockTime P t e) \<le> uint t + (if e then uint (tv_tick P) else 0)"
  using EstimateBlockTime_window[OF assms] by blast

definition tv_mainnet :: tv_params where
  "tv_mainnet = \<lparr>branch_003 = (\<lambda>h. 100 \<le> h), branch_004 = (\<lambda>h. 200 \<le> h), ts_mainchain = 3600, ts_subchain = 60, TESTNET_FLAG = False\<rparr>"

definition tv_demo :: time_vault where
  "tv_demo = \<lparr>nPrevSettlementTime = 86400, fSurplus = False, nTvAmount = 5, nBalanceAmount = 73000000\<rparr>"

theorem time_vault_account_witness:
  "tv_value (SettlementTimeVault tv_mainnet 7 172800 False tv_demo) = - 2005 \<and> tv_value (PayTvGasFee 9 tv_demo) = 4"
  using time_vault_account[of 172800 tv_mainnet 7 172800 False tv_demo 9]
  by (simp add: tv_demo_def tv_mainnet_def tv_value_def tv_accrued_def)

theorem time_vault_fee_witness:
  "CalcTransTvGasFee tv_mainnet 7 36500000 tv_demo \<le> 5 \<and> (\<exists>f' g. CalcRealityTvGasFee 4 10 = (f', g) \<and> uint f' = 4 * uint g)"
  using time_vault_fee[of tv_demo 36500000 4 10 tv_mainnet 7] by (auto simp: tv_demo_def)

theorem time_vault_day_witness: "uint (EstimateBlockTime tv_mainnet 172300 True) \<le> 172900"
  using time_vault_day[of 172300 tv_mainnet True] by (simp add: tv_tick_def tv_mainnet_def)

end
