(* ===== verification/Destination.thy ===== *)
theory Destination
  imports Wide_Words TimeVault
begin

text \<open>
  Addresses and what is stored about them: \<^verbatim>\<open>CDestination\<close>, the address contexts and the stored form of
  \<^verbatim>\<open>CTimeVault\<close>, from \<^verbatim>\<open>src/src/common/destination.h\<close> and \<^verbatim>\<open>.cpp\<close>. A \<^verbatim>\<open>std::string\<close> is its list of bytes.
  Each structure is written field by field, in the order of its \<^verbatim>\<open>Serialize\<close> template, and meets the contract
  \<open>codec\<close> of the stream.
\<close>

unbundle bit_operations_syntax

section \<open>CDestination\<close>

type_synonym destination = u160

definition dest_SetHash :: "u256 \<Rightarrow> destination" where
  "dest_SetHash hashData = of_limbs (bytes_pn 5 (take 20 (drop 12 (pn_bytes (limbs 8 hashData)))))"

definition dest_ToHash :: "destination \<Rightarrow> u256" where
  "dest_ToHash d = of_limbs (bytes_pn 8 (replicate 12 0 @ pn_bytes (limbs 5 d)))"

definition dest_GetCompressData :: "destination \<Rightarrow> bytes" where
  "dest_GetCompressData d = wide_ToValid 5 d"

definition dest_SetCompressData :: "bytes \<Rightarrow> destination" where
  "dest_SetCompressData d = wide_FromValid 5 d"

definition dest_ParseString :: "string \<Rightarrow> destination" where
  "dest_ParseString s = of_limbs (snd (base_SetHex 5 s))"

definition dest_ToString :: "destination \<Rightarrow> string" where
  "dest_ToString d = base_GetHex (limbs 5 d)"

section \<open>Address contexts\<close>

definition PREFIX_PUBKEY :: u8 where "PREFIX_PUBKEY = 1"
definition PREFIX_TEMPLATE :: u8 where "PREFIX_TEMPLATE = 2"
definition PREFIX_CONTRACT :: u8 where "PREFIX_CONTRACT = 3"

record template_ctx =
  tc_strName :: bytes
  tc_strDescribe :: bytes
  tc_nTemplateType :: u8
  tc_btData :: bytes

definition template_ctx_save :: "template_ctx \<Rightarrow> bytes" where
  "template_ctx_save c = string_save (tc_strName c) @ string_save (tc_strDescribe c) @ u8_save (tc_nTemplateType c) @
     bt_save (tc_btData c)"

definition template_ctx_load :: "template_ctx loader" where
  "template_ctx_load s = res_bind (string_load s) (\<lambda>(n, s). res_bind (string_load s) (\<lambda>(d, s).
     res_bind (u8_load s) (\<lambda>(t, s). res_bind (bt_load s) (\<lambda>(b, s).
       Inr (\<lparr>tc_strName = n, tc_strDescribe = d, tc_nTemplateType = t, tc_btData = b\<rparr>, s)))))"

definition template_ctx_size :: "template_ctx \<Rightarrow> nat" where
  "template_ctx_size c = string_size (tc_strName c) + string_size (tc_strDescribe c) + 1 + bt_size (tc_btData c)"

record contract_ctx =
  cc_strType :: bytes
  cc_destCodeOwner :: destination
  cc_strName :: bytes
  cc_strDescribe :: bytes
  cc_hashCreateTxid :: u256
  cc_hashSourceCode :: u256
  cc_hashContractCreateCode :: u256
  cc_hashContractRunCode :: u256

definition contract_ctx_save :: "contract_ctx \<Rightarrow> bytes" where
  "contract_ctx_save c = string_save (cc_strType c) @ wide_save 5 (cc_destCodeOwner c) @ string_save (cc_strName c) @
     string_save (cc_strDescribe c) @ wide_save 8 (cc_hashCreateTxid c) @ wide_save 8 (cc_hashSourceCode c) @
     wide_save 8 (cc_hashContractCreateCode c) @ wide_save 8 (cc_hashContractRunCode c)"

definition contract_ctx_load :: "contract_ctx loader" where
  "contract_ctx_load s = res_bind (string_load s) (\<lambda>(ty, s). res_bind (wide_load 5 s) (\<lambda>(ow, s).
     res_bind (string_load s) (\<lambda>(n, s). res_bind (string_load s) (\<lambda>(d, s). res_bind (wide_load 8 s) (\<lambda>(h1, s).
     res_bind (wide_load 8 s) (\<lambda>(h2, s). res_bind (wide_load 8 s) (\<lambda>(h3, s). res_bind (wide_load 8 s) (\<lambda>(h4, s).
       Inr (\<lparr>cc_strType = ty, cc_destCodeOwner = ow, cc_strName = n, cc_strDescribe = d, cc_hashCreateTxid = h1,
             cc_hashSourceCode = h2, cc_hashContractCreateCode = h3, cc_hashContractRunCode = h4\<rparr>, s)))))))))"

definition contract_ctx_size :: "contract_ctx \<Rightarrow> nat" where
  "contract_ctx_size c = string_size (cc_strType c) + wide_size 5 (cc_destCodeOwner c) + string_size (cc_strName c) +
     string_size (cc_strDescribe c) + wide_size 8 (cc_hashCreateTxid c) + wide_size 8 (cc_hashSourceCode c) +
     wide_size 8 (cc_hashContractCreateCode c) + wide_size 8 (cc_hashContractRunCode c)"

record address_ctx =
  ac_nType :: u8
  ac_btData :: bytes

definition ac_type :: "u8 \<Rightarrow> u8 \<Rightarrow> u8" where
  "ac_type nDestType nTemplateType = push_bit 5 nDestType OR (nTemplateType AND 0x1F)"

definition ac_new :: "u8 \<Rightarrow> u8 \<Rightarrow> bytes \<Rightarrow> address_ctx" where
  "ac_new nDestType nTemplateType btData = \<lparr>ac_nType = ac_type nDestType nTemplateType, ac_btData = btData\<rparr>"

definition ac_pubkey :: "bytes \<Rightarrow> address_ctx" where
  "ac_pubkey ctxPubkey = \<lparr>ac_nType = ac_type PREFIX_PUBKEY 0, ac_btData = ctxPubkey\<rparr>"

definition ac_template :: "template_ctx \<Rightarrow> address_ctx" where
  "ac_template c = \<lparr>ac_nType = ac_type PREFIX_TEMPLATE (tc_nTemplateType c), ac_btData = template_ctx_save c\<rparr>"

definition ac_contract :: "contract_ctx \<Rightarrow> address_ctx" where
  "ac_contract c = \<lparr>ac_nType = ac_type PREFIX_CONTRACT 0, ac_btData = contract_ctx_save c\<rparr>"

definition ac_IsNull :: "address_ctx \<Rightarrow> bool" where
  "ac_IsNull c = (ac_nType c = 0)"

definition ac_GetDestType :: "address_ctx \<Rightarrow> u8" where
  "ac_GetDestType c = drop_bit 5 (ac_nType c)"

definition ac_GetTemplateType :: "address_ctx \<Rightarrow> u8" where
  "ac_GetTemplateType c = ac_nType c AND 0x1F"

definition ac_IsPubkey :: "address_ctx \<Rightarrow> bool" where
  "ac_IsPubkey c = (ac_GetDestType c = PREFIX_PUBKEY)"

definition ac_IsTemplate :: "address_ctx \<Rightarrow> bool" where
  "ac_IsTemplate c = (ac_GetDestType c = PREFIX_TEMPLATE)"

definition ac_IsContract :: "address_ctx \<Rightarrow> bool" where
  "ac_IsContract c = (ac_GetDestType c = PREFIX_CONTRACT)"

text \<open>A structure read from a byte string of its own; an exception of the stream is the result \<open>None\<close>.\<close>

definition load_all :: "'a loader \<Rightarrow> bytes \<Rightarrow> 'a option" where
  "load_all ld s = (case ld s of Inl _ \<Rightarrow> None | Inr (x, r) \<Rightarrow> Some x)"

definition ac_GetTemplateAddressContext :: "address_ctx \<Rightarrow> template_ctx option" where
  "ac_GetTemplateAddressContext c =
     (if ac_GetDestType c = PREFIX_TEMPLATE then load_all template_ctx_load (ac_btData c) else None)"

definition ac_GetContractAddressContext :: "address_ctx \<Rightarrow> contract_ctx option" where
  "ac_GetContractAddressContext c =
     (if ac_GetDestType c = PREFIX_CONTRACT then load_all contract_ctx_load (ac_btData c) else None)"

definition ac_save :: "address_ctx \<Rightarrow> bytes" where
  "ac_save c = u8_save (ac_nType c) @ bt_save (ac_btData c)"

definition ac_load :: "address_ctx loader" where
  "ac_load s = res_bind (u8_load s) (\<lambda>(t, s). res_bind (bt_load s) (\<lambda>(b, s).
     Inr (\<lparr>ac_nType = t, ac_btData = b\<rparr>, s)))"

definition ac_size :: "address_ctx \<Rightarrow> nat" where
  "ac_size c = 1 + bt_size (ac_btData c)"

record function_ctx =
  fc_destFunction :: destination
  fc_fDisableModify :: bool

definition function_ctx_save :: "function_ctx \<Rightarrow> bytes" where
  "function_ctx_save c = wide_save 5 (fc_destFunction c) @ bool_save (fc_fDisableModify c)"

definition function_ctx_load :: "function_ctx loader" where
  "function_ctx_load s = res_bind (wide_load 5 s) (\<lambda>(d, s). res_bind (bool_load s) (\<lambda>(f, s).
     Inr (\<lparr>fc_destFunction = d, fc_fDisableModify = f\<rparr>, s)))"

definition function_ctx_size :: "function_ctx \<Rightarrow> nat" where
  "function_ctx_size c = wide_size 5 (fc_destFunction c) + bool_size (fc_fDisableModify c)"

record token_ctx =
  tk_hashCreateTxid :: u256
  tk_nAtBlockNumber :: u64
  tk_destCreate :: destination
  tk_strCoinName :: bytes
  tk_strCoinSymbol :: bytes
  tk_nCoinDecimals :: u8
  tk_nCoinTotalSupply :: u256

definition token_ctx_save :: "token_ctx \<Rightarrow> bytes" where
  "token_ctx_save c = wide_save 8 (tk_hashCreateTxid c) @ fund_save 8 (tk_nAtBlockNumber c) @ wide_save 5 (tk_destCreate c) @
     string_save (tk_strCoinName c) @ string_save (tk_strCoinSymbol c) @ u8_save (tk_nCoinDecimals c) @
     wide_save 8 (tk_nCoinTotalSupply c)"

definition token_ctx_load :: "token_ctx loader" where
  "token_ctx_load s = res_bind (wide_load 8 s) (\<lambda>(h, s). res_bind (fund_load 8 s) (\<lambda>(n, s). res_bind (wide_load 5 s) (\<lambda>(d, s).
     res_bind (string_load s) (\<lambda>(nm, s). res_bind (string_load s) (\<lambda>(sy, s). res_bind (u8_load s) (\<lambda>(dc, s).
     res_bind (wide_load 8 s) (\<lambda>(su, s).
       Inr (\<lparr>tk_hashCreateTxid = h, tk_nAtBlockNumber = n, tk_destCreate = d, tk_strCoinName = nm, tk_strCoinSymbol = sy,
             tk_nCoinDecimals = dc, tk_nCoinTotalSupply = su\<rparr>, s))))))))"

definition token_ctx_size :: "token_ctx \<Rightarrow> nat" where
  "token_ctx_size c = wide_size 8 (tk_hashCreateTxid c) + 8 + wide_size 5 (tk_destCreate c) + string_size (tk_strCoinName c) +
     string_size (tk_strCoinSymbol c) + 1 + wide_size 8 (tk_nCoinTotalSupply c)"

definition tv_save :: "time_vault \<Rightarrow> bytes" where
  "tv_save v = fund_save 8 (nPrevSettlementTime v) @ bool_save (fSurplus v) @ wide_save 8 (nTvAmount v) @ wide_save 8 (nBalanceAmount v)"

definition tv_load :: "time_vault loader" where
  "tv_load s = res_bind (fund_load 8 s) (\<lambda>(t, s). res_bind (bool_load s) (\<lambda>(f, s). res_bind (wide_load 8 s) (\<lambda>(a, s).
     res_bind (wide_load 8 s) (\<lambda>(b, s).
       Inr (\<lparr>nPrevSettlementTime = t, fSurplus = f, nTvAmount = a, nBalanceAmount = b\<rparr>, s)))))"

definition tv_size :: "time_vault \<Rightarrow> nat" where
  "tv_size v = 8 + bool_size (fSurplus v) + wide_size 8 (nTvAmount v) + wide_size 8 (nBalanceAmount v)"

section \<open>The structures meet the contract of the stream\<close>

interpretation template_ctx: codec template_ctx_save template_ctx_load template_ctx_size
  "\<lambda>c. str_ok (tc_strName c) \<and> str_ok (tc_strDescribe c) \<and> bt_ok (tc_btData c)"
proof unfold_locales
  have "takes_prefix template_ctx_load" unfolding template_ctx_load_def by (intro prefix_intros)
  then show "template_ctx_load s = Inr (x, r) \<Longrightarrow> \<exists>p. s = p @ r" for s x r by (rule takes_prefix_iff)
qed (simp_all add: template_ctx_save_def template_ctx_load_def template_ctx_size_def field_size)

interpretation contract_ctx: codec contract_ctx_save contract_ctx_load contract_ctx_size
  "\<lambda>c. str_ok (cc_strType c) \<and> str_ok (cc_strName c) \<and> str_ok (cc_strDescribe c)"
proof unfold_locales
  have "takes_prefix contract_ctx_load" unfolding contract_ctx_load_def by (intro prefix_intros)
  then show "contract_ctx_load s = Inr (x, r) \<Longrightarrow> \<exists>p. s = p @ r" for s x r by (rule takes_prefix_iff)
qed (simp_all add: contract_ctx_save_def contract_ctx_load_def contract_ctx_size_def field_size)

interpretation address_ctx: codec ac_save ac_load ac_size "\<lambda>c. bt_ok (ac_btData c)"
proof unfold_locales
  have "takes_prefix ac_load" unfolding ac_load_def by (intro prefix_intros)
  then show "ac_load s = Inr (x, r) \<Longrightarrow> \<exists>p. s = p @ r" for s x r by (rule takes_prefix_iff)
qed (simp_all add: ac_save_def ac_load_def ac_size_def field_size)

interpretation function_ctx: codec function_ctx_save function_ctx_load function_ctx_size "\<lambda>_. True"
proof unfold_locales
  have "takes_prefix function_ctx_load" unfolding function_ctx_load_def by (intro prefix_intros)
  then show "function_ctx_load s = Inr (x, r) \<Longrightarrow> \<exists>p. s = p @ r" for s x r by (rule takes_prefix_iff)
qed (simp_all add: function_ctx_save_def function_ctx_load_def function_ctx_size_def field_size)

interpretation token_ctx: codec token_ctx_save token_ctx_load token_ctx_size
  "\<lambda>c. str_ok (tk_strCoinName c) \<and> str_ok (tk_strCoinSymbol c)"
proof unfold_locales
  have "takes_prefix token_ctx_load" unfolding token_ctx_load_def by (intro prefix_intros)
  then show "token_ctx_load s = Inr (x, r) \<Longrightarrow> \<exists>p. s = p @ r" for s x r by (rule takes_prefix_iff)
qed (simp_all add: token_ctx_save_def token_ctx_load_def token_ctx_size_def field_size)

interpretation time_vault: codec tv_save tv_load tv_size "\<lambda>_. True"
proof unfold_locales
  have "takes_prefix tv_load" unfolding tv_load_def by (intro prefix_intros)
  then show "tv_load s = Inr (x, r) \<Longrightarrow> \<exists>p. s = p @ r" for s x r by (rule takes_prefix_iff)
qed (simp_all add: tv_save_def tv_load_def tv_size_def field_size)

section \<open>Properties\<close>

lemma ac_types:
  "drop_bit 5 (ac_type PREFIX_PUBKEY t) = PREFIX_PUBKEY" "drop_bit 5 (ac_type PREFIX_TEMPLATE t) = PREFIX_TEMPLATE"
  "drop_bit 5 (ac_type PREFIX_CONTRACT t) = PREFIX_CONTRACT" "ac_type d t AND 0x1F = t AND 0x1F"
proof -
  have m: "bit (0x1F :: u8) n \<longleftrightarrow> n < 5" for n
  proof -
    have "(0x1F :: u8) = mask 5" by (simp add: mask_numeral)
    then show ?thesis unfolding \<open>(0x1F :: u8) = mask 5\<close> by (auto simp only: bit_mask_iff) simp
  qed
  have "drop_bit 5 (ac_type d t) = d" if "\<forall>n. bit d n \<longrightarrow> n < 3" for d
    by (rule bit_word_eqI) (use that in \<open>auto simp: ac_type_def bit_simps m\<close>)
  moreover have "\<forall>n. bit (1 :: u8) n \<longrightarrow> n < 3" by (simp add: bit_1_iff)
  moreover have "bit (2 :: u8) n \<longrightarrow> n < 3" "bit (3 :: u8) n \<longrightarrow> n < 3" for n
    using bit_mask_iff[of 2 n, where 'a = u8] by (auto simp: mask_numeral bit_2_iff)
  ultimately show "drop_bit 5 (ac_type PREFIX_PUBKEY t) = PREFIX_PUBKEY" "drop_bit 5 (ac_type PREFIX_TEMPLATE t) = PREFIX_TEMPLATE"
    "drop_bit 5 (ac_type PREFIX_CONTRACT t) = PREFIX_CONTRACT"
    by (simp_all add: PREFIX_PUBKEY_def PREFIX_TEMPLATE_def PREFIX_CONTRACT_def)
  show "ac_type d t AND 0x1F = t AND 0x1F"
    by (rule bit_word_eqI) (auto simp only: ac_type_def bit_and_iff bit_or_iff bit_push_bit_iff m not_le)
qed

lemma prefix_distinct: "PREFIX_PUBKEY \<noteq> PREFIX_TEMPLATE" "PREFIX_PUBKEY \<noteq> PREFIX_CONTRACT" "PREFIX_TEMPLATE \<noteq> PREFIX_CONTRACT"
  by (simp_all add: PREFIX_PUBKEY_def PREFIX_TEMPLATE_def PREFIX_CONTRACT_def)

context codec
begin

lemma load_all_save: "ok x \<Longrightarrow> load_all load (save x) = Some x"
  using load_save[of x "[]"] by (simp add: load_all_def)

end

text \<open>(C34) An address context built from a public key, a template or a contract is recognised as that and as nothing
  else, keeps the low five bits of the template type, gives back the context it was built from, and survives
  the stream.\<close>

theorem address_context_kinds:
  assumes "str_ok (tc_strName t)" "str_ok (tc_strDescribe t)" "bt_ok (tc_btData t)"
    and "str_ok (cc_strType c)" "str_ok (cc_strName c)" "str_ok (cc_strDescribe c)" "bt_ok (ac_btData a)"
  shows "ac_GetTemplateAddressContext (ac_template t) = Some t \<and> ac_GetContractAddressContext (ac_contract c) = Some c \<and>
    ac_GetContractAddressContext (ac_template t) = None \<and> ac_GetTemplateAddressContext (ac_contract c) = None \<and>
    ac_GetTemplateType (ac_template t) = tc_nTemplateType t AND 0x1F \<and>
    ac_IsPubkey (ac_pubkey k) \<and> \<not> ac_IsTemplate (ac_pubkey k) \<and> \<not> ac_IsContract (ac_pubkey k) \<and>
    ac_IsTemplate (ac_template t) \<and> \<not> ac_IsContract (ac_template t) \<and> \<not> ac_IsPubkey (ac_template t) \<and>
    ac_IsContract (ac_contract c) \<and> \<not> ac_IsTemplate (ac_contract c) \<and> \<not> ac_IsPubkey (ac_contract c) \<and>
    ac_load (ac_save a @ r) = Inr (a, r)"
  using assms template_ctx.load_all_save[of t] contract_ctx.load_all_save[of c] address_ctx.load_save[of a r] prefix_distinct
  by (simp add: ac_GetTemplateAddressContext_def ac_GetContractAddressContext_def ac_GetDestType_def ac_GetTemplateType_def
      ac_IsPubkey_def ac_IsTemplate_def ac_IsContract_def ac_template_def ac_contract_def ac_pubkey_def ac_types
      prefix_distinct[symmetric])

text \<open>An address is recovered from its 256-bit form, from its text and from its shortened form of at
  most twenty bytes.\<close>

theorem destination_forms:
  "dest_SetHash (dest_ToHash d) = d \<and> dest_ParseString (dest_ToString d) = d \<and>
   dest_SetCompressData (dest_GetCompressData d) = d \<and> length (dest_GetCompressData d) \<le> 20"
proof (intro conjI)
  have "pn_bytes (limbs 8 (of_limbs (bytes_pn 8 (replicate 12 0 @ pn_bytes (limbs 5 d))) :: u256)) =
      replicate 12 0 @ pn_bytes (limbs 5 d)"
    by (subst limbs_of_limbs) (simp_all add: pn_bytes_bytes_pn)
  then have "dest_SetHash (dest_ToHash d) = of_limbs (bytes_pn 5 (pn_bytes (limbs 5 d)))"
    by (simp add: dest_SetHash_def dest_ToHash_def)
  then show "dest_SetHash (dest_ToHash d) = d"
    using bytes_pn_pn_bytes[of "limbs 5 d"] by (simp add: of_limbs_limbs)
  show "dest_ParseString (dest_ToString d) = d"
    by (simp add: dest_ParseString_def dest_ToString_def base_SetHex_GetHex of_limbs_limbs)
  show "dest_SetCompressData (dest_GetCompressData d) = d"
    by (simp add: dest_SetCompressData_def dest_GetCompressData_def wide_FromValid_ToValid)
  show "length (dest_GetCompressData d) \<le> 20"
    using length_wide_ToValid[of 5 d] by (simp add: dest_GetCompressData_def)
qed

theorem address_context_kinds_witness:
  "ac_GetTemplateAddressContext (ac_template \<lparr>tc_strName = [110], tc_strDescribe = [], tc_nTemplateType = 5, tc_btData = [1, 2]\<rparr>) =
     Some \<lparr>tc_strName = [110], tc_strDescribe = [], tc_nTemplateType = 5, tc_btData = [1, 2]\<rparr>"
  using address_context_kinds[of "\<lparr>tc_strName = [110], tc_strDescribe = [], tc_nTemplateType = 5, tc_btData = [1, 2]\<rparr>"
      "\<lparr>cc_strType = [], cc_destCodeOwner = 0, cc_strName = [], cc_strDescribe = [], cc_hashCreateTxid = 0, cc_hashSourceCode = 0,
        cc_hashContractCreateCode = 0, cc_hashContractRunCode = 0\<rparr>" "\<lparr>ac_nType = 0, ac_btData = []\<rparr>" "[]" "[]"]
  by simp

end
