(* ===== verification/Transaction.thy ===== *)
theory Transaction
  imports Destination Uint256_Ops
begin

text \<open>
  \<^verbatim>\<open>CTransaction\<close> of \<^verbatim>\<open>src/src/common/transaction.h\<close> and \<^verbatim>\<open>.cpp\<close>: the fields, the setters, the two wire
  formats and the hashes. A transaction of one of the two Ethereum types is held as the packet it came in;
  all its other fields are derived from that packet.

  The decoder of Ethereum packets (\<^verbatim>\<open>TransactionBase\<close> of the Ethereum library under \<^verbatim>\<open>heth\<close>) is the argument \<open>eth\<close>,
  \<open>None\<close> when its constructor throws; \<^verbatim>\<open>CryptoHash\<close> and \<^verbatim>\<open>CryptoVerify\<close> are the arguments \<open>H\<close> and \<open>V\<close>. Loading
  is modelled on an object that is still null, as the stream creates it.
\<close>

unbundle bit_operations_syntax

section \<open>State and accessors\<close>

record ctransaction =
  tx_nType :: u8
  tx_nChainId :: u32
  tx_nTxNonce :: u64
  tx_destFrom :: destination
  tx_destTo :: destination
  tx_nAmount :: u256
  tx_nGasPrice :: u256
  tx_nGasLimit :: u256
  tx_mapTxData :: "(u8 \<times> bytes) list"
  tx_vchSig :: bytes
  tx_btEthTx :: bytes
  tx_txidEthTx :: u256

record eth_tx =
  eth_isCreation :: bool
  eth_chainId :: u32
  eth_nonce :: u64
  eth_from :: destination
  eth_to :: destination
  eth_value :: u256
  eth_gasPrice :: u256
  eth_gas :: u256
  eth_signature :: bytes
  eth_data :: bytes
  eth_sha3 :: u256
  eth_sha3_unsigned :: u256

definition TX_NULL :: u8 where "TX_NULL = 0x00"
definition TX_GENESIS :: u8 where "TX_GENESIS = 0x01"
definition TX_TOKEN :: u8 where "TX_TOKEN = 0x02"
definition TX_CERT :: u8 where "TX_CERT = 0x03"
definition TX_STAKE :: u8 where "TX_STAKE = 0x04"
definition TX_POA :: u8 where "TX_POA = 0x05"
definition TX_VOTE_REWARD :: u8 where "TX_VOTE_REWARD = 0x06"
definition TX_INTERNAL :: u8 where "TX_INTERNAL = 0x07"
definition TX_EXTDATA :: u8 where "TX_EXTDATA = 0x08"
definition TX_ETH_CREATE_CONTRACT :: u8 where "TX_ETH_CREATE_CONTRACT = 0x11"
definition TX_ETH_MESSAGE_CALL :: u8 where "TX_ETH_MESSAGE_CALL = 0x12"
definition DF_ETH_TX_DATA :: u8 where "DF_ETH_TX_DATA = 0x05"
definition DF_TO_ADDRESS_DATA :: u8 where "DF_TO_ADDRESS_DATA = 0x11"

definition tx_SetNull :: ctransaction where
  "tx_SetNull = \<lparr>tx_nType = 0, tx_nChainId = 0, tx_nTxNonce = 0, tx_destFrom = 0, tx_destTo = 0, tx_nAmount = 0,
     tx_nGasPrice = 0, tx_nGasLimit = 0, tx_mapTxData = [], tx_vchSig = [], tx_btEthTx = [], tx_txidEthTx = 0\<rparr>"

definition tx_IsNull :: "ctransaction \<Rightarrow> bool" where
  "tx_IsNull t = (tx_nType t = TX_NULL)"

definition tx_IsMintTx :: "ctransaction \<Rightarrow> bool" where
  "tx_IsMintTx t = (tx_nType t = TX_GENESIS \<or> tx_nType t = TX_STAKE \<or> tx_nType t = TX_POA)"

definition tx_IsRewardTx :: "ctransaction \<Rightarrow> bool" where
  "tx_IsRewardTx t = (tx_IsMintTx t \<or> tx_nType t = TX_VOTE_REWARD)"

definition tx_IsCertTx :: "ctransaction \<Rightarrow> bool" where
  "tx_IsCertTx t = (tx_nType t = TX_CERT)"

definition tx_IsEthTx :: "ctransaction \<Rightarrow> bool" where
  "tx_IsEthTx t = (tx_nType t = TX_ETH_CREATE_CONTRACT \<or> tx_nType t = TX_ETH_MESSAGE_CALL)"

definition tx_IsUserTx :: "ctransaction \<Rightarrow> bool" where
  "tx_IsUserTx t = (tx_nType t = TX_TOKEN \<or> tx_IsEthTx t)"

definition tx_IsInternalTx :: "ctransaction \<Rightarrow> bool" where
  "tx_IsInternalTx t = (tx_nType t = TX_INTERNAL)"

definition tx_IsExtdataTx :: "ctransaction \<Rightarrow> bool" where
  "tx_IsExtdataTx t = (tx_nType t = TX_EXTDATA)"

definition tx_GetTxFee :: "ctransaction \<Rightarrow> u256" where
  "tx_GetTxFee t = tx_nGasPrice t * tx_nGasLimit t"

text \<open>The key of the data map is a byte; the 16-bit argument is cut to it.\<close>

definition tx_AddTxData :: "u16 \<Rightarrow> bytes \<Rightarrow> ctransaction \<Rightarrow> ctransaction" where
  "tx_AddTxData ty d t = (if tx_IsEthTx t then t else t\<lparr>tx_mapTxData := mput (ucast ty) d (tx_mapTxData t)\<rparr>)"

definition tx_GetTxData :: "u16 \<Rightarrow> ctransaction \<Rightarrow> bytes option" where
  "tx_GetTxData ty t = map_of (tx_mapTxData t) (ucast ty)"

definition data_save :: "u8 \<times> bytes \<Rightarrow> bytes" where
  "data_save = pair_save u8_save bt_save"

definition data_load :: "(u8 \<times> bytes) loader" where
  "data_load = pair_load u8_load bt_load"

definition data_size :: "u8 \<times> bytes \<Rightarrow> nat" where
  "data_size = pair_size (\<lambda>_. 1) bt_size"

definition tx_GetTxExtData :: "ctransaction \<Rightarrow> bytes" where
  "tx_GetTxExtData t =
     (if tx_IsEthTx t then (case tx_GetTxData (ucast DF_ETH_TX_DATA) t of None \<Rightarrow> [] | Some d \<Rightarrow> d)
      else if tx_mapTxData t \<noteq> [] then map_save data_save (tx_mapTxData t) else [])"


definition tx_GetTxDataSize :: "ctransaction \<Rightarrow> nat" where
  "tx_GetTxDataSize t = length (tx_GetTxExtData t)"

definition TX_BASE_GAS :: u256 where "TX_BASE_GAS = 21000"
definition DATA_GAS_PER_BYTE :: u256 where "DATA_GAS_PER_BYTE = 50"

definition GetTxDataGasStatic :: "u64 \<Rightarrow> u256" where
  "GetTxDataGasStatic n = DATA_GAS_PER_BYTE * ucast n"

definition GetTxBaseGasStatic :: "u64 \<Rightarrow> u256" where
  "GetTxBaseGasStatic n = TX_BASE_GAS + GetTxDataGasStatic n"

definition tx_GetTxDataGas :: "ctransaction \<Rightarrow> u256" where
  "tx_GetTxDataGas t = GetTxDataGasStatic (of_nat (tx_GetTxDataSize t))"

definition tx_GetTxBaseGas :: "ctransaction \<Rightarrow> u256" where
  "tx_GetTxBaseGas t = TX_BASE_GAS + tx_GetTxDataGas t"

definition tx_GetRunGasLimit :: "ctransaction \<Rightarrow> u256" where
  "tx_GetRunGasLimit t = (let nTxMinGas = tx_GetTxBaseGas t
     in if tx_nGasLimit t < nTxMinGas then 0 else tx_nGasLimit t - nTxMinGas)"

text \<open>Every setter returns at once on an Ethereum transaction.\<close>

definition eth_guard :: "(ctransaction \<Rightarrow> ctransaction) \<Rightarrow> ctransaction \<Rightarrow> ctransaction" where
  "eth_guard f t = (if tx_IsEthTx t then t else f t)"

definition tx_SetTxType :: "u8 \<Rightarrow> ctransaction \<Rightarrow> ctransaction" where
  "tx_SetTxType n = eth_guard (\<lambda>t. t\<lparr>tx_nType := n\<rparr>)"
definition tx_SetChainId :: "u32 \<Rightarrow> ctransaction \<Rightarrow> ctransaction" where
  "tx_SetChainId n = eth_guard (\<lambda>t. t\<lparr>tx_nChainId := n\<rparr>)"
definition tx_SetNonce :: "u64 \<Rightarrow> ctransaction \<Rightarrow> ctransaction" where
  "tx_SetNonce n = eth_guard (\<lambda>t. t\<lparr>tx_nTxNonce := n\<rparr>)"
definition tx_SetFromAddress :: "destination \<Rightarrow> ctransaction \<Rightarrow> ctransaction" where
  "tx_SetFromAddress d = eth_guard (\<lambda>t. t\<lparr>tx_destFrom := d\<rparr>)"
definition tx_SetToAddress :: "destination \<Rightarrow> ctransaction \<Rightarrow> ctransaction" where
  "tx_SetToAddress d = eth_guard (\<lambda>t. t\<lparr>tx_destTo := d\<rparr>)"
definition tx_SetAmount :: "u256 \<Rightarrow> ctransaction \<Rightarrow> ctransaction" where
  "tx_SetAmount n = eth_guard (\<lambda>t. t\<lparr>tx_nAmount := n\<rparr>)"
definition tx_SetSignData :: "bytes \<Rightarrow> ctransaction \<Rightarrow> ctransaction" where
  "tx_SetSignData d = eth_guard (\<lambda>t. t\<lparr>tx_vchSig := d\<rparr>)"

definition tx_PrSetToAddressData :: "address_ctx \<Rightarrow> ctransaction \<Rightarrow> ctransaction" where
  "tx_PrSetToAddressData c t = t\<lparr>tx_mapTxData := mput DF_TO_ADDRESS_DATA (ac_save c) (tx_mapTxData t)\<rparr>"


definition tx_GetToAddressData :: "ctransaction \<Rightarrow> address_ctx option" where
  "tx_GetToAddressData t = Option.bind (tx_GetTxData (ucast DF_TO_ADDRESS_DATA) t) (load_all ac_load)"

definition tx_GetTxMode :: "u8 \<Rightarrow> u8" where
  "tx_GetTxMode nTxType = drop_bit 4 nTxType"

section \<open>Ethereum packets\<close>

definition tx_SetEthTxPacket :: "(bytes \<Rightarrow> eth_tx option) \<Rightarrow> bytes \<Rightarrow> ctransaction \<Rightarrow> ctransaction option" where
  "tx_SetEthTxPacket eth btTxPacket t = map_option (\<lambda>e.
     t\<lparr>tx_nType := (if eth_isCreation e then TX_ETH_CREATE_CONTRACT else TX_ETH_MESSAGE_CALL),
       tx_nChainId := eth_chainId e, tx_nTxNonce := eth_nonce e, tx_destFrom := eth_from e, tx_destTo := eth_to e,
       tx_nAmount := eth_value e, tx_nGasPrice := eth_gasPrice e, tx_nGasLimit := eth_gas e, tx_vchSig := eth_signature e,
       tx_mapTxData := (if eth_data e \<noteq> [] then mput DF_ETH_TX_DATA (eth_data e) (tx_mapTxData t) else tx_mapTxData t),
       tx_btEthTx := btTxPacket, tx_txidEthTx := eth_sha3 e\<rparr>) (eth btTxPacket)"

definition tx_SetEthTx :: "(bytes \<Rightarrow> eth_tx option) \<Rightarrow> bytes \<Rightarrow> bool \<Rightarrow> ctransaction \<Rightarrow> ctransaction option" where
  "tx_SetEthTx eth btEthTxData fToPubkey t = map_option (\<lambda>t. if fToPubkey then tx_PrSetToAddressData (ac_pubkey []) t else t)
     (tx_SetEthTxPacket eth btEthTxData t)"

definition tx_GetEthSignatureHash :: "(bytes \<Rightarrow> eth_tx option) \<Rightarrow> ctransaction \<Rightarrow> u256" where
  "tx_GetEthSignatureHash eth t = (case eth (tx_btEthTx t) of Some e \<Rightarrow> eth_sha3_unsigned e | None \<Rightarrow> 0)"

section \<open>Wire format and hashes\<close>

definition tx_save :: "ctransaction \<Rightarrow> bytes" where
  "tx_save t =
     (if tx_IsEthTx t then
        (let fLinkPubkeyAddress = (case tx_GetToAddressData t of Some c \<Rightarrow> ac_IsPubkey c | None \<Rightarrow> False)
         in u8_save (tx_nType t) @ bool_save fLinkPubkeyAddress @ bt_save (tx_btEthTx t))
      else
        u8_save (tx_nType t) @ varint_save (ucast (tx_nChainId t)) @ varint_save (tx_nTxNonce t) @
        bt_save (wide_ToValid 5 (tx_destFrom t)) @ bt_save (wide_ToValid 5 (tx_destTo t)) @
        bt_save (wide_ToValid 8 (tx_nAmount t)) @ bt_save (wide_ToValid 8 (tx_nGasPrice t)) @
        bt_save (wide_ToValid 8 (tx_nGasLimit t)) @ map_save data_save (tx_mapTxData t) @ bt_save (tx_vchSig t))"

definition tx_load :: "(bytes \<Rightarrow> eth_tx option) \<Rightarrow> ctransaction loader" where
  "tx_load eth s = res_bind (u8_load s) (\<lambda>(ty, s).
     if ty = TX_ETH_CREATE_CONTRACT \<or> ty = TX_ETH_MESSAGE_CALL then
       res_bind (bool_load s) (\<lambda>(fLink, s). res_bind (bt_load s) (\<lambda>(bt, s).
         (case tx_SetEthTxPacket eth bt (tx_SetNull\<lparr>tx_nType := ty\<rparr>) of
            None \<Rightarrow> Inl SetError
          | Some t \<Rightarrow> Inr (if fLink then tx_PrSetToAddressData (ac_pubkey []) t else t, s))))
     else
       res_bind (varint_load s) (\<lambda>(chain, s). res_bind (varint_load s) (\<lambda>(nonce, s).
       res_bind (bt_load s) (\<lambda>(btFrom, s). res_bind (bt_load s) (\<lambda>(btTo, s). res_bind (bt_load s) (\<lambda>(btAmount, s).
       res_bind (bt_load s) (\<lambda>(btGasPrice, s). res_bind (bt_load s) (\<lambda>(btGasLimit, s).
       res_bind (map_load data_load [] s) (\<lambda>(m, s). res_bind (bt_load s) (\<lambda>(sig, s).
         Inr (\<lparr>tx_nType = ty, tx_nChainId = ucast chain, tx_nTxNonce = nonce, tx_destFrom = wide_FromValid 5 btFrom,
               tx_destTo = wide_FromValid 5 btTo, tx_nAmount = wide_FromValid 8 btAmount,
               tx_nGasPrice = wide_FromValid 8 btGasPrice, tx_nGasLimit = wide_FromValid 8 btGasLimit,
               tx_mapTxData = m, tx_vchSig = sig, tx_btEthTx = [], tx_txidEthTx = 0\<rparr>, s)))))))))))"

definition tx_size :: "ctransaction \<Rightarrow> nat" where
  "tx_size t = length
     (if tx_IsEthTx t then u8_save (tx_nType t) @ bool_save True @ bt_save (tx_btEthTx t)
      else
        u8_save (tx_nType t) @ varint_save (ucast (tx_nChainId t)) @ varint_save (tx_nTxNonce t) @
        bt_save (wide_ToValid 5 (tx_destFrom t)) @ bt_save (wide_ToValid 5 (tx_destTo t)) @
        bt_save (wide_ToValid 8 (tx_nAmount t)) @ bt_save (wide_ToValid 8 (tx_nGasPrice t)) @
        bt_save (wide_ToValid 8 (tx_nGasLimit t)) @ map_save data_save (tx_mapTxData t) @ bt_save (tx_vchSig t))"

definition tx_GetHash :: "(bytes \<Rightarrow> u256) \<Rightarrow> ctransaction \<Rightarrow> u256" where
  "tx_GetHash H t = (if tx_IsEthTx t then tx_txidEthTx t else H (tx_save t))"

definition tx_signed_bytes :: "ctransaction \<Rightarrow> bytes" where
  "tx_signed_bytes t = u8_save (tx_nType t) @ fund_save 4 (tx_nChainId t) @ fund_save 8 (tx_nTxNonce t) @
     wide_save 5 (tx_destFrom t) @ wide_save 5 (tx_destTo t) @ wide_save 8 (tx_nAmount t) @ wide_save 8 (tx_nGasPrice t) @
     wide_save 8 (tx_nGasLimit t) @ map_save data_save (tx_mapTxData t)"

definition tx_GetSignatureHash :: "(bytes \<Rightarrow> u256) \<Rightarrow> (bytes \<Rightarrow> eth_tx option) \<Rightarrow> ctransaction \<Rightarrow> u256" where
  "tx_GetSignatureHash H eth t = (if tx_IsEthTx t then tx_GetEthSignatureHash eth t else H (tx_signed_bytes t))"

definition tx_VerifyTxSignature ::
  "(bytes \<Rightarrow> u256) \<Rightarrow> (bytes \<Rightarrow> eth_tx option) \<Rightarrow> (u160 \<Rightarrow> u256 \<Rightarrow> bytes \<Rightarrow> bool) \<Rightarrow> destination \<Rightarrow> ctransaction \<Rightarrow> bool" where
  "tx_VerifyTxSignature H eth V destSign t =
     (if tx_IsEthTx t then tx_destFrom t \<noteq> 0
      else if destSign = 0 then False
      else V destSign (tx_GetSignatureHash H eth t) (tx_vchSig t))"

section \<open>The wire format round-trips\<close>

lemma data_codec: "codec data_save data_load data_size (\<lambda>t. True \<and> bt_ok (snd t))"
  unfolding data_save_def data_load_def data_size_def by (rule pair_codec[OF f8.codec_axioms bt.codec_axioms])

interpretation txdata: codec "map_save data_save" "map_load data_load []" "map_size data_size" "map_ok (\<lambda>t. True \<and> bt_ok (snd t))"
  by (rule map_codec[OF data_codec])

text \<open>A transaction as the node holds it: an Ethereum one was set from a packet, any other has no packet and a data map of
  sizes a vector can have.\<close>

definition tx_ok :: "(bytes \<Rightarrow> eth_tx option) \<Rightarrow> ctransaction \<Rightarrow> bool" where
  "tx_ok eth t \<longleftrightarrow>
     (if tx_IsEthTx t then bt_ok (tx_btEthTx t) \<and> (\<exists>link. tx_SetEthTx eth (tx_btEthTx t) link tx_SetNull = Some t)
      else map_ok (\<lambda>t. True \<and> bt_ok (snd t)) (tx_mapTxData t) \<and> bt_ok (tx_vchSig t) \<and> tx_btEthTx t = [] \<and> tx_txidEthTx t = 0)"

lemma ucast_u16_u8 [simp]: "(ucast (ucast (b :: u8) :: u16) :: u8) = b"
  by (rule bit_word_eqI) (simp add: bit_simps)

lemma eth_link:
  assumes "tx_SetEthTx eth bt link tx_SetNull = Some t"
  shows "(case tx_GetToAddressData t of Some c \<Rightarrow> ac_IsPubkey c | None \<Rightarrow> False) = link" "tx_btEthTx t = bt"
    "tx_IsEthTx t" "tx_SetEthTxPacket eth bt (tx_SetNull\<lparr>tx_nType := ty\<rparr>) = tx_SetEthTxPacket eth bt tx_SetNull"
proof -
  have d: "DF_ETH_TX_DATA \<noteq> DF_TO_ADDRESS_DATA" by (simp add: DF_ETH_TX_DATA_def DF_TO_ADDRESS_DATA_def)
  have "load_all ac_load (ac_save (ac_pubkey [])) = Some (ac_pubkey [])"
    by (rule address_ctx.load_all_save) (simp add: ac_pubkey_def)
  moreover have "ac_IsPubkey (ac_pubkey [])" by (simp add: ac_IsPubkey_def ac_GetDestType_def ac_pubkey_def ac_types)
  ultimately show "(case tx_GetToAddressData t of Some c \<Rightarrow> ac_IsPubkey c | None \<Rightarrow> False) = link" "tx_btEthTx t = bt" "tx_IsEthTx t"
    using assms d
    by (auto simp: tx_SetEthTx_def tx_SetEthTxPacket_def tx_SetNull_def tx_PrSetToAddressData_def tx_GetToAddressData_def
        tx_GetTxData_def tx_IsEthTx_def split: if_splits)
  show "tx_SetEthTxPacket eth bt (tx_SetNull\<lparr>tx_nType := ty\<rparr>) = tx_SetEthTxPacket eth bt tx_SetNull"
    by (cases "eth bt") (simp_all add: tx_SetEthTxPacket_def tx_SetNull_def)
qed

lemma tx_load_save_eth:
  assumes "tx_ok eth t" "tx_IsEthTx t"
  shows "tx_load eth (tx_save t @ r) = Inr (t, r)"
proof -
  obtain link where l: "tx_SetEthTx eth (tx_btEthTx t) link tx_SetNull = Some t" and b: "bt_ok (tx_btEthTx t)"
    using assms by (auto simp: tx_ok_def)
  note e = eth_link[OF l]
  have p: "\<exists>u. tx_SetEthTxPacket eth (tx_btEthTx t) tx_SetNull = Some u \<and> t = (if link then tx_PrSetToAddressData (ac_pubkey []) u else u)"
    using l by (auto simp: tx_SetEthTx_def)
  have ty: "tx_nType t = TX_ETH_CREATE_CONTRACT \<or> tx_nType t = TX_ETH_MESSAGE_CALL" using assms(2) by (simp add: tx_IsEthTx_def)
  have s: "tx_save t = u8_save (tx_nType t) @ bool_save link @ bt_save (tx_btEthTx t)"
    using assms(2) e(1) by (simp add: tx_save_def)
  show ?thesis unfolding s tx_load_def using p b ty e(4)[of "tx_nType t"] by (auto split: if_splits)
qed

lemma tx_load_save_common:
  assumes "tx_ok eth t" "\<not> tx_IsEthTx t"
  shows "tx_load eth (tx_save t @ r) = Inr (t, r)"
proof -
  have o: "map_ok (\<lambda>t. True \<and> bt_ok (snd t)) (tx_mapTxData t)" "bt_ok (tx_vchSig t)" "tx_btEthTx t = []" "tx_txidEthTx t = 0"
    using assms by (simp_all add: tx_ok_def)
  have ty: "\<not> (tx_nType t = TX_ETH_CREATE_CONTRACT \<or> tx_nType t = TX_ETH_MESSAGE_CALL)" using assms(2) by (simp add: tx_IsEthTx_def)
  have c: "(ucast (ucast (tx_nChainId t) :: u64) :: u32) = tx_nChainId t" by (rule ucast_ucast_id)
  show ?thesis
    using assms(2) ty o txdata.load_save[OF o(1)]
    by (simp add: tx_load_def tx_save_def c wide_FromValid_ToValid)
qed

interpretation txc: codec tx_save "tx_load eth" tx_size "tx_ok eth" for eth
proof unfold_locales
  show "tx_load eth (tx_save x @ r) = Inr (x, r)" if "tx_ok eth x" for x r
    using that tx_load_save_eth tx_load_save_common by blast
  show "tx_size x = length (tx_save x)" for x
    by (simp add: tx_size_def tx_save_def bool_save_def)
  have "takes_prefix (tx_load eth)" unfolding tx_load_def
    by (intro prefix_intros txdata.load_prefix) 
  then show "tx_load eth s = Inr (x, r) \<Longrightarrow> \<exists>p. s = p @ r" for s x r by (rule takes_prefix_iff)
qed


lemma signed_bytes_inj:
  assumes "map_ok (\<lambda>t. True \<and> bt_ok (snd t)) (tx_mapTxData t)" "map_ok (\<lambda>t. True \<and> bt_ok (snd t)) (tx_mapTxData t')"
    and "tx_signed_bytes t = tx_signed_bytes t'"
  shows "tx_nType t = tx_nType t'" "tx_nChainId t = tx_nChainId t'" "tx_nTxNonce t = tx_nTxNonce t'" "tx_destFrom t = tx_destFrom t'"
    "tx_destTo t = tx_destTo t'" "tx_nAmount t = tx_nAmount t'" "tx_nGasPrice t = tx_nGasPrice t'"
    "tx_nGasLimit t = tx_nGasLimit t'" "tx_mapTxData t = tx_mapTxData t'"
proof -
  note pf = f8.save_prefix_free[OF TrueI TrueI] f32.save_prefix_free[OF TrueI TrueI] f64.save_prefix_free[OF TrueI TrueI]
    h160.save_prefix_free[OF TrueI TrueI] h256.save_prefix_free[OF TrueI TrueI]
  have 1: "tx_nType t = tx_nType t' \<and> fund_save 4 (tx_nChainId t) @ fund_save 8 (tx_nTxNonce t) @
     wide_save 5 (tx_destFrom t) @ wide_save 5 (tx_destTo t) @ wide_save 8 (tx_nAmount t) @ wide_save 8 (tx_nGasPrice t) @
     wide_save 8 (tx_nGasLimit t) @ map_save data_save (tx_mapTxData t) = fund_save 4 (tx_nChainId t') @ fund_save 8 (tx_nTxNonce t') @
     wide_save 5 (tx_destFrom t') @ wide_save 5 (tx_destTo t') @ wide_save 8 (tx_nAmount t') @ wide_save 8 (tx_nGasPrice t') @
     wide_save 8 (tx_nGasLimit t') @ map_save data_save (tx_mapTxData t')"
    by (rule pf(1)) (use assms(3) in \<open>simp only: tx_signed_bytes_def\<close>)
  note 2 = pf(2)[OF 1[THEN conjunct2]]
  note 3 = pf(3)[OF 2[THEN conjunct2]]
  note 4 = pf(4)[OF 3[THEN conjunct2]]
  note 5 = pf(4)[OF 4[THEN conjunct2]]
  note 6 = pf(5)[OF 5[THEN conjunct2]]
  note 7 = pf(5)[OF 6[THEN conjunct2]]
  note 8 = pf(5)[OF 7[THEN conjunct2]]
  have 9: "tx_mapTxData t = tx_mapTxData t'"
    using 8[THEN conjunct2] txdata.save_prefix_free[OF assms(1,2), of "[]" "[]"] by simp
  show "tx_nType t = tx_nType t'" "tx_nChainId t = tx_nChainId t'" "tx_nTxNonce t = tx_nTxNonce t'" "tx_destFrom t = tx_destFrom t'"
    "tx_destTo t = tx_destTo t'" "tx_nAmount t = tx_nAmount t'" "tx_nGasPrice t = tx_nGasPrice t'"
    "tx_nGasLimit t = tx_nGasLimit t'" "tx_mapTxData t = tx_mapTxData t'"
    using 1 2 3 4 5 6 7 8 9 by simp_all
qed

lemma tx_signed_content:
  assumes "tx_ok eth t" "tx_ok eth t'" "\<not> tx_IsEthTx t" "\<not> tx_IsEthTx t'" "tx_signed_bytes t = tx_signed_bytes t'"
  shows "tx_SetSignData s t = tx_SetSignData s t'"
proof -
  have "tx_btEthTx t = tx_btEthTx t' \<and> tx_txidEthTx t = tx_txidEthTx t'" using assms(1-4) by (simp add: tx_ok_def)
  then show ?thesis
    using signed_bytes_inj[OF _ _ assms(5)] assms(1-4)
    by (simp add: tx_ok_def tx_SetSignData_def eth_guard_def)
qed

section \<open>Properties\<close>

text \<open>(C17) A transaction is read back from what was written, in both wire formats: the plain one, and the
  Ethereum one, which stores the packet and a flag and derives everything else again. The counted size is the
  number of bytes written, and no transaction's bytes are a proper prefix of another's.\<close>

theorem transaction_wire:
  assumes "tx_ok eth t"
  shows "tx_load eth (tx_save t @ r) = Inr (t, r) \<and> tx_size t = length (tx_save t) \<and>
    (\<forall>u q. tx_ok eth u \<longrightarrow> tx_save u = tx_save t @ q \<longrightarrow> u = t \<and> q = [])"
  using txc.load_save[OF assms] txc.size_save[OF assms] txc.save_prefix_free[OF _ assms, of _ "[]"]
  by (metis append.right_neutral)

text \<open>(C11) A signature covers everything but itself. Two plain transactions that are equal up to their signatures have the same signature
  hash; and two with the same hash are equal up to their signatures, or their own signed contents are two different byte
  strings with the same \<^verbatim>\<open>CryptoHash\<close>. A transaction is accepted for a signer exactly when the signer is not null and
  \<^verbatim>\<open>CryptoVerify\<close> accepts its signature for that signer on this hash, so storing a signature \<open>s\<close> made over the hash gives a
  transaction that is accepted exactly when \<open>s\<close> is.\<close>

theorem transaction_signature:
  assumes "tx_ok eth t" "tx_ok eth t'" "\<not> tx_IsEthTx t" "\<not> tx_IsEthTx t'"
  shows "(tx_SetSignData s t = tx_SetSignData s t' \<longrightarrow> tx_GetSignatureHash H eth t = tx_GetSignatureHash H eth t') \<and>
    (tx_GetSignatureHash H eth t = tx_GetSignatureHash H eth t' \<longrightarrow> tx_SetSignData s t = tx_SetSignData s t' \<or>
      tx_signed_bytes t \<noteq> tx_signed_bytes t' \<and> H (tx_signed_bytes t) = H (tx_signed_bytes t')) \<and>
    (tx_VerifyTxSignature H eth V d t \<longleftrightarrow> d \<noteq> 0 \<and> V d (tx_GetSignatureHash H eth t) (tx_vchSig t)) \<and>
    (tx_VerifyTxSignature H eth V d (tx_SetSignData s t) \<longleftrightarrow> d \<noteq> 0 \<and> V d (tx_GetSignatureHash H eth t) s)"
proof -
  have k: "tx_signed_bytes (tx_SetSignData s u) = tx_signed_bytes u" "tx_IsEthTx (tx_SetSignData s u) = tx_IsEthTx u" for u
    by (simp_all add: tx_SetSignData_def eth_guard_def tx_signed_bytes_def tx_IsEthTx_def)
  have v: "tx_vchSig (tx_SetSignData s t) = s" using assms(3) by (simp add: tx_SetSignData_def eth_guard_def)
  have h: "tx_GetSignatureHash H eth u = H (tx_signed_bytes u)" if "\<not> tx_IsEthTx u" for u using that by (simp only: tx_GetSignatureHash_def if_False)
  have n: "\<not> tx_IsEthTx (tx_SetSignData s t)" using k(2)[of t] assms(3) by simp
  have "tx_signed_bytes t = tx_signed_bytes t'" if "tx_SetSignData s t = tx_SetSignData s t'" using k(1)[of t] k(1)[of t'] that by simp
  moreover have "tx_VerifyTxSignature H eth V d u \<longleftrightarrow> d \<noteq> 0 \<and> V d (tx_GetSignatureHash H eth u) (tx_vchSig u)" if "\<not> tx_IsEthTx u" for u
    using that by (simp add: tx_VerifyTxSignature_def)
  ultimately show ?thesis using tx_signed_content[OF assms] unfolding h[OF assms(3)] h[OF assms(4)] h[OF n] using k(1)[of t] v h[OF assms(3)] h[OF n] assms(3) n
    by (metis (no_types))
qed


text \<open>The gas left for running a transaction and the base gas add up to its limit, or it is 0 when the
  limit does not cover the base gas of 21000 plus 50 for each byte of data.\<close>

theorem transaction_gas:
  assumes "tx_GetTxDataSize t < 2 ^ 64"
  shows "uint (tx_GetTxBaseGas t) = 21000 + 50 * int (tx_GetTxDataSize t) \<and>
    (if uint (tx_nGasLimit t) < 21000 + 50 * int (tx_GetTxDataSize t) then tx_GetRunGasLimit t = 0
     else uint (tx_GetRunGasLimit t) + uint (tx_GetTxBaseGas t) = uint (tx_nGasLimit t))"
proof -
  define w where "w = (ucast (of_nat (tx_GetTxDataSize t) :: u64) :: u256)"
  have n: "uint w = int (tx_GetTxDataSize t)" "int (tx_GetTxDataSize t) < 2 ^ 64"
    using assms by (simp_all add: w_def uint_time_u256 unsigned_of_nat take_bit_nat_eq_self)
  have c: "uint DATA_GAS_PER_BYTE = 50" "uint TX_BASE_GAS = 21000" by (simp_all add: DATA_GAS_PER_BYTE_def TX_BASE_GAS_def)
  have small: "x < 2 ^ 64 \<Longrightarrow> 50 * x < (2 ^ 256 :: int)" "x < 2 ^ 64 \<Longrightarrow> 21000 + 50 * x < (2 ^ 256 :: int)" for x :: int
    by simp_all
  have "uint DATA_GAS_PER_BYTE * uint w < 2 ^ 256" unfolding n(1) c by (rule small(1)[OF n(2)])
  then have g: "uint (tx_GetTxDataGas t) = 50 * int (tx_GetTxDataSize t)"
    unfolding tx_GetTxDataGas_def GetTxDataGasStatic_def w_def[symmetric] by (simp only: uint_mult_small n(1) c)
  have "uint TX_BASE_GAS + uint (tx_GetTxDataGas t) < 2 ^ 256" unfolding c g by (rule small(2)[OF n(2)])
  then have b: "uint (tx_GetTxBaseGas t) = 21000 + 50 * int (tx_GetTxDataSize t)"
    unfolding tx_GetTxBaseGas_def by (simp only: uint_add_small c g)
  have "uint (tx_GetRunGasLimit t) = uint (tx_nGasLimit t) - uint (tx_GetTxBaseGas t)" if "\<not> tx_nGasLimit t < tx_GetTxBaseGas t"
    using that by (simp add: tx_GetRunGasLimit_def uint_sub_small)
  then show ?thesis
    unfolding word_less_def b[symmetric] by (auto simp: b tx_GetRunGasLimit_def word_less_def)
qed


definition tx_demo :: ctransaction where
  "tx_demo = tx_SetAmount 70000 (tx_SetToAddress 9 (tx_SetFromAddress 8 (tx_SetNonce 3 (tx_SetChainId 201 (tx_AddTxData 0x14 [1, 2] (tx_SetTxType TX_TOKEN tx_SetNull))))))"

lemma tx_demo_simps:
  "\<not> tx_IsEthTx tx_demo" "tx_mapTxData tx_demo = [(0x14, [1, 2])]" "tx_btEthTx tx_demo = []" "tx_txidEthTx tx_demo = 0"
  "tx_vchSig tx_demo = []" "tx_nGasLimit tx_demo = 0"
  by code_simp+

lemma tx_demo_ok: "tx_ok eth tx_demo" "map_ok (\<lambda>t. True \<and> bt_ok (snd t)) (tx_mapTxData tx_demo)"
  by (simp_all add: tx_ok_def tx_demo_simps map_ok_def vector_ok_def smap_sorted_def)

theorem transaction_wire_witness: "tx_load (\<lambda>_. None) (tx_save tx_demo @ [7]) = Inr (tx_demo, [7])"
  using transaction_wire[OF tx_demo_ok(1), of "\<lambda>_. None" "[7]"] by simp

theorem transaction_signature_witness:
  "tx_VerifyTxSignature (\<lambda>_. 0) (\<lambda>_. None) (\<lambda>d h s. d = 8) 8 tx_demo \<and>
   tx_VerifyTxSignature (\<lambda>_. 0) (\<lambda>_. None) (\<lambda>d h s. s = [1]) 8 (tx_SetSignData [1] tx_demo)"
  using transaction_signature[OF tx_demo_ok(1)[of "\<lambda>_. None"] tx_demo_ok(1) tx_demo_simps(1) tx_demo_simps(1), of "[]" "\<lambda>_. 0" "\<lambda>d h s. d = 8" 8]
    transaction_signature[OF tx_demo_ok(1)[of "\<lambda>_. None"] tx_demo_ok(1) tx_demo_simps(1) tx_demo_simps(1), of "[1]" "\<lambda>_. 0" "\<lambda>d h s. s = [1]" 8]
  by simp

lemma tx_demo_size: "tx_GetTxDataSize tx_demo = 5"
  by code_simp

theorem transaction_gas_witness: "uint (tx_GetTxBaseGas tx_demo) = 21250 \<and> tx_GetRunGasLimit tx_demo = 0"
  using transaction_gas[of tx_demo] by (simp add: tx_demo_size tx_demo_simps)


end
