(* ===== verification/BlockProof.thy ===== *)
theory BlockProof
  imports Destination
begin

text \<open>
  The structures carried in the proof map of a block: \<^verbatim>\<open>CProofOfDelegate\<close>, \<^verbatim>\<open>CProofOfPiggyback\<close>,
  \<^verbatim>\<open>CProofOfPoa\<close> and \<^verbatim>\<open>CBlockVoteSig\<close> of \<^verbatim>\<open>src/src/common/proof.h\<close>, and the fork profile \<^verbatim>\<open>CProfile\<close> and
  \<^verbatim>\<open>CCoinContext\<close> of \<^verbatim>\<open>src/src/common/profile.h\<close> and \<^verbatim>\<open>.cpp\<close>. Each has a saver, a loader and a counted size;
  \<^verbatim>\<open>Save\<close> and \<^verbatim>\<open>Load\<close> are these on a byte string of their own.
\<close>

section \<open>Structures\<close>

record proof_delegate =
  pd_nWeight :: u8
  pd_nAgreement :: u256
  pd_btDelegateData :: bytes

definition pd_save :: "proof_delegate \<Rightarrow> bytes" where
  "pd_save p = u8_save (pd_nWeight p) @ wide_save 8 (pd_nAgreement p) @ bt_save (pd_btDelegateData p)"

definition pd_load :: "proof_delegate loader" where
  "pd_load s = res_bind (u8_load s) (\<lambda>(w, s). res_bind (wide_load 8 s) (\<lambda>(a, s). res_bind (bt_load s) (\<lambda>(d, s).
     Inr (\<lparr>pd_nWeight = w, pd_nAgreement = a, pd_btDelegateData = d\<rparr>, s))))"

definition pd_size :: "proof_delegate \<Rightarrow> nat" where
  "pd_size p = 1 + wide_size 8 (pd_nAgreement p) + bt_size (pd_btDelegateData p)"

record proof_piggyback =
  pp_nWeight :: u8
  pp_nAgreement :: u256
  pp_hashRefBlock :: u256

definition pp_save :: "proof_piggyback \<Rightarrow> bytes" where
  "pp_save p = u8_save (pp_nWeight p) @ wide_save 8 (pp_nAgreement p) @ wide_save 8 (pp_hashRefBlock p)"

definition pp_load :: "proof_piggyback loader" where
  "pp_load s = res_bind (u8_load s) (\<lambda>(w, s). res_bind (wide_load 8 s) (\<lambda>(a, s). res_bind (wide_load 8 s) (\<lambda>(h, s).
     Inr (\<lparr>pp_nWeight = w, pp_nAgreement = a, pp_hashRefBlock = h\<rparr>, s))))"

definition pp_size :: "proof_piggyback \<Rightarrow> nat" where
  "pp_size p = 1 + wide_size 8 (pp_nAgreement p) + wide_size 8 (pp_hashRefBlock p)"

record proof_poa =
  pa_nWeight :: u8
  pa_nAgreement :: u256
  pa_destMint :: destination
  pa_nNonce :: u64

definition pa_save :: "proof_poa \<Rightarrow> bytes" where
  "pa_save p = u8_save (pa_nWeight p) @ wide_save 8 (pa_nAgreement p) @ wide_save 5 (pa_destMint p) @ fund_save 8 (pa_nNonce p)"

definition pa_load :: "proof_poa loader" where
  "pa_load s = res_bind (u8_load s) (\<lambda>(w, s). res_bind (wide_load 8 s) (\<lambda>(a, s). res_bind (wide_load 5 s) (\<lambda>(d, s).
     res_bind (fund_load 8 s) (\<lambda>(n, s).
       Inr (\<lparr>pa_nWeight = w, pa_nAgreement = a, pa_destMint = d, pa_nNonce = n\<rparr>, s)))))"

definition pa_size :: "proof_poa \<Rightarrow> nat" where
  "pa_size p = 1 + wide_size 8 (pa_nAgreement p) + wide_size 5 (pa_destMint p) + 8"

record block_vote_sig =
  bv_hashBlockVote :: u256
  bv_btBlockVoteBitmap :: bytes
  bv_btBlockVoteAggSig :: bytes

definition bv_save :: "block_vote_sig \<Rightarrow> bytes" where
  "bv_save p = wide_save 8 (bv_hashBlockVote p) @ bt_save (bv_btBlockVoteBitmap p) @ bt_save (bv_btBlockVoteAggSig p)"

definition bv_load :: "block_vote_sig loader" where
  "bv_load s = res_bind (wide_load 8 s) (\<lambda>(h, s). res_bind (bt_load s) (\<lambda>(b, s). res_bind (bt_load s) (\<lambda>(g, s).
     Inr (\<lparr>bv_hashBlockVote = h, bv_btBlockVoteBitmap = b, bv_btBlockVoteAggSig = g\<rparr>, s))))"

definition bv_size :: "block_vote_sig \<Rightarrow> nat" where
  "bv_size p = wide_size 8 (bv_hashBlockVote p) + bt_size (bv_btBlockVoteBitmap p) + bt_size (bv_btBlockVoteAggSig p)"

definition bv_IsNull :: "block_vote_sig \<Rightarrow> bool" where
  "bv_IsNull p = (bv_hashBlockVote p = 0 \<or> bv_btBlockVoteBitmap p = [] \<or> bv_btBlockVoteAggSig p = [])"

text \<open>The two \<^verbatim>\<open>int\<close> fields of the profile are 32-bit words in two's complement; the joint height is widened to 64
  bits with its sign before it is written as a \<^verbatim>\<open>CVarInt\<close>.\<close>

record profile =
  pf_nVersion :: u32
  pf_nType :: u8
  pf_strName :: bytes
  pf_strSymbol :: bytes
  pf_nChainId :: u32
  pf_nAmount :: u256
  pf_nMintReward :: u256
  pf_nMinTxFee :: u256
  pf_nHalveCycle :: u32
  pf_destOwner :: destination
  pf_hashParent :: u256
  pf_nJointHeight :: u32
  pf_nAttachExtdataType :: u8

definition pf_SetNull :: profile where
  "pf_SetNull = \<lparr>pf_nVersion = 1, pf_nType = 0, pf_strName = [], pf_strSymbol = [], pf_nChainId = 0, pf_nAmount = 0,
     pf_nMintReward = 0, pf_nMinTxFee = 0, pf_nHalveCycle = 0, pf_destOwner = 0, pf_hashParent = 0, pf_nJointHeight = - 1,
     pf_nAttachExtdataType = 0\<rparr>"

definition pf_IsNull :: "profile \<Rightarrow> bool" where "pf_IsNull p = (pf_nType p = 0)"
definition pf_IsMainFork :: "profile \<Rightarrow> bool" where "pf_IsMainFork p = (pf_nType p = 1)"
definition pf_IsClonemapFork :: "profile \<Rightarrow> bool" where "pf_IsClonemapFork p = (pf_nType p = 2)"
definition pf_IsUserFork :: "profile \<Rightarrow> bool" where "pf_IsUserFork p = (pf_nType p = 3)"

definition pf_VerifyType :: "u8 \<Rightarrow> bool" where
  "pf_VerifyType t = (if t = 0 \<or> t \<ge> 4 then False else True)"

definition pf_VerifySubforkType :: "u8 \<Rightarrow> bool" where
  "pf_VerifySubforkType t = (if t \<le> 1 \<or> t \<ge> 4 then False else True)"

definition pf_GetTypeStr :: "u8 \<Rightarrow> string" where
  "pf_GetTypeStr t = (if t = 1 then ''main'' else if t = 2 then ''clonemap'' else if t = 3 then ''user'' else ''non'')"

definition pf_ParseTypeStr :: "string \<Rightarrow> u8" where
  "pf_ParseTypeStr s = (if s = ''main'' then 1 else if s = ''clonemap'' then 2 else if s = ''user'' then 3 else 0)"

definition pf_save :: "profile \<Rightarrow> bytes" where
  "pf_save p = fund_save 4 (pf_nVersion p) @ u8_save (pf_nType p) @ string_save (pf_strName p) @ string_save (pf_strSymbol p) @
     varint_save (ucast (pf_nChainId p)) @ bt_save (wide_ToValid 8 (pf_nAmount p)) @ bt_save (wide_ToValid 8 (pf_nMintReward p)) @
     bt_save (wide_ToValid 8 (pf_nMinTxFee p)) @ varint_save (ucast (pf_nHalveCycle p)) @ wide_save 5 (pf_destOwner p) @
     wide_save 8 (pf_hashParent p) @ varint_save (scast (pf_nJointHeight p)) @ u8_save (pf_nAttachExtdataType p)"

definition pf_load :: "profile loader" where
  "pf_load s = res_bind (fund_load 4 s) (\<lambda>(v, s). res_bind (u8_load s) (\<lambda>(ty, s). res_bind (string_load s) (\<lambda>(nm, s).
     res_bind (string_load s) (\<lambda>(sy, s). res_bind (varint_load s) (\<lambda>(ch, s). res_bind (bt_load s) (\<lambda>(am, s).
     res_bind (bt_load s) (\<lambda>(mr, s). res_bind (bt_load s) (\<lambda>(mf, s). res_bind (varint_load s) (\<lambda>(hc, s).
     res_bind (wide_load 5 s) (\<lambda>(ow, s). res_bind (wide_load 8 s) (\<lambda>(hp, s). res_bind (varint_load s) (\<lambda>(jh, s).
     res_bind (u8_load s) (\<lambda>(ax, s).
       Inr (\<lparr>pf_nVersion = v, pf_nType = ty, pf_strName = nm, pf_strSymbol = sy, pf_nChainId = ucast ch,
             pf_nAmount = wide_FromValid 8 am, pf_nMintReward = wide_FromValid 8 mr, pf_nMinTxFee = wide_FromValid 8 mf,
             pf_nHalveCycle = ucast hc, pf_destOwner = ow, pf_hashParent = hp, pf_nJointHeight = ucast jh,
             pf_nAttachExtdataType = ax\<rparr>, s))))))))))))))"

definition pf_size :: "profile \<Rightarrow> nat" where
  "pf_size p = length (pf_save p)"

record coin_ctx =
  cn_hashAtFork :: u256
  cn_nCoinType :: u8
  cn_destContract :: destination

definition cn_save :: "coin_ctx \<Rightarrow> bytes" where
  "cn_save c = wide_save 8 (cn_hashAtFork c) @ u8_save (cn_nCoinType c) @ wide_save 5 (cn_destContract c)"

definition cn_load :: "coin_ctx loader" where
  "cn_load s = res_bind (wide_load 8 s) (\<lambda>(h, s). res_bind (u8_load s) (\<lambda>(t, s). res_bind (wide_load 5 s) (\<lambda>(d, s).
     Inr (\<lparr>cn_hashAtFork = h, cn_nCoinType = t, cn_destContract = d\<rparr>, s))))"

definition cn_size :: "coin_ctx \<Rightarrow> nat" where
  "cn_size c = wide_size 8 (cn_hashAtFork c) + 1 + wide_size 5 (cn_destContract c)"

section \<open>The structures meet the contract of the stream\<close>

lemma scast_ucast_id: "(ucast (scast (b :: u32) :: u64) :: u32) = b"
  by (rule bit_word_eqI) (simp add: bit_simps)

interpretation pdc: codec pd_save pd_load pd_size "\<lambda>p. bt_ok (pd_btDelegateData p)"
proof unfold_locales
  have "takes_prefix pd_load" unfolding pd_load_def by (intro prefix_intros)
  then show "pd_load s = Inr (x, r) \<Longrightarrow> \<exists>p. s = p @ r" for s x r by (rule takes_prefix_iff)
qed (simp_all add: pd_save_def pd_load_def pd_size_def field_size)

interpretation ppc: codec pp_save pp_load pp_size "\<lambda>_. True"
proof unfold_locales
  have "takes_prefix pp_load" unfolding pp_load_def by (intro prefix_intros)
  then show "pp_load s = Inr (x, r) \<Longrightarrow> \<exists>p. s = p @ r" for s x r by (rule takes_prefix_iff)
qed (simp_all add: pp_save_def pp_load_def pp_size_def field_size)

interpretation pac: codec pa_save pa_load pa_size "\<lambda>_. True"
proof unfold_locales
  have "takes_prefix pa_load" unfolding pa_load_def by (intro prefix_intros)
  then show "pa_load s = Inr (x, r) \<Longrightarrow> \<exists>p. s = p @ r" for s x r by (rule takes_prefix_iff)
qed (simp_all add: pa_save_def pa_load_def pa_size_def field_size)

interpretation bvc: codec bv_save bv_load bv_size "\<lambda>p. bt_ok (bv_btBlockVoteBitmap p) \<and> bt_ok (bv_btBlockVoteAggSig p)"
proof unfold_locales
  have "takes_prefix bv_load" unfolding bv_load_def by (intro prefix_intros)
  then show "bv_load s = Inr (x, r) \<Longrightarrow> \<exists>p. s = p @ r" for s x r by (rule takes_prefix_iff)
qed (simp_all add: bv_save_def bv_load_def bv_size_def field_size)

interpretation pfc: codec pf_save pf_load pf_size "\<lambda>p. str_ok (pf_strName p) \<and> str_ok (pf_strSymbol p)"
proof unfold_locales
  have "takes_prefix pf_load" unfolding pf_load_def by (intro prefix_intros)
  then show "pf_load s = Inr (x, r) \<Longrightarrow> \<exists>p. s = p @ r" for s x r by (rule takes_prefix_iff)
qed (simp_all add: pf_save_def pf_load_def pf_size_def scast_ucast_id ucast_ucast_id wide_FromValid_ToValid)

interpretation cnc: codec cn_save cn_load cn_size "\<lambda>_. True"
proof unfold_locales
  have "takes_prefix cn_load" unfolding cn_load_def by (intro prefix_intros)
  then show "cn_load s = Inr (x, r) \<Longrightarrow> \<exists>p. s = p @ r" for s x r by (rule takes_prefix_iff)
qed (simp_all add: cn_save_def cn_load_def cn_size_def field_size)

end
