(* ===== verification/Block.thy ===== *)
theory Block
  imports Transaction BlockProof MerkleTree
begin

text \<open>
  \<^verbatim>\<open>CBlock\<close> of \<^verbatim>\<open>src/src/common/block.h\<close> and \<^verbatim>\<open>.cpp\<close>: the header fields, the map of proofs, the two-level Merkle tree
  whose root is the block hash, the proofs of membership for the previous block, the referenced block and
  the cross-chain root, the orders on block hashes and the wire format.

  \<^verbatim>\<open>CryptoHash\<close> of a byte string is the argument \<open>H\<close>; its two-argument form hashes the 64 bytes of both
  integers. The address recovered from a signature is the argument \<open>R\<close>. The class \<^verbatim>\<open>CBlockProve\<close>, which the
  repository declares but does not define, is the type variable of \<open>cblock\<close>, with its serialiser as an argument.
\<close>

unbundle bit_operations_syntax

section \<open>State and accessors\<close>

record 'p cblock =
  bk_nVersion :: u8
  bk_nType :: u8
  bk_nTimeStamp :: u64
  bk_nNumber :: u64
  bk_nHeight :: u32
  bk_nSlot :: u16
  bk_hashPrev :: u256
  bk_hashMerkleRoot :: u256
  bk_hashStateRoot :: u256
  bk_hashReceiptsRoot :: u256
  bk_hashCrosschainMerkleRoot :: u256
  bk_nGasLimit :: u256
  bk_nGasUsed :: u256
  bk_mapProof :: "(u8 \<times> bytes) list"
  bk_txMint :: ctransaction
  bk_vchSig :: bytes
  bk_btBloomData :: bytes
  bk_vtx :: "ctransaction list"
  bk_mapProve :: "(u32 \<times> 'p) list"

definition BLOCK_GENESIS :: u8 where "BLOCK_GENESIS = 0x01"
definition BLOCK_PRIMARY :: u8 where "BLOCK_PRIMARY = 0x02"
definition BLOCK_ORIGIN :: u8 where "BLOCK_ORIGIN = 0x11"
definition BLOCK_SUBSIDIARY :: u8 where "BLOCK_SUBSIDIARY = 0x12"
definition BLOCK_EXTENDED :: u8 where "BLOCK_EXTENDED = 0x13"
definition BLOCK_VACANT :: u8 where "BLOCK_VACANT = 0x14"

definition BP_FORK_PROFILE :: u8 where "BP_FORK_PROFILE = 0x01"
definition BP_DELEGATE :: u8 where "BP_DELEGATE = 0x02"
definition BP_PIGGYBACK :: u8 where "BP_PIGGYBACK = 0x03"
definition BP_POA_PROOF :: u8 where "BP_POA_PROOF = 0x04"
definition BP_MINTCOIN :: u8 where "BP_MINTCOIN = 0x05"
definition BP_MINTREWARD :: u8 where "BP_MINTREWARD = 0x06"
definition BP_BLOCK_VOTE_SIG :: u8 where "BP_BLOCK_VOTE_SIG = 0x07"

lemmas bp_defs = BP_FORK_PROFILE_def BP_DELEGATE_def BP_PIGGYBACK_def BP_POA_PROOF_def BP_MINTCOIN_def BP_MINTREWARD_def
  BP_BLOCK_VOTE_SIG_def
lemmas block_type_defs = BLOCK_GENESIS_def BLOCK_PRIMARY_def BLOCK_ORIGIN_def BLOCK_SUBSIDIARY_def BLOCK_EXTENDED_def BLOCK_VACANT_def

definition bk_SetNull :: "'p cblock" where
  "bk_SetNull = \<lparr>bk_nVersion = 1, bk_nType = 0, bk_nTimeStamp = 0, bk_nNumber = 0, bk_nHeight = 0, bk_nSlot = 0, bk_hashPrev = 0,
     bk_hashMerkleRoot = 0, bk_hashStateRoot = 0, bk_hashReceiptsRoot = 0, bk_hashCrosschainMerkleRoot = 0, bk_nGasLimit = 0,
     bk_nGasUsed = 0, bk_mapProof = [], bk_txMint = tx_SetNull, bk_vchSig = [], bk_btBloomData = [], bk_vtx = [], bk_mapProve = []\<rparr>"

definition bk_IsNull :: "'p cblock \<Rightarrow> bool" where
  "bk_IsNull b = (bk_nType b = 0 \<or> bk_nTimeStamp b = 0 \<or> tx_IsNull (bk_txMint b))"

definition bk_IsGenesis :: "'p cblock \<Rightarrow> bool" where
  "bk_IsGenesis b = (bk_nType b = BLOCK_GENESIS)"

definition bk_IsOrigin :: "'p cblock \<Rightarrow> bool" where
  "bk_IsOrigin b = (bk_nType b = BLOCK_GENESIS \<or> bk_nType b = BLOCK_ORIGIN)"

definition bk_IsPrimary :: "'p cblock \<Rightarrow> bool" where
  "bk_IsPrimary b = (drop_bit 4 (bk_nType b) = 0)"

definition bk_IsSubsidiary :: "'p cblock \<Rightarrow> bool" where
  "bk_IsSubsidiary b = (bk_nType b = BLOCK_SUBSIDIARY)"

definition bk_IsExtended :: "'p cblock \<Rightarrow> bool" where
  "bk_IsExtended b = (bk_nType b = BLOCK_EXTENDED)"

definition bk_IsVacant :: "'p cblock \<Rightarrow> bool" where
  "bk_IsVacant b = (bk_nType b = BLOCK_VACANT)"

definition bk_IsProofOfPoa :: "'p cblock \<Rightarrow> bool" where
  "bk_IsProofOfPoa b = (tx_nType (bk_txMint b) = TX_POA)"

definition bk_IsProofEmpty :: "'p cblock \<Rightarrow> bool" where
  "bk_IsProofEmpty b = (bk_mapProof b = [])"

definition bk_GetBlockBeacon :: "int \<Rightarrow> 'p cblock \<Rightarrow> u64 pn_access" where
  "bk_GetBlockBeacon idx b = (if bk_mapProof b = [] then base_Get64 (limbs 8 (bk_hashPrev b)) (idx AND 3) else Access 0)"

definition bk_SetBlockTime :: "u64 \<Rightarrow> 'p cblock \<Rightarrow> 'p cblock" where
  "bk_SetBlockTime t b = b\<lparr>bk_nTimeStamp := t\<rparr>"

definition bk_SetSignData :: "bytes \<Rightarrow> 'p cblock \<Rightarrow> 'p cblock" where
  "bk_SetSignData d b = b\<lparr>bk_vchSig := d\<rparr>"

definition FUNCTION_BLACKHOLE_ADDRESS :: destination where
  "FUNCTION_BLACKHOLE_ADDRESS = dest_ParseString ''0x0000000000000000000000000000000000000001''"

definition bk_GetBlockMoneyDestroy :: "'p cblock \<Rightarrow> u256" where
  "bk_GetBlockMoneyDestroy b =
     fold (\<lambda>tx n. if tx_destTo tx = FUNCTION_BLACKHOLE_ADDRESS then n + tx_nAmount tx else n) (bk_vtx b) 0"

section \<open>The proof map\<close>

definition bk_AddProofData :: "u8 \<Rightarrow> bytes \<Rightarrow> 'p cblock \<Rightarrow> 'p cblock" where
  "bk_AddProofData nProofId d b = b\<lparr>bk_mapProof := mput nProofId d (bk_mapProof b)\<rparr>"

definition bk_GetProofData :: "u8 \<Rightarrow> 'p cblock \<Rightarrow> bytes option" where
  "bk_GetProofData nProofId b = map_of (bk_mapProof b) nProofId"

definition bk_AddForkProfile :: "profile \<Rightarrow> 'p cblock \<Rightarrow> 'p cblock" where
  "bk_AddForkProfile p b = b\<lparr>bk_mapProof := mput BP_FORK_PROFILE (pf_save p) (bk_mapProof b)\<rparr>"
definition bk_AddDelegateProof :: "proof_delegate \<Rightarrow> 'p cblock \<Rightarrow> 'p cblock" where
  "bk_AddDelegateProof p b = b\<lparr>bk_mapProof := mput BP_DELEGATE (pd_save p) (bk_mapProof b)\<rparr>"
definition bk_AddPiggybackProof :: "proof_piggyback \<Rightarrow> 'p cblock \<Rightarrow> 'p cblock" where
  "bk_AddPiggybackProof p b = b\<lparr>bk_mapProof := mput BP_PIGGYBACK (pp_save p) (bk_mapProof b)\<rparr>"
definition bk_AddPoaProof :: "proof_poa \<Rightarrow> 'p cblock \<Rightarrow> 'p cblock" where
  "bk_AddPoaProof p b = b\<lparr>bk_mapProof := mput BP_POA_PROOF (pa_save p) (bk_mapProof b)\<rparr>"
definition bk_AddMintCoinProof :: "u256 \<Rightarrow> 'p cblock \<Rightarrow> 'p cblock" where
  "bk_AddMintCoinProof n b = b\<lparr>bk_mapProof := mput BP_MINTCOIN (wide_GetBytes 8 n) (bk_mapProof b)\<rparr>"
definition bk_AddMintRewardProof :: "u256 \<Rightarrow> 'p cblock \<Rightarrow> 'p cblock" where
  "bk_AddMintRewardProof n b = b\<lparr>bk_mapProof := mput BP_MINTREWARD (wide_GetBytes 8 n) (bk_mapProof b)\<rparr>"
definition bk_AddBlockVoteSig :: "block_vote_sig \<Rightarrow> 'p cblock \<Rightarrow> 'p cblock" where
  "bk_AddBlockVoteSig p b = b\<lparr>bk_mapProof := mput BP_BLOCK_VOTE_SIG (bv_save p) (bk_mapProof b)\<rparr>"

definition bk_GetForkProfile :: "'p cblock \<Rightarrow> profile option" where
  "bk_GetForkProfile b = (case map_of (bk_mapProof b) BP_FORK_PROFILE of None \<Rightarrow> None | Some d \<Rightarrow> load_all pf_load d)"
definition bk_GetDelegateProof :: "'p cblock \<Rightarrow> proof_delegate option" where
  "bk_GetDelegateProof b = (case map_of (bk_mapProof b) BP_DELEGATE of None \<Rightarrow> None | Some d \<Rightarrow> load_all pd_load d)"
definition bk_GetPiggybackProof :: "'p cblock \<Rightarrow> proof_piggyback option" where
  "bk_GetPiggybackProof b = (case map_of (bk_mapProof b) BP_PIGGYBACK of None \<Rightarrow> None | Some d \<Rightarrow> load_all pp_load d)"
definition bk_GetPoaProof :: "'p cblock \<Rightarrow> proof_poa option" where
  "bk_GetPoaProof b = (case map_of (bk_mapProof b) BP_POA_PROOF of None \<Rightarrow> None | Some d \<Rightarrow> load_all pa_load d)"
definition bk_GetBlockVoteSig :: "'p cblock \<Rightarrow> block_vote_sig option" where
  "bk_GetBlockVoteSig b = (case map_of (bk_mapProof b) BP_BLOCK_VOTE_SIG of None \<Rightarrow> None | Some d \<Rightarrow> load_all bv_load d)"

text \<open>The two amounts: whether the stored bytes have the size of an integer, and the integer.\<close>

definition bk_GetMintCoinProof :: "'p cblock \<Rightarrow> bool \<times> u256" where
  "bk_GetMintCoinProof b = (case map_of (bk_mapProof b) BP_MINTCOIN of
     None \<Rightarrow> (False, 0) | Some d \<Rightarrow> (case wide_SetBytes 8 d of (n, w) \<Rightarrow> (n = 32, w)))"
definition bk_GetMintRewardProof :: "'p cblock \<Rightarrow> bool \<times> u256" where
  "bk_GetMintRewardProof b = (case map_of (bk_mapProof b) BP_MINTREWARD of
     None \<Rightarrow> (False, 0) | Some d \<Rightarrow> (case wide_SetBytes 8 d of (n, w) \<Rightarrow> (n = 32, w)))"

definition bk_GetBlockMint :: "'p cblock \<Rightarrow> bool \<times> u256" where
  "bk_GetBlockMint b = (if bk_nType b = BLOCK_EXTENDED \<or> bk_nType b = BLOCK_VACANT then (True, 0) else bk_GetMintCoinProof b)"

definition bk_GetBlockTotalReward :: "'p cblock \<Rightarrow> u256" where
  "bk_GetBlockTotalReward b = (case bk_GetMintRewardProof b of (ok, n) \<Rightarrow> if ok then n else 0)"

definition bk_GetRefBlock :: "'p cblock \<Rightarrow> u256" where
  "bk_GetRefBlock b =
     (if \<not> bk_IsPrimary b \<and> \<not> bk_IsOrigin b
      then (case bk_GetPiggybackProof b of Some p \<Rightarrow> pp_hashRefBlock p | None \<Rightarrow> 0) else 0)"

text \<open>The size the switch of \<^verbatim>\<open>VerifyBlockProof\<close> computes for one entry, \<open>None\<close> where it returns false.\<close>

definition proof_data_size :: "'p cblock \<Rightarrow> u8 \<Rightarrow> bytes \<Rightarrow> nat option" where
  "proof_data_size b k d =
     (if k = BP_FORK_PROFILE then
        (if \<not> bk_IsOrigin b then None else map_option (length \<circ> pf_save) (load_all pf_load d))
      else if k = BP_DELEGATE then
        (if bk_nType b \<noteq> BLOCK_PRIMARY \<or> tx_nType (bk_txMint b) \<noteq> TX_STAKE then None
         else map_option (length \<circ> pd_save) (load_all pd_load d))
      else if k = BP_PIGGYBACK then
        (if bk_nType b \<noteq> BLOCK_SUBSIDIARY \<and> bk_nType b \<noteq> BLOCK_EXTENDED \<and> bk_nType b \<noteq> BLOCK_VACANT then None
         else map_option (length \<circ> pp_save) (load_all pp_load d))
      else if k = BP_POA_PROOF then
        (if bk_nType b \<noteq> BLOCK_PRIMARY \<or> tx_nType (bk_txMint b) \<noteq> TX_POA then None
         else map_option (length \<circ> pa_save) (load_all pa_load d))
      else if k = BP_MINTCOIN \<or> k = BP_MINTREWARD then Some 32
      else if k = BP_BLOCK_VOTE_SIG then map_option (length \<circ> bv_save) (load_all bv_load d)
      else None)"

definition bk_VerifyBlockProof :: "'p cblock \<Rightarrow> bool" where
  "bk_VerifyBlockProof b = list_all (\<lambda>(k, d). proof_data_size b k d = Some (length d)) (bk_mapProof b)"

section \<open>Hashes\<close>

definition GetBlockChainIdByHash :: "u256 \<Rightarrow> u32" where
  "GetBlockChainIdByHash h = uint256_GetB1 (limbs 8 h)"

definition GetBlockHeightByHash :: "u256 \<Rightarrow> u32" where
  "GetBlockHeightByHash h = uint256_GetB2 (limbs 8 h)"

definition GetBlockSlotByHash :: "u256 \<Rightarrow> u16" where
  "GetBlockSlotByHash h = uint256_GetB3 (limbs 8 h)"

definition CreateBlockHash :: "u32 \<Rightarrow> u32 \<Rightarrow> u16 \<Rightarrow> u256 \<Rightarrow> u256" where
  "CreateBlockHash nChainId nHeight nSlot hash = of_limbs (uint256_bh nChainId nHeight nSlot (limbs 8 hash))"

definition BlockHashCompare :: "u256 \<Rightarrow> u256 \<Rightarrow> bool" where
  "BlockHashCompare a b =
     (if GetBlockChainIdByHash a < GetBlockChainIdByHash b then True
      else if GetBlockChainIdByHash a = GetBlockChainIdByHash b then
        (if GetBlockHeightByHash a < GetBlockHeightByHash b then True
         else if GetBlockHeightByHash a = GetBlockHeightByHash b then
           (if GetBlockSlotByHash a < GetBlockSlotByHash b then True
            else GetBlockSlotByHash a = GetBlockSlotByHash b \<and> a < b)
         else False)
      else False)"

definition CustomBlockHashCompare :: "u256 \<Rightarrow> u256 \<Rightarrow> bool" where
  "CustomBlockHashCompare a b =
     (if GetBlockHeightByHash a < GetBlockHeightByHash b then True
      else if GetBlockHeightByHash a = GetBlockHeightByHash b then
        (if GetBlockSlotByHash a < GetBlockSlotByHash b then True
         else if GetBlockSlotByHash a = GetBlockSlotByHash b then
           (if GetBlockChainIdByHash a < GetBlockChainIdByHash b then True
            else GetBlockChainIdByHash a = GetBlockChainIdByHash b \<and> a < b)
         else False)
      else False)"

definition CryptoHash2 :: "(bytes \<Rightarrow> u256) \<Rightarrow> u256 \<Rightarrow> u256 \<Rightarrow> u256" where
  "CryptoHash2 H h1 h2 = H (pn_bytes (limbs 8 h1) @ pn_bytes (limbs 8 h2))"

definition bk_CalcTxMerkleTreeRoot :: "(bytes \<Rightarrow> u256) \<Rightarrow> 'p cblock \<Rightarrow> u256" where
  "bk_CalcTxMerkleTreeRoot H b =
     snd (BuildMerkleTree (CryptoHash2 H) 0 (tx_GetHash H (bk_txMint b) # map (tx_GetHash H) (bk_vtx b)))"

text \<open>A proof the caller asks for is \<open>Some\<close> vector, a null pointer is \<open>None\<close>; \<open>add_prove\<close> is
  \<^verbatim>\<open>BuildMerkleProve\<close> on the pointer, which succeeds when there is none.\<close>

type_synonym prove_ptr = "u256 merkle_prove option"

definition add_prove :: "u256 \<Rightarrow> u256 list \<Rightarrow> nat \<Rightarrow> prove_ptr \<Rightarrow> bool \<times> prove_ptr" where
  "add_prove leaf t n p = (case p of None \<Rightarrow> (True, None)
     | Some pv \<Rightarrow> (case BuildMerkleProveHash leaf t n pv of (ok, pv') \<Rightarrow> (ok, Some pv')))"

definition bk_base_leaves :: "(bytes \<Rightarrow> u256) \<Rightarrow> 'p cblock \<Rightarrow> u256 list" where
  "bk_base_leaves H b =
     [H (u8_save (bk_nVersion b) @ u8_save (bk_nType b) @ fund_save 8 (bk_nTimeStamp b) @ fund_save 8 (bk_nNumber b) @
         fund_save 4 (bk_nHeight b) @ fund_save 2 (bk_nSlot b) @ wide_save 8 (bk_nGasLimit b) @ wide_save 8 (bk_nGasUsed b)),
      if bk_mapProof b \<noteq> [] then H (map_save data_save (bk_mapProof b)) else 0,
      bk_GetRefBlock b, bk_hashPrev b, bk_hashReceiptsRoot b,
      if bk_btBloomData b \<noteq> [] then H (bk_btBloomData b) else 0]"

definition bk_CalcBlockBaseMerkleTreeRoot ::
  "(bytes \<Rightarrow> u256) \<Rightarrow> 'p cblock \<Rightarrow> prove_ptr \<Rightarrow> prove_ptr \<Rightarrow> u256 \<times> prove_ptr \<times> prove_ptr" where
  "bk_CalcBlockBaseMerkleTreeRoot H b pPrev pRef =
     (let v = bk_base_leaves H b; nLeafCount = length v
      in case BuildMerkleTree (CryptoHash2 H) 0 v of (t, hashMerkleRoot) \<Rightarrow>
         if hashMerkleRoot = 0 then (0, pPrev, pRef)
         else (case add_prove (bk_hashPrev b) t nLeafCount pPrev of (ok1, pPrev') \<Rightarrow>
           if \<not> ok1 then (0, pPrev', pRef)
           else (case add_prove (bk_GetRefBlock b) t nLeafCount pRef of (ok2, pRef') \<Rightarrow>
             if \<not> ok2 then (0, pPrev', pRef') else (hashMerkleRoot, pPrev', pRef'))))"

definition append_prove :: "u256 merkle_prove \<Rightarrow> prove_ptr \<Rightarrow> prove_ptr" where
  "append_prove q p = map_option (\<lambda>pv. pv @ q) p"

definition bk_CalcMerkleTreeRootAndProve ::
  "(bytes \<Rightarrow> u256) \<Rightarrow> 'p cblock \<Rightarrow> prove_ptr \<Rightarrow> prove_ptr \<Rightarrow> prove_ptr \<Rightarrow> u256 \<times> prove_ptr \<times> prove_ptr \<times> prove_ptr" where
  "bk_CalcMerkleTreeRootAndProve H b pPrev pRef pCross =
     (case bk_CalcBlockBaseMerkleTreeRoot H b pPrev pRef of (hashBase, pPrev1, pRef1) \<Rightarrow>
       (let v = [hashBase, bk_hashStateRoot b, bk_hashCrosschainMerkleRoot b, bk_CalcTxMerkleTreeRoot H b]; nLeafCount = length v
        in case BuildMerkleTree (CryptoHash2 H) 0 v of (t, hashMerkleRoot) \<Rightarrow>
          (case (if pPrev1 \<noteq> None \<or> pRef1 \<noteq> None then BuildMerkleProveHash hashBase t nLeafCount [] else (True, [])) of (ok, pBase) \<Rightarrow>
             if \<not> ok then (0, pPrev1, pRef1, pCross)
             else (case add_prove (bk_hashCrosschainMerkleRoot b) t nLeafCount pCross of (ok2, pCross1) \<Rightarrow>
               (if ok2 then hashMerkleRoot else 0, append_prove pBase pPrev1, append_prove pBase pRef1, pCross1)))))"

definition bk_CalcMerkleTreeRoot :: "(bytes \<Rightarrow> u256) \<Rightarrow> 'p cblock \<Rightarrow> u256" where
  "bk_CalcMerkleTreeRoot H b = fst (bk_CalcMerkleTreeRootAndProve H b None None None)"

definition bk_GetMerkleProve ::
  "(bytes \<Rightarrow> u256) \<Rightarrow> 'p cblock \<Rightarrow> prove_ptr \<Rightarrow> prove_ptr \<Rightarrow> prove_ptr \<Rightarrow> bool \<times> prove_ptr \<times> prove_ptr \<times> prove_ptr" where
  "bk_GetMerkleProve H b pPrev pRef pCross =
     (case bk_CalcMerkleTreeRootAndProve H b pPrev pRef pCross of (root, ps) \<Rightarrow> (root \<noteq> 0, ps))"

definition bk_GetChainId :: "'p cblock \<Rightarrow> u32" where
  "bk_GetChainId b =
     (if bk_IsOrigin b then (case bk_GetForkProfile b of None \<Rightarrow> 0 | Some p \<Rightarrow> pf_nChainId p)
      else GetBlockChainIdByHash (bk_hashPrev b))"

definition bk_GetHash :: "(bytes \<Rightarrow> u256) \<Rightarrow> 'p cblock \<Rightarrow> u256" where
  "bk_GetHash H b = CreateBlockHash (bk_GetChainId b) (bk_nHeight b) (bk_nSlot b) (bk_CalcMerkleTreeRoot H b)"

definition VerifyBlockMerkleProve :: "(bytes \<Rightarrow> u256) \<Rightarrow> u256 \<Rightarrow> u256 merkle_prove \<Rightarrow> u256 \<Rightarrow> bool" where
  "VerifyBlockMerkleProve H hashBlock pv hashVerify =
     (hashBlock = CreateBlockHash (GetBlockChainIdByHash hashBlock) (GetBlockHeightByHash hashBlock) (GetBlockSlotByHash hashBlock)
        (GetMerkleRootByProve (CryptoHash2 H) pv hashVerify))"

definition bk_UpdateMerkleRoot :: "(bytes \<Rightarrow> u256) \<Rightarrow> 'p cblock \<Rightarrow> 'p cblock" where
  "bk_UpdateMerkleRoot H b = b\<lparr>bk_hashMerkleRoot := bk_CalcMerkleTreeRoot H b\<rparr>"

definition bk_VerifyBlockMerkleTreeRoot :: "(bytes \<Rightarrow> u256) \<Rightarrow> 'p cblock \<Rightarrow> bool" where
  "bk_VerifyBlockMerkleTreeRoot H b = (bk_hashMerkleRoot b = bk_CalcMerkleTreeRoot H b)"

definition bk_VerifyBlockHeight :: "'p cblock \<Rightarrow> bool" where
  "bk_VerifyBlockHeight b =
     (bk_nHeight b = (if bk_IsGenesis b then 0
        else if bk_IsExtended b then GetBlockHeightByHash (bk_hashPrev b)
        else GetBlockHeightByHash (bk_hashPrev b) + 1))"

definition bk_VerifyBlockSignature :: "(bytes \<Rightarrow> u256) \<Rightarrow> (u256 \<Rightarrow> bytes \<Rightarrow> destination) \<Rightarrow> destination \<Rightarrow> 'p cblock \<Rightarrow> bool" where
  "bk_VerifyBlockSignature H R destBlockSign b = (destBlockSign = R (bk_GetHash H b) (bk_vchSig b))"

section \<open>Wire format\<close>

definition hash_or_empty :: "u256 \<Rightarrow> bytes" where
  "hash_or_empty h = (if h \<noteq> 0 then wide_GetBytes 8 h else [])"

definition bk_header_save :: "'p cblock \<Rightarrow> bytes" where
  "bk_header_save b =
     u8_save (bk_nVersion b) @ u8_save (bk_nType b) @ varint_save (bk_nTimeStamp b) @ varint_save (bk_nNumber b) @
     fund_save 4 (bk_nHeight b) @ fund_save 2 (bk_nSlot b) @ wide_save 8 (bk_hashPrev b) @ bt_save (hash_or_empty (bk_hashMerkleRoot b)) @
     wide_save 8 (bk_hashStateRoot b) @ bt_save (hash_or_empty (bk_hashReceiptsRoot b)) @
     bt_save (hash_or_empty (bk_hashCrosschainMerkleRoot b)) @ bt_save (bk_btBloomData b) @ bt_save (wide_ToValid 8 (bk_nGasLimit b)) @
     bt_save (wide_ToValid 8 (bk_nGasUsed b)) @ map_save data_save (bk_mapProof b)"

definition bk_GetTxSerializedOffset :: "'p cblock \<Rightarrow> nat" where
  "bk_GetTxSerializedOffset b = length (bk_header_save b)"

definition bk_save :: "(u32 \<times> 'p \<Rightarrow> bytes) \<Rightarrow> 'p cblock \<Rightarrow> bytes" where
  "bk_save sp b = bk_header_save b @ tx_save (bk_txMint b) @ vector_save tx_save (bk_vtx b) @ map_save sp (bk_mapProve b) @
     bt_save (bk_vchSig b)"

definition bk_load :: "(bytes \<Rightarrow> eth_tx option) \<Rightarrow> (u32 \<times> 'p) loader \<Rightarrow> 'p cblock loader" where
  "bk_load eth lp s =
     res_bind (u8_load s) (\<lambda>(vs, s). res_bind (u8_load s) (\<lambda>(ty, s). res_bind (varint_load s) (\<lambda>(ts, s).
     res_bind (varint_load s) (\<lambda>(nu, s). res_bind (fund_load 4 s) (\<lambda>(he, s). res_bind (fund_load 2 s) (\<lambda>(sl, s).
     res_bind (wide_load 8 s) (\<lambda>(pv, s). res_bind (bt_load s) (\<lambda>(mr, s). res_bind (wide_load 8 s) (\<lambda>(sr, s).
     res_bind (bt_load s) (\<lambda>(rr, s). res_bind (bt_load s) (\<lambda>(cr, s). res_bind (bt_load s) (\<lambda>(bl, s).
     res_bind (bt_load s) (\<lambda>(gl, s). res_bind (bt_load s) (\<lambda>(gu, s). res_bind (map_load data_load [] s) (\<lambda>(mp, s).
     res_bind (tx_load eth s) (\<lambda>(mt, s). res_bind (vector_load (tx_load eth) s) (\<lambda>(vt, s).
     res_bind (map_load lp [] s) (\<lambda>(pr, s). res_bind (bt_load s) (\<lambda>(sg, s).
       Inr (\<lparr>bk_nVersion = vs, bk_nType = ty, bk_nTimeStamp = ts, bk_nNumber = nu, bk_nHeight = he, bk_nSlot = sl, bk_hashPrev = pv,
             bk_hashMerkleRoot = snd (wide_SetBytes 8 mr), bk_hashStateRoot = sr, bk_hashReceiptsRoot = snd (wide_SetBytes 8 rr),
             bk_hashCrosschainMerkleRoot = snd (wide_SetBytes 8 cr), bk_nGasLimit = wide_FromValid 8 gl,
             bk_nGasUsed = wide_FromValid 8 gu, bk_mapProof = mp, bk_txMint = mt, bk_vchSig = sg, bk_btBloomData = bl,
             bk_vtx = vt, bk_mapProve = pr\<rparr>, s))))))))))))))))))))"

definition bk_size :: "(u32 \<times> 'p \<Rightarrow> bytes) \<Rightarrow> 'p cblock \<Rightarrow> nat" where
  "bk_size sp b = length (bk_header_save b @ tx_save (bk_txMint b) @ vector_save tx_save (bk_vtx b) @ map_save sp (bk_mapProve b) @
     bt_save (bk_vchSig b))"

section \<open>Orders on block hashes\<close>

text \<open>Comparing a key first and breaking ties with a strict total order is one again.\<close>

lemma std_less_lex:
  assumes "std_less lt"
  shows "std_less (\<lambda>a b. f a < (f b :: 'k::linorder) \<or> f a = f b \<and> lt a b)"
proof
  show "\<not> (f a < f a \<or> f a = f a \<and> lt a a)" for a using std_less.irrefl[OF assms] by simp
  show "f a < f c \<or> f a = f c \<and> lt a c" if "f a < f b \<or> f a = f b \<and> lt a b" "f b < f c \<or> f b = f c \<and> lt b c" for a b c
    using that std_less.trans[OF assms, of a b c] by (metis less_trans)
  show "(f a < f b \<or> f a = f b \<and> lt a b) \<or> a = b \<or> f b < f a \<or> f b = f a \<and> lt b a" for a b
    using std_less.total[OF assms, of a b] by (metis linorder_less_linear)
qed

interpretation bhc: std_less BlockHashCompare
proof -
  have eq: "BlockHashCompare = (\<lambda>a b. GetBlockChainIdByHash a < GetBlockChainIdByHash b \<or> GetBlockChainIdByHash a = GetBlockChainIdByHash b \<and>
     (GetBlockHeightByHash a < GetBlockHeightByHash b \<or> GetBlockHeightByHash a = GetBlockHeightByHash b \<and>
     (GetBlockSlotByHash a < GetBlockSlotByHash b \<or> GetBlockSlotByHash a = GetBlockSlotByHash b \<and> a < b)))"
    by (simp add: fun_eq_iff BlockHashCompare_def)
  show "std_less BlockHashCompare" unfolding eq by (intro std_less_lex lin.std_less_axioms)
qed

interpretation chc: std_less CustomBlockHashCompare
proof -
  have eq: "CustomBlockHashCompare = (\<lambda>a b. GetBlockHeightByHash a < GetBlockHeightByHash b \<or> GetBlockHeightByHash a = GetBlockHeightByHash b \<and>
     (GetBlockSlotByHash a < GetBlockSlotByHash b \<or> GetBlockSlotByHash a = GetBlockSlotByHash b \<and>
     (GetBlockChainIdByHash a < GetBlockChainIdByHash b \<or> GetBlockChainIdByHash a = GetBlockChainIdByHash b \<and> a < b)))"
    by (simp add: fun_eq_iff CustomBlockHashCompare_def)
  show "std_less CustomBlockHashCompare" unfolding eq by (intro std_less_lex lin.std_less_axioms)
qed

lemma CustomBlockHashCompare_height:
  "GetBlockHeightByHash a < GetBlockHeightByHash b \<Longrightarrow> CustomBlockHashCompare a b"
  by (simp add: CustomBlockHashCompare_def)

section \<open>Numbers in the block hash\<close>

lemma bh_bytes:
  fixes b1 b2 b3
  defines "ss \<equiv> varint_save (ucast b1) @ varint_save (ucast b2) @ varint_save (ucast b3)"
  shows "pn_bytes (limbs 8 (CreateBlockHash b1 b2 b3 h)) = ss @ drop (length ss) (pn_bytes (limbs 8 h))"
proof -
  have "length ss \<le> 32" unfolding ss_def by (rule bh_prefix_short)
  then have "pn_bytes (bytes_pn 8 (ss @ drop (length ss) (pn_bytes (limbs 8 h)))) = ss @ drop (length ss) (pn_bytes (limbs 8 h))"
    by (intro pn_bytes_bytes_pn) simp
  moreover have "limbs 8 (CreateBlockHash b1 b2 b3 h) = bytes_pn 8 (ss @ drop (length ss) (pn_bytes (limbs 8 h)))"
    unfolding CreateBlockHash_def uint256_bh_def ss_def[symmetric] Let_def by (rule limbs_of_limbs) simp_all
  ultimately show ?thesis by simp
qed

lemma hash_numbers:
  "GetBlockChainIdByHash (CreateBlockHash c h s x) = c" "GetBlockHeightByHash (CreateBlockHash c h s x) = h"
  "GetBlockSlotByHash (CreateBlockHash c h s x) = s"
proof -
  have l: "limbs 8 (CreateBlockHash c h s x) = uint256_bh c h s (limbs 8 x)"
    unfolding CreateBlockHash_def by (rule limbs_of_limbs) (simp_all add: uint256_bh_def Let_def)
  show "GetBlockChainIdByHash (CreateBlockHash c h s x) = c" "GetBlockHeightByHash (CreateBlockHash c h s x) = h"
    "GetBlockSlotByHash (CreateBlockHash c h s x) = s"
    unfolding GetBlockChainIdByHash_def GetBlockHeightByHash_def GetBlockSlotByHash_def l
    by (simp_all add: uint256_GetB1_def uint256_GetB2_def uint256_GetB3_def bh_load_bh ucast_ucast_id)
qed

lemma limbs_inj: "limbs 8 x = limbs 8 y \<Longrightarrow> x = (y :: u256)"
  by (drule arg_cong[where f = "of_limbs :: pn \<Rightarrow> u256"]) (simp add: of_limbs_limbs)

lemma CreateBlockHash_eq:
  fixes b1 b2 b3
  defines "k \<equiv> length (varint_save (ucast b1) @ varint_save (ucast b2) @ varint_save (ucast b3))"
  shows "CreateBlockHash b1 b2 b3 x = CreateBlockHash b1 b2 b3 y \<longleftrightarrow> drop k (pn_bytes (limbs 8 x)) = drop k (pn_bytes (limbs 8 y))"
proof
  assume "CreateBlockHash b1 b2 b3 x = CreateBlockHash b1 b2 b3 y"
  then show "drop k (pn_bytes (limbs 8 x)) = drop k (pn_bytes (limbs 8 y))"
    using bh_bytes[of b1 b2 b3 x] bh_bytes[of b1 b2 b3 y] by (simp add: k_def)
next
  assume "drop k (pn_bytes (limbs 8 x)) = drop k (pn_bytes (limbs 8 y))"
  then have "pn_bytes (limbs 8 (CreateBlockHash b1 b2 b3 x)) = pn_bytes (limbs 8 (CreateBlockHash b1 b2 b3 y))"
    using bh_bytes[of b1 b2 b3 x] bh_bytes[of b1 b2 b3 y] by (simp add: k_def)
  then show "CreateBlockHash b1 b2 b3 x = CreateBlockHash b1 b2 b3 y"
    using pn_bytes_inj[of "limbs 8 (CreateBlockHash b1 b2 b3 x)" "limbs 8 (CreateBlockHash b1 b2 b3 y)"] limbs_inj by simp
qed

section \<open>Membership proofs of a block\<close>

lemma BuildMerkleProveHash_path:
  assumes "leaf \<in> set v"
  shows "\<exists>j < length v. v ! j = leaf \<and> BuildMerkleProveHash leaf (layers H v) (length v) pv = (True, pv @ path H v j)"
proof -
  obtain i where i: "i < length v" "v ! i = leaf" using assms by (auto simp: in_set_conv_nth)
  obtain r where r: "layers H v = v @ r" using layers_prefix by blast
  define j where "j = find_leaf leaf (layers H v) 0 (length v)"
  have j: "j < length v" "v ! j = leaf"
    using find_leaf_least[of i "length v" "layers H v" 0 leaf] i by (auto simp: j_def r nth_append split: if_splits)
  have "prove_loop (layers H v) 0 j (length v) pv = (True, pv @ path H v j)"
    using prove_loop_path[OF j(1), of "layers H v" "[]" H pv] by simp
  then have "BuildMerkleProveHash leaf (layers H v) (length v) pv = (True, pv @ path H v j)"
    using j(1) by (simp add: BuildMerkleProveHash_def BuildMerkleProve_def Let_def j_def[symmetric]) (simp add: r)
  then show ?thesis using j by blast
qed

lemma GetMerkleRootByProve_append:
  "GetMerkleRootByProve H (p @ q) h = GetMerkleRootByProve H q (GetMerkleRootByProve H p h)"
  by (simp add: GetMerkleRootByProve_def)

lemma GetMerkleRootByProve_path: "j < length v \<Longrightarrow> GetMerkleRootByProve H (path H v j) (v ! j) = merkle_root H v"
  by (simp add: GetMerkleRootByProve_combine path_root)

lemma add_prove_Some:
  assumes "leaf \<in> set v"
  shows "\<exists>p. add_prove leaf (layers H v) (length v) (Some pv) = (True, Some (pv @ p)) \<and> GetMerkleRootByProve H p leaf = merkle_root H v"
  using BuildMerkleProveHash_path[OF assms, of H pv] GetMerkleRootByProve_path[of _ v H] by (auto simp: add_prove_def)

lemma CalcBlockBase_prove:
  assumes "fst (bk_CalcBlockBaseMerkleTreeRoot H b None None) \<noteq> 0"
  obtains p q where "bk_CalcBlockBaseMerkleTreeRoot H b (Some []) (Some []) = (fst (bk_CalcBlockBaseMerkleTreeRoot H b None None), Some p, Some q)"
    "GetMerkleRootByProve (CryptoHash2 H) p (bk_hashPrev b) = fst (bk_CalcBlockBaseMerkleTreeRoot H b None None)"
    "GetMerkleRootByProve (CryptoHash2 H) q (bk_GetRefBlock b) = fst (bk_CalcBlockBaseMerkleTreeRoot H b None None)"
proof -
  define v where "v = bk_base_leaves H b"
  have v: "v \<noteq> []" "bk_hashPrev b \<in> set v" "bk_GetRefBlock b \<in> set v" by (simp_all add: v_def bk_base_leaves_def)
  have t: "BuildMerkleTree (CryptoHash2 H) 0 v = (layers (CryptoHash2 H) v, merkle_root (CryptoHash2 H) v)"
    by (rule BuildMerkleTree_layers[OF v(1)])
  have r: "fst (bk_CalcBlockBaseMerkleTreeRoot H b None None) = merkle_root (CryptoHash2 H) v"
    by (simp add: bk_CalcBlockBaseMerkleTreeRoot_def Let_def v_def[symmetric] t add_prove_def)
  obtain p where p: "add_prove (bk_hashPrev b) (layers (CryptoHash2 H) v) (length v) (Some []) = (True, Some p)"
    "GetMerkleRootByProve (CryptoHash2 H) p (bk_hashPrev b) = merkle_root (CryptoHash2 H) v"
    using add_prove_Some[OF v(2), of "CryptoHash2 H" "[]"] by auto
  obtain q where q: "add_prove (bk_GetRefBlock b) (layers (CryptoHash2 H) v) (length v) (Some []) = (True, Some q)"
    "GetMerkleRootByProve (CryptoHash2 H) q (bk_GetRefBlock b) = merkle_root (CryptoHash2 H) v"
    using add_prove_Some[OF v(3), of "CryptoHash2 H" "[]"] by auto
  show ?thesis
  proof (rule that)
    show "bk_CalcBlockBaseMerkleTreeRoot H b (Some []) (Some []) = (fst (bk_CalcBlockBaseMerkleTreeRoot H b None None), Some p, Some q)"
      using assms p(1) q(1) unfolding r by (simp add: bk_CalcBlockBaseMerkleTreeRoot_def Let_def v_def[symmetric] t)
  qed (use p(2) q(2) r in simp_all)
qed

lemma GetMerkleProve_roots:
  assumes "fst (bk_CalcBlockBaseMerkleTreeRoot H b None None) \<noteq> 0"
  shows "\<exists>p q c. bk_CalcMerkleTreeRootAndProve H b (Some []) (Some []) (Some []) = (bk_CalcMerkleTreeRoot H b, Some p, Some q, Some c) \<and>
    GetMerkleRootByProve (CryptoHash2 H) p (bk_hashPrev b) = bk_CalcMerkleTreeRoot H b \<and>
    GetMerkleRootByProve (CryptoHash2 H) q (bk_GetRefBlock b) = bk_CalcMerkleTreeRoot H b \<and>
    GetMerkleRootByProve (CryptoHash2 H) c (bk_hashCrosschainMerkleRoot b) = bk_CalcMerkleTreeRoot H b"
proof -
  define base where "base = fst (bk_CalcBlockBaseMerkleTreeRoot H b None None)"
  obtain p q where pq: "bk_CalcBlockBaseMerkleTreeRoot H b (Some []) (Some []) = (base, Some p, Some q)"
    "GetMerkleRootByProve (CryptoHash2 H) p (bk_hashPrev b) = base" "GetMerkleRootByProve (CryptoHash2 H) q (bk_GetRefBlock b) = base"
    using CalcBlockBase_prove[OF assms] unfolding base_def by blast
  define v where "v = [base, bk_hashStateRoot b, bk_hashCrosschainMerkleRoot b, bk_CalcTxMerkleTreeRoot H b]"
  have v: "v \<noteq> []" "base \<in> set v" "bk_hashCrosschainMerkleRoot b \<in> set v" "length v = 4" by (simp_all add: v_def)
  have t: "BuildMerkleTree (CryptoHash2 H) 0 v = (layers (CryptoHash2 H) v, merkle_root (CryptoHash2 H) v)"
    by (rule BuildMerkleTree_layers[OF v(1)])
  obtain nb where "bk_CalcBlockBaseMerkleTreeRoot H b None None = (base, nb)" by (simp add: base_def prod_eq_iff)
  moreover have "snd (bk_CalcBlockBaseMerkleTreeRoot H b None None) = (None, None)"
    by (simp add: bk_CalcBlockBaseMerkleTreeRoot_def Let_def add_prove_def split: prod.splits)
  ultimately have "bk_CalcBlockBaseMerkleTreeRoot H b None None = (base, None, None)" by simp
  then have r: "bk_CalcMerkleTreeRoot H b = merkle_root (CryptoHash2 H) v"
    by (simp add: bk_CalcMerkleTreeRoot_def bk_CalcMerkleTreeRootAndProve_def Let_def v_def[symmetric] t add_prove_def)
  obtain j where j: "j < length v" "v ! j = base" "BuildMerkleProveHash base (layers (CryptoHash2 H) v) (length v) [] = (True, [] @ path (CryptoHash2 H) v j)"
    using BuildMerkleProveHash_path[OF v(2), of "CryptoHash2 H" "[]"] by blast
  obtain c where c: "add_prove (bk_hashCrosschainMerkleRoot b) (layers (CryptoHash2 H) v) (length v) (Some []) = (True, Some c)"
    "GetMerkleRootByProve (CryptoHash2 H) c (bk_hashCrosschainMerkleRoot b) = merkle_root (CryptoHash2 H) v"
    using add_prove_Some[OF v(3), of "CryptoHash2 H" "[]"] by auto
  have "GetMerkleRootByProve (CryptoHash2 H) (path (CryptoHash2 H) v j) base = merkle_root (CryptoHash2 H) v"
    using GetMerkleRootByProve_path[OF j(1), of "CryptoHash2 H"] j(2) by simp
  moreover have "bk_CalcMerkleTreeRootAndProve H b (Some []) (Some []) (Some []) =
      (merkle_root (CryptoHash2 H) v, Some (p @ path (CryptoHash2 H) v j), Some (q @ path (CryptoHash2 H) v j), Some c)"
    using j(3) c(1) by (simp add: bk_CalcMerkleTreeRootAndProve_def Let_def pq(1) v_def[symmetric] t append_prove_def)
  ultimately show ?thesis unfolding r using pq(2,3) c(2) by (auto simp: GetMerkleRootByProve_append)
qed

section \<open>Proof data is canonical\<close>

lemma wide_load_exact:
  assumes "length x = 4 * W" "LENGTH('a) = 32 * W"
  shows "\<exists>w :: 'a::len word. wide_load W (x @ r) = Inr (w, r) \<and> wide_save W w = x"
proof (intro exI conjI)
  show "wide_load W (x @ r) = Inr (of_limbs (base_load W x) :: 'a word, r)"
    using assms(1) by (simp add: wide_load_def uint_load_def)
  show "wide_save W (of_limbs (base_load W x) :: 'a word) = x"
    using assms base_save_load[of x W] by (simp add: wide_save_def limbs_of_limbs base_load_rev)
qed

lemma fund_load_exact:
  assumes "length x = n" "LENGTH('a) = 8 * n"
  shows "\<exists>w :: 'a::len word. fund_load n (x @ r) = Inr (w, r) \<and> fund_save n w = x"
proof (intro exI conjI)
  show "fund_load n (x @ r) = Inr (fund_of_bytes x :: 'a word, r)" using assms(1) by (simp add: fund_load_def)
  show "fund_save n (fund_of_bytes x :: 'a word) = x"
  proof (rule nth_equalityI)
    fix i assume i: "i < length (fund_save n (fund_of_bytes x :: 'a word))"
    show "fund_save n (fund_of_bytes x :: 'a word) ! i = x ! i"
    proof (rule bit_word_eqI)
      fix k assume "k < LENGTH(8)"
      then show "bit (fund_save n (fund_of_bytes x :: 'a word) ! i) k = bit (x ! i) k"
        using i assms by (simp add: fund_save_def bit_simps bit_fund_of_bytes)
    qed
  qed (simp add: assms)
qed


lemma pp_load_exact:
  assumes "length d = 65"
  shows "\<exists>p. pp_load d = Inr (p, []) \<and> pp_save p = d"
proof -
  define x y z where xyz: "x = take 1 d" "y = take 32 (drop 1 d)" "z = drop 33 d"
  have "drop 1 d = y @ z" using append_take_drop_id[of 32 "drop 1 d"] by (simp add: xyz)
  then have d: "d = x @ y @ z @ []" "length x = 1" "length y = 4 * 8" "length z = 4 * 8"
    using append_take_drop_id[of 1 d] assms by (simp_all add: xyz)
  obtain w where "u8_load (x @ y @ z @ []) = Inr (w, y @ z @ [])" "u8_save w = x"
    using fund_load_exact[OF d(2), of "y @ z @ []", where 'a = 8] by (auto simp: u8_load_def u8_save_def)
  moreover obtain a :: u256 where "wide_load 8 (y @ z @ []) = Inr (a, z @ [])" "wide_save 8 a = y"
    using wide_load_exact[OF d(3), of "z @ []", where 'a = 256] by auto
  moreover obtain h :: u256 where "wide_load 8 (z @ []) = Inr (h, [])" "wide_save 8 h = z"
    using wide_load_exact[OF d(4), of "[]", where 'a = 256] by auto
  ultimately show ?thesis
    by (intro exI[of _ "\<lparr>pp_nWeight = w, pp_nAgreement = a, pp_hashRefBlock = h\<rparr>"]) (simp add: d(1) pp_load_def pp_save_def)
qed

lemma pa_load_exact:
  assumes "length d = 61"
  shows "\<exists>p. pa_load d = Inr (p, []) \<and> pa_save p = d"
proof -
  define x y z u where xyz: "x = take 1 d" "y = take 32 (drop 1 d)" "z = take 20 (drop 33 d)" "u = drop 53 d"
  have "drop 33 d = z @ u" using append_take_drop_id[of 20 "drop 33 d"] by (simp add: xyz)
  moreover have "drop 1 d = y @ drop 33 d" using append_take_drop_id[of 32 "drop 1 d"] by (simp add: xyz)
  ultimately have d: "d = x @ y @ z @ u @ []" "length x = 1" "length y = 4 * 8" "length z = 4 * 5" "length u = 8"
    using append_take_drop_id[of 1 d] assms by (simp_all add: xyz)
  obtain w where "u8_load (x @ y @ z @ u @ []) = Inr (w, y @ z @ u @ [])" "u8_save w = x"
    using fund_load_exact[OF d(2), of "y @ z @ u @ []", where 'a = 8] by (auto simp: u8_load_def u8_save_def)
  moreover obtain a :: u256 where "wide_load 8 (y @ z @ u @ []) = Inr (a, z @ u @ [])" "wide_save 8 a = y"
    using wide_load_exact[OF d(3), of "z @ u @ []", where 'a = 256] by auto
  moreover obtain m :: u160 where "wide_load 5 (z @ u @ []) = Inr (m, u @ [])" "wide_save 5 m = z"
    using wide_load_exact[OF d(4), of "u @ []", where 'a = 160] by auto
  moreover obtain n :: u64 where "fund_load 8 (u @ []) = Inr (n, [])" "fund_save 8 n = u"
    using fund_load_exact[OF d(5), of "[]", where 'a = 64] by auto
  ultimately show ?thesis
    by (intro exI[of _ "\<lparr>pa_nWeight = w, pa_nAgreement = a, pa_destMint = m, pa_nNonce = n\<rparr>"]) (simp add: d(1) pa_load_def pa_save_def)
qed

lemma length_wide_save [simp]: "length (wide_save W w) = 4 * W"
  by (simp add: wide_save_def)

lemma length_proofs [simp]: "length (pp_save p) = 65" "length (pa_save q) = 61"
  by (simp_all add: pp_save_def pa_save_def)

lemma VerifyBlockProofD:
  "bk_VerifyBlockProof b \<Longrightarrow> map_of (bk_mapProof b) k = Some d \<Longrightarrow> proof_data_size b k d = Some (length d)"
  by (auto simp: bk_VerifyBlockProof_def list_all_iff dest: map_of_SomeD)

lemma VerifyBlockProof_mput:
  assumes "bk_VerifyBlockProof b" "proof_data_size b k d = Some (length d)"
  shows "bk_VerifyBlockProof (b\<lparr>bk_mapProof := mput k d (bk_mapProof b)\<rparr>)"
proof -
  have "proof_data_size (b\<lparr>bk_mapProof := m\<rparr>) = proof_data_size b" for m
    by (simp add: fun_eq_iff proof_data_size_def bk_IsOrigin_def)
  then show ?thesis using assms lin.set_set_subset[of k d "bk_mapProof b"]
    by (auto simp: bk_VerifyBlockProof_def list_all_iff)
qed

section \<open>The wire format round-trips\<close>

definition bk_ok :: "(bytes \<Rightarrow> eth_tx option) \<Rightarrow> (u32 \<times> 'p \<Rightarrow> bool) \<Rightarrow> 'p cblock \<Rightarrow> bool" where
  "bk_ok eth okp b \<longleftrightarrow> bt_ok (bk_btBloomData b) \<and> bt_ok (bk_vchSig b) \<and> map_ok (\<lambda>t. True \<and> bt_ok (snd t)) (bk_mapProof b) \<and>
     tx_ok eth (bk_txMint b) \<and> vector_ok (tx_ok eth) (bk_vtx b) \<and> map_ok okp (bk_mapProve b)"

lemma hash_or_empty_load [simp]: "bt_load (bt_save (hash_or_empty h) @ r) = Inr (hash_or_empty h, r)"
  by (rule bt.load_save) (simp add: hash_or_empty_def)

lemma hash_or_empty_SetBytes [simp]: "snd (wide_SetBytes 8 (hash_or_empty h)) = h"
  by (simp add: hash_or_empty_def wide_SetBytes_GetBytes wide_SetBytes_null)

lemma bk_codec:
  assumes "codec sp lp zp okp"
  shows "codec (bk_save sp) (bk_load eth lp) (bk_size sp) (bk_ok eth okp)"
proof
  note vt = codec.vector_codec[OF txc.codec_axioms[of eth]]
  note mp = map_codec[OF assms]
  show "bk_load eth lp (bk_save sp b @ r) = Inr (b, r)" if "bk_ok eth okp b" for b r
  proof -
    have o: "bt_ok (bk_btBloomData b)" "bt_ok (bk_vchSig b)" "map_ok (\<lambda>t. True \<and> bt_ok (snd t)) (bk_mapProof b)"
      "tx_ok eth (bk_txMint b)" "vector_ok (tx_ok eth) (bk_vtx b)" "map_ok okp (bk_mapProve b)"
      using that by (simp_all add: bk_ok_def)
    show ?thesis
      using o(1,2) by (simp add: bk_load_def bk_save_def bk_header_save_def txdata.load_save[OF o(3)] txc.load_save[OF o(4)]
          codec.load_save[OF vt o(5)] codec.load_save[OF mp o(6)] wide_FromValid_ToValid)
  qed
  show "bk_size sp b = length (bk_save sp b)" for b by (simp add: bk_size_def bk_save_def)
  have "takes_prefix (bk_load eth lp)" unfolding bk_load_def
    by (intro prefix_intros txdata.load_prefix txc.load_prefix codec.load_prefix[OF vt] codec.load_prefix[OF mp])
  then show "bk_load eth lp s = Inr (b, r) \<Longrightarrow> \<exists>p. s = p @ r" for s b r by (rule takes_prefix_iff)
qed

section \<open>Properties\<close>

text \<open>(C4) The proofs a block hands out are accepted: when neither Merkle root is 0, \<^verbatim>\<open>GetMerkleProve\<close> succeeds, and
  \<^verbatim>\<open>VerifyBlockMerkleProve\<close> accepts its three proofs against the block's hash for the previous block, the referenced
  block and the cross-chain root.\<close>

theorem block_merkle_prove:
  assumes "fst (bk_CalcBlockBaseMerkleTreeRoot H b None None) \<noteq> 0" "bk_CalcMerkleTreeRoot H b \<noteq> 0"
  shows "\<exists>p q c. bk_GetMerkleProve H b (Some []) (Some []) (Some []) = (True, Some p, Some q, Some c) \<and>
    VerifyBlockMerkleProve H (bk_GetHash H b) p (bk_hashPrev b) \<and>
    VerifyBlockMerkleProve H (bk_GetHash H b) q (bk_GetRefBlock b) \<and>
    VerifyBlockMerkleProve H (bk_GetHash H b) c (bk_hashCrosschainMerkleRoot b)"
  using GetMerkleProve_roots[OF assms(1)] assms(2)
  by (auto simp: bk_GetMerkleProve_def VerifyBlockMerkleProve_def bk_GetHash_def hash_numbers)

text \<open>(C36) The hash of a block gives back its chain, height and slot, and \<^verbatim>\<open>VerifyBlockMerkleProve\<close> compares the root
  computed from a proof with the block's root on the bytes behind those three numbers only, which are at least nineteen.\<close>

theorem block_hash_numbers:
  fixes H b
  defines "k \<equiv> length (varint_save (ucast (bk_GetChainId b)) @ varint_save (ucast (bk_nHeight b)) @ varint_save (ucast (bk_nSlot b)))"
  shows "GetBlockChainIdByHash (bk_GetHash H b) = bk_GetChainId b \<and> GetBlockHeightByHash (bk_GetHash H b) = bk_nHeight b \<and>
    GetBlockSlotByHash (bk_GetHash H b) = bk_nSlot b \<and>
    (VerifyBlockMerkleProve H (bk_GetHash H b) pv h \<longleftrightarrow>
      drop k (pn_bytes (limbs 8 (GetMerkleRootByProve (CryptoHash2 H) pv h))) = drop k (pn_bytes (limbs 8 (bk_CalcMerkleTreeRoot H b)))) \<and>
    k \<le> 13"
proof (intro conjI)
  show "GetBlockChainIdByHash (bk_GetHash H b) = bk_GetChainId b" "GetBlockHeightByHash (bk_GetHash H b) = bk_nHeight b"
    "GetBlockSlotByHash (bk_GetHash H b) = bk_nSlot b"
    by (simp_all add: bk_GetHash_def hash_numbers)
  show "VerifyBlockMerkleProve H (bk_GetHash H b) pv h \<longleftrightarrow>
      drop k (pn_bytes (limbs 8 (GetMerkleRootByProve (CryptoHash2 H) pv h))) = drop k (pn_bytes (limbs 8 (bk_CalcMerkleTreeRoot H b)))"
    unfolding VerifyBlockMerkleProve_def bk_GetHash_def hash_numbers CreateBlockHash_eq k_def by (rule eq_commute)
  have "length (varint_save (ucast (bk_GetChainId b))) \<le> 5" "length (varint_save (ucast (bk_nHeight b))) \<le> 5"
    by (rule order_trans[OF varint_size_le[of _ 4]];
        use unsigned_less[of "bk_GetChainId b"] unsigned_less[of "bk_nHeight b"] in \<open>simp add: unat_u32_u64\<close>)+
  moreover have "length (varint_save (ucast (bk_nSlot b))) \<le> 3"
    by (rule order_trans[OF varint_size_le[of _ 2]]; use unat_u16_u64[of "bk_nSlot b"] in simp)
  ultimately show "k \<le> 13" by (simp add: k_def)
qed

text \<open>Both orders on block hashes are strict total orders, as the maps that use them need, and they put blocks
  in the order of their numbers first.\<close>

theorem block_hash_orders:
  "std_less BlockHashCompare \<and> std_less CustomBlockHashCompare \<and>
   (GetBlockHeightByHash a < GetBlockHeightByHash b \<longrightarrow> CustomBlockHashCompare a b \<and> \<not> CustomBlockHashCompare b a) \<and>
   (CustomBlockHashCompare a b \<longrightarrow> GetBlockHeightByHash a \<le> GetBlockHeightByHash b) \<and>
   (BlockHashCompare a b \<longrightarrow> GetBlockChainIdByHash a \<le> GetBlockChainIdByHash b)"
  using bhc.std_less_axioms chc.std_less_axioms
  by (auto simp: CustomBlockHashCompare_def BlockHashCompare_def split: if_splits)

text \<open>(C16) A block is read back from what was written, whatever serialiser the cross-chain proofs have, and the counted
  size is the number of bytes written.\<close>

theorem block_wire:
  assumes "codec sp lp zp okp" "bk_ok eth okp b"
  shows "bk_load eth lp (bk_save sp b @ r) = Inr (b, r) \<and> bk_size sp b = length (bk_save sp b) \<and>
    (\<exists>s. bk_save sp b = bk_header_save b @ s \<and> bk_GetTxSerializedOffset b + length s = bk_size sp b)"
  using codec.load_save[OF bk_codec[OF assms(1)] assms(2)] codec.size_save[OF bk_codec[OF assms(1)] assms(2)]
  by (auto simp: bk_save_def bk_GetTxSerializedOffset_def)

text \<open>(C37) A block that passes \<^verbatim>\<open>VerifyBlockProof\<close> has its piggyback and its authority proof in exactly one form, the one
  the saver writes, and only in blocks of the right type. Adding such a proof to a block of that type keeps it passing,
  and the proof is found again.\<close>

theorem block_proof_canonical:
  assumes "bk_VerifyBlockProof b"
  shows "(map_of (bk_mapProof b) BP_PIGGYBACK = Some d \<longrightarrow>
      (\<exists>p. bk_GetPiggybackProof b = Some p \<and> d = pp_save p \<and> (bk_IsSubsidiary b \<or> bk_IsExtended b \<or> bk_IsVacant b))) \<and>
    (map_of (bk_mapProof b) BP_POA_PROOF = Some d' \<longrightarrow>
      (\<exists>p. bk_GetPoaProof b = Some p \<and> d' = pa_save p \<and> bk_nType b = BLOCK_PRIMARY \<and> bk_IsProofOfPoa b)) \<and>
    (bk_IsSubsidiary b \<or> bk_IsExtended b \<or> bk_IsVacant b \<longrightarrow>
      bk_VerifyBlockProof (bk_AddPiggybackProof p b) \<and> bk_GetPiggybackProof (bk_AddPiggybackProof p b) = Some p) \<and>
    (bk_nType b = BLOCK_PRIMARY \<and> bk_IsProofOfPoa b \<longrightarrow>
      bk_VerifyBlockProof (bk_AddPoaProof q b) \<and> bk_GetPoaProof (bk_AddPoaProof q b) = Some q)"
proof (intro conjI impI)
  note pp = ppc.load_all_save[OF TrueI] and pa = pac.load_all_save[OF TrueI]
  show "\<exists>p. bk_GetPiggybackProof b = Some p \<and> d = pp_save p \<and> (bk_IsSubsidiary b \<or> bk_IsExtended b \<or> bk_IsVacant b)"
    if m: "map_of (bk_mapProof b) BP_PIGGYBACK = Some d"
  proof -
    have "proof_data_size b BP_PIGGYBACK d = Some (length d)" by (rule VerifyBlockProofD[OF assms m])
    then have "length d = 65" "bk_IsSubsidiary b \<or> bk_IsExtended b \<or> bk_IsVacant b"
      by (auto simp: proof_data_size_def bp_defs bk_IsSubsidiary_def bk_IsExtended_def bk_IsVacant_def split: if_splits)
    moreover from this(1) obtain p where "d = pp_save p" using pp_load_exact by blast
    ultimately show ?thesis using m pp by (auto simp: bk_GetPiggybackProof_def)
  qed
  show "\<exists>p. bk_GetPoaProof b = Some p \<and> d' = pa_save p \<and> bk_nType b = BLOCK_PRIMARY \<and> bk_IsProofOfPoa b"
    if m: "map_of (bk_mapProof b) BP_POA_PROOF = Some d'"
  proof -
    have "proof_data_size b BP_POA_PROOF d' = Some (length d')" by (rule VerifyBlockProofD[OF assms m])
    then have "length d' = 61" "bk_nType b = BLOCK_PRIMARY \<and> bk_IsProofOfPoa b"
      by (auto simp: proof_data_size_def bp_defs bk_IsProofOfPoa_def split: if_splits)
    moreover from this(1) obtain p where "d' = pa_save p" using pa_load_exact by blast
    ultimately show ?thesis using m pa by (auto simp: bk_GetPoaProof_def)
  qed
  show "bk_VerifyBlockProof (bk_AddPiggybackProof p b)" if "bk_IsSubsidiary b \<or> bk_IsExtended b \<or> bk_IsVacant b"
    unfolding bk_AddPiggybackProof_def
    by (rule VerifyBlockProof_mput[OF assms])
       (use that pp in \<open>auto simp: proof_data_size_def bp_defs bk_IsSubsidiary_def bk_IsExtended_def bk_IsVacant_def\<close>)
  show "bk_GetPiggybackProof (bk_AddPiggybackProof p b) = Some p"
    using pp by (simp add: bk_GetPiggybackProof_def bk_AddPiggybackProof_def)
  show "bk_VerifyBlockProof (bk_AddPoaProof q b)" if "bk_nType b = BLOCK_PRIMARY \<and> bk_IsProofOfPoa b"
    unfolding bk_AddPoaProof_def
    by (rule VerifyBlockProof_mput[OF assms]) (use that pa in \<open>auto simp: proof_data_size_def bp_defs bk_IsProofOfPoa_def\<close>)
  show "bk_GetPoaProof (bk_AddPoaProof q b) = Some q"
    using pa by (simp add: bk_GetPoaProof_def bk_AddPoaProof_def)
qed


lemma CryptoHash2_const: "CryptoHash2 (\<lambda>_. c) = (\<lambda>_ _. c)"
  by (simp add: fun_eq_iff CryptoHash2_def)

lemma merkle_root_const: "1 < length v \<Longrightarrow> merkle_root (\<lambda>_ _. c) v = c"
proof (induction "length v" arbitrary: v rule: less_induct)
  case less
  have "length (up (\<lambda>_ _. c) v) < length v" using less.prems by simp
  moreover have "up (\<lambda>_ _. c) v = [c]" if "length v = 2" using that by (simp add: up_def)
  ultimately show ?case using less.hyps[of "up (\<lambda>_ _. c) v"] less.prems
    by (subst merkle_root.simps) (cases "length v = 2"; auto simp: merkle_root.simps[of _ "[c]"])
qed

lemma const_roots:
  "c \<noteq> 0 \<Longrightarrow> fst (bk_CalcBlockBaseMerkleTreeRoot (\<lambda>_. c) b None None) = c" "bk_CalcMerkleTreeRoot (\<lambda>_. c) b = c"
  using merkle_root_const[of "bk_base_leaves (\<lambda>_. c) b" c] BuildMerkleTree_layers[of "bk_base_leaves (\<lambda>_. c) b" "\<lambda>_ _. c" 0]
  by (simp_all add: bk_CalcMerkleTreeRoot_def bk_CalcMerkleTreeRootAndProve_def bk_CalcBlockBaseMerkleTreeRoot_def Let_def CryptoHash2_const
      bk_base_leaves_def add_prove_def BuildMerkleTree_layers merkle_root_const)

theorem block_merkle_prove_witness:
  "\<exists>p q c. bk_GetMerkleProve (\<lambda>_. 7) (bk_SetNull :: unit cblock) (Some []) (Some []) (Some []) = (True, Some p, Some q, Some c)"
  using block_merkle_prove[of "\<lambda>_. 7" "bk_SetNull :: unit cblock"] by (auto simp: const_roots)

theorem block_hash_orders_witness: "\<not> CustomBlockHashCompare 5 5"
  using block_hash_orders[of 5 5] std_less.irrefl[of CustomBlockHashCompare 5] by blast

lemma unit_codec: "codec (pair_save (fund_save 4) (\<lambda>_. [])) (pair_load (fund_load 4) (\<lambda>s. Inr ((), s))) (pair_size (\<lambda>_. 4) (\<lambda>_. 0))
    (\<lambda>t :: u32 \<times> unit. True \<and> True)"
  by (rule pair_codec[OF f32.codec_axioms]) (unfold_locales, auto)

lemma null_block_ok: "bk_ok eth okp bk_SetNull"
  by (simp add: bk_ok_def bk_SetNull_def map_ok_def vector_ok_def tx_ok_def tx_SetNull_def tx_IsEthTx_def TX_ETH_CREATE_CONTRACT_def TX_ETH_MESSAGE_CALL_def)

theorem block_wire_witness:
  "bk_load (\<lambda>_. None) (pair_load (fund_load 4) (\<lambda>s. Inr ((), s))) (bk_save (pair_save (fund_save 4) (\<lambda>_. [])) (bk_SetNull :: unit cblock) @ [1]) =
     Inr (bk_SetNull, [1])"
  by (rule block_wire[OF unit_codec null_block_ok, THEN conjunct1])

theorem block_proof_canonical_witness:
  "bk_VerifyBlockProof (bk_AddPiggybackProof \<lparr>pp_nWeight = 1, pp_nAgreement = 2, pp_hashRefBlock = 3\<rparr> (bk_SetNull\<lparr>bk_nType := BLOCK_VACANT\<rparr> :: unit cblock))"
proof -
  have "bk_VerifyBlockProof (bk_SetNull\<lparr>bk_nType := BLOCK_VACANT\<rparr> :: unit cblock)" "bk_IsVacant (bk_SetNull\<lparr>bk_nType := BLOCK_VACANT\<rparr> :: unit cblock)"
    by (simp_all add: bk_VerifyBlockProof_def bk_SetNull_def bk_IsVacant_def)
  then show ?thesis using block_proof_canonical[of "bk_SetNull\<lparr>bk_nType := BLOCK_VACANT\<rparr> :: unit cblock"] by blast
qed

end
