(* ===== verification/InvPeer.thy ===== *)
theory InvPeer
  imports Block "HOL-Library.Product_Lexorder"
begin

text \<open>
  \<^verbatim>\<open>CInvPeer\<close> (\<^verbatim>\<open>src/src/blockchain/schedule.h\<close>): what one peer has announced and what it has been asked
  for. The array \<^verbatim>\<open>invKnown\<close> has one position for transactions and one for blocks; the network layer hands
  the scheduler items of these two types only, so the type of an item is a datatype with two values, and an
  item is a pair compared first by its type (\<^verbatim>\<open>operator<\<close> of \<^verbatim>\<open>network::CInv\<close>). A list of known hashes is
  \<^verbatim>\<open>CUInt256List\<close>, a sequence without repetition. Times are integers; \<open>now\<close> is what \<^verbatim>\<open>GetTime\<close> returns.
\<close>

datatype inv_type = MSG_TX | MSG_BLOCK

instantiation inv_type :: linorder
begin

definition less_inv_type :: "inv_type \<Rightarrow> inv_type \<Rightarrow> bool" where
  "less_inv_type a b = (a = MSG_TX \<and> b = MSG_BLOCK)"

definition less_eq_inv_type :: "inv_type \<Rightarrow> inv_type \<Rightarrow> bool" where
  "less_eq_inv_type a b = (a = MSG_TX \<or> b = MSG_BLOCK)"

instance
proof
  fix x y z :: inv_type
  show "(x < y) = (x \<le> y \<and> \<not> y \<le> x)" by (cases x; cases y; simp add: less_inv_type_def less_eq_inv_type_def)
  show "x \<le> x" by (cases x; simp add: less_eq_inv_type_def)
  show "x \<le> y \<Longrightarrow> y \<le> z \<Longrightarrow> x \<le> z" by (cases x; cases y; cases z; simp add: less_eq_inv_type_def)
  show "x \<le> y \<Longrightarrow> y \<le> x \<Longrightarrow> x = y" by (cases x; cases y; simp add: less_eq_inv_type_def)
  show "x \<le> y \<or> y \<le> x" by (cases x; cases y; simp add: less_eq_inv_type_def)
qed

end

type_synonym inv = "inv_type \<times> u256"

text \<open>\<^verbatim>\<open>operator<\<close> of \<^verbatim>\<open>network::CInv\<close>. It is the order of the pairs, which the maps and sets of items use.\<close>

definition CInv_less :: "inv \<Rightarrow> inv \<Rightarrow> bool" where
  "CInv_less a b \<longleftrightarrow> fst a < fst b \<or> (fst a = fst b \<and> snd a < snd b)"

lemma CInv_less_is: "CInv_less a b \<longleftrightarrow> a < b"
  by (cases a; cases b) (auto simp: CInv_less_def less_prod_simp)

record inv_peer_state =
  listKnown :: "u256 list"
  setAssigned :: "u256 list"
  nNextGetBlocksTime :: int
  mapRepeat :: "(u32 \<times> u256 list) list"

record inv_peer =
  invKnownTx :: inv_peer_state
  invKnownBlock :: inv_peer_state
  hashGetBlockLocatorDepth :: u256
  nInvHeight :: int
  hashInvBlock :: u256

definition ips_new :: inv_peer_state where
  "ips_new = \<lparr>listKnown = [], setAssigned = [], nNextGetBlocksTime = 0, mapRepeat = []\<rparr>"

definition ip_new :: inv_peer where
  "ip_new = \<lparr>invKnownTx = ips_new, invKnownBlock = ips_new, hashGetBlockLocatorDepth = 0, nInvHeight = 0, hashInvBlock = 0\<rparr>"

fun invKnown :: "inv_type \<Rightarrow> inv_peer \<Rightarrow> inv_peer_state" where
  "invKnown MSG_TX p = invKnownTx p"
| "invKnown MSG_BLOCK p = invKnownBlock p"

fun set_invKnown :: "inv_type \<Rightarrow> (inv_peer_state \<Rightarrow> inv_peer_state) \<Rightarrow> inv_peer \<Rightarrow> inv_peer" where
  "set_invKnown MSG_TX f p = p\<lparr>invKnownTx := f (invKnownTx p)\<rparr>"
| "set_invKnown MSG_BLOCK f p = p\<lparr>invKnownBlock := f (invKnownBlock p)\<rparr>"

definition ip_GetKnownList :: "inv_type \<Rightarrow> inv_peer \<Rightarrow> u256 list" where
  "ip_GetKnownList t p = listKnown (invKnown t p)"

definition ip_GetAssigned :: "inv_type \<Rightarrow> inv_peer \<Rightarrow> u256 list" where
  "ip_GetAssigned t p = setAssigned (invKnown t p)"

definition ip_Empty :: "inv_type \<Rightarrow> inv_peer \<Rightarrow> bool" where
  "ip_Empty t p = (ip_GetKnownList t p = [])"

definition ip_GetCount :: "inv_type \<Rightarrow> inv_peer \<Rightarrow> nat" where
  "ip_GetCount t p = length (ip_GetKnownList t p)"

definition ip_GetKnownInv :: "inv_peer \<Rightarrow> inv list" where
  "ip_GetKnownInv p = map (Pair MSG_BLOCK) (listKnown (invKnownBlock p)) @ map (Pair MSG_TX) (listKnown (invKnownTx p))"

definition ip_AddNewInv :: "inv \<Rightarrow> inv_peer \<Rightarrow> inv_peer" where
  "ip_AddNewInv i = set_invKnown (fst i) (\<lambda>k. k\<lparr>listKnown := removeAll (snd i) (listKnown k) @ [snd i]\<rparr>)"

text \<open>Dropping a hash from a map of sets, with the entry when it becomes empty.\<close>

definition drop_from :: "'k::linorder \<Rightarrow> 'v \<Rightarrow> ('k \<times> 'v list) list \<Rightarrow> ('k \<times> 'v list) list" where
  "drop_from k v m = (case map_of m k of
       None \<Rightarrow> m
     | Some s \<Rightarrow> if sdel v s = [] then mdel k m else mput k (sdel v s) m)"

definition ip_RemoveInv :: "inv \<Rightarrow> inv_peer \<Rightarrow> inv_peer" where
  "ip_RemoveInv i p =
     (let p1 = set_invKnown (fst i) (\<lambda>k. k\<lparr>listKnown := removeAll (snd i) (listKnown k), setAssigned := sdel (snd i) (setAssigned k)\<rparr>) p
      in if fst i = MSG_BLOCK
         then set_invKnown MSG_BLOCK (\<lambda>k. k\<lparr>mapRepeat := drop_from (GetBlockHeightByHash (snd i)) (snd i) (mapRepeat k)\<rparr>) p1
         else p1)"

definition ip_KnownInvExists :: "inv \<Rightarrow> inv_peer \<Rightarrow> bool" where
  "ip_KnownInvExists i p = (snd i \<in> set (ip_GetKnownList (fst i) p))"

definition ip_Assign :: "inv \<Rightarrow> inv_peer \<Rightarrow> inv_peer" where
  "ip_Assign i = set_invKnown (fst i) (\<lambda>k. k\<lparr>setAssigned := sins (snd i) (setAssigned k)\<rparr>)"

definition ip_Completed :: "inv \<Rightarrow> inv_peer \<Rightarrow> inv_peer" where
  "ip_Completed i = set_invKnown (fst i) (\<lambda>k. k\<lparr>setAssigned := sdel (snd i) (setAssigned k)\<rparr>)"

definition ip_IsAssigned :: "inv_peer \<Rightarrow> bool" where
  "ip_IsAssigned p = (setAssigned (invKnownTx p) \<noteq> [] \<or> setAssigned (invKnownBlock p) \<noteq> [])"

definition ip_GetLocatorInvBlockHash :: "inv_peer \<Rightarrow> u256 \<Rightarrow> int \<times> u256" where
  "ip_GetLocatorInvBlockHash p hashBlock =
     (if nInvHeight p \<le> 0 \<or> hashInvBlock p = 0 then (-1, hashBlock) else (nInvHeight p, hashInvBlock p))"

definition ip_SetLocatorInvBlockHash :: "int \<Rightarrow> u256 \<Rightarrow> u256 \<Rightarrow> inv_peer \<Rightarrow> inv_peer" where
  "ip_SetLocatorInvBlockHash nHeight hashBlock hashNext p =
     (if nHeight \<ge> nInvHeight p then p\<lparr>nInvHeight := nHeight, hashInvBlock := hashBlock\<rparr>
      else if hashNext = 0 \<and> hashInvBlock p = 0 then p\<lparr>nInvHeight := nHeight, hashInvBlock := hashBlock\<rparr>
      else p\<lparr>nInvHeight := nInvHeight p - 1, hashInvBlock := 0\<rparr>)"

definition ip_SetNextGetBlocksTime :: "int \<Rightarrow> int \<Rightarrow> inv_peer \<Rightarrow> inv_peer" where
  "ip_SetNextGetBlocksTime now nWaitTime = set_invKnown MSG_BLOCK (\<lambda>k. k\<lparr>nNextGetBlocksTime := now + nWaitTime\<rparr>)"

definition ip_CheckNextGetBlocksTime :: "int \<Rightarrow> inv_peer \<Rightarrow> bool" where
  "ip_CheckNextGetBlocksTime now p = (now \<ge> nNextGetBlocksTime (invKnownBlock p))"

definition ip_AddRepeatBlock :: "u256 \<Rightarrow> inv_peer \<Rightarrow> nat \<times> inv_peer" where
  "ip_AddRepeatBlock hash p =
     (if ip_KnownInvExists (MSG_BLOCK, hash) p
      then let s = sins hash (case map_of (mapRepeat (invKnownBlock p)) (GetBlockHeightByHash hash) of None \<Rightarrow> [] | Some s \<Rightarrow> s)
           in (length s, set_invKnown MSG_BLOCK (\<lambda>k. k\<lparr>mapRepeat := mput (GetBlockHeightByHash hash) s (mapRepeat k)\<rparr>) p)
      else (0, p))"

section \<open>What a peer knows and owes\<close>

definition knows :: "inv_peer \<Rightarrow> inv set" where
  "knows p = {i. snd i \<in> set (ip_GetKnownList (fst i) p)}"

definition owes :: "inv_peer \<Rightarrow> inv set" where
  "owes p = {i. snd i \<in> set (ip_GetAssigned (fst i) p)}"

lemma invKnown_set [simp]: "invKnown t (set_invKnown t' f p) = (if t = t' then f (invKnown t p) else invKnown t p)"
  by (cases t; cases t') simp_all

lemma invKnown_new [simp]: "invKnown t ip_new = ips_new"
  by (cases t) (simp_all add: ip_new_def)

declare set_invKnown.simps [simp del]

lemma invKnownBlock_eq: "invKnownBlock p = invKnown MSG_BLOCK p" and invKnownTx_eq: "invKnownTx p = invKnown MSG_TX p"
  by simp_all

lemma knows_new [simp]: "knows ip_new = {}" and owes_new [simp]: "owes ip_new = {}"
  by (auto simp: knows_def owes_def ip_GetKnownList_def ip_GetAssigned_def ips_new_def)

lemma knows_ops [simp]:
  "knows (ip_AddNewInv i p) = insert i (knows p)" "knows (ip_RemoveInv i p) = knows p - {i}"
  "knows (ip_Assign i p) = knows p" "knows (ip_Completed i p) = knows p"
  by (auto simp: knows_def ip_AddNewInv_def ip_RemoveInv_def ip_Assign_def ip_Completed_def ip_GetKnownList_def Let_def prod_eq_iff split: if_splits)

lemma owes_ops [simp]:
  "owes (ip_AddNewInv i p) = owes p" "owes (ip_RemoveInv i p) = owes p - {i}"
  "owes (ip_Assign i p) = insert i (owes p)" "owes (ip_Completed i p) = owes p - {i}"
  by (auto simp: owes_def ip_AddNewInv_def ip_RemoveInv_def ip_Assign_def ip_Completed_def ip_GetAssigned_def Let_def prod_eq_iff split: if_splits)

lemma invKnown_locator [simp]:
  "invKnown t (ip_SetLocatorInvBlockHash n hb hn p) = invKnown t p" "invKnown t (p\<lparr>hashGetBlockLocatorDepth := d\<rparr>) = invKnown t p"
  by (cases t; simp add: ip_SetLocatorInvBlockHash_def)+

lemma knows_owes_locator [simp]:
  "knows (ip_SetLocatorInvBlockHash n hb hn p) = knows p" "owes (ip_SetLocatorInvBlockHash n hb hn p) = owes p"
  "knows (p\<lparr>hashGetBlockLocatorDepth := d\<rparr>) = knows p" "owes (p\<lparr>hashGetBlockLocatorDepth := d\<rparr>) = owes p"
  "knows (ip_SetNextGetBlocksTime now w p) = knows p" "owes (ip_SetNextGetBlocksTime now w p) = owes p"
  "knows (snd (ip_AddRepeatBlock h p)) = knows p" "owes (snd (ip_AddRepeatBlock h p)) = owes p"
  by (auto simp: knows_def owes_def ip_GetKnownList_def ip_GetAssigned_def ip_SetNextGetBlocksTime_def ip_AddRepeatBlock_def Let_def split: if_splits)

lemma KnownInvExists_knows: "ip_KnownInvExists i p \<longleftrightarrow> i \<in> knows p"
  by (simp add: ip_KnownInvExists_def knows_def)

lemma set_GetKnownInv [simp]: "set (ip_GetKnownInv p) = knows p"
proof -
  have "(t, h) \<in> set (ip_GetKnownInv p) \<longleftrightarrow> (t, h) \<in> knows p" for t h
    by (cases t) (auto simp: ip_GetKnownInv_def knows_def ip_GetKnownList_def)
  then show ?thesis by auto
qed

lemma IsAssigned_owes: "ip_IsAssigned p \<longleftrightarrow> owes p \<noteq> {}"
proof -
  have "ip_IsAssigned p \<longleftrightarrow> (\<exists>t. setAssigned (invKnown t p) \<noteq> [])"
    by (metis (full_types) ip_IsAssigned_def invKnown.simps inv_type.exhaust)
  also have "\<dots> \<longleftrightarrow> (\<exists>t h. (t, h) \<in> owes p)"
    by (simp add: owes_def ip_GetAssigned_def flip: ex_in_conv set_empty)
  finally have "ip_IsAssigned p \<longleftrightarrow> (\<exists>t h. (t, h) \<in> owes p)" .
  then show ?thesis by auto
qed

text \<open>The representation: no hash is listed twice, and an entry of the repeat map is never empty.\<close>

definition ip_wf :: "inv_peer \<Rightarrow> bool" where
  "ip_wf p \<longleftrightarrow> (\<forall>t. distinct (ip_GetKnownList t p)) \<and> (\<forall>h. map_of (mapRepeat (invKnownBlock p)) h \<noteq> Some [])"

lemma ip_wf_new [simp]: "ip_wf ip_new"
  by (simp add: ip_wf_def ip_GetKnownList_def invKnownBlock_eq ips_new_def del: invKnown.simps)

lemma drop_from_nonempty: "(\<And>h. map_of m h \<noteq> Some []) \<Longrightarrow> map_of (drop_from k v m) h \<noteq> Some []"
  by (auto simp: drop_from_def split: option.splits)

lemma sins_nonempty: "sins x xs \<noteq> []"
  by (metis emptyE insertI1 list.set(1) set_insort_insert)

lemma ip_wf_block: "ip_wf p \<longleftrightarrow> (\<forall>t. distinct (listKnown (invKnown t p))) \<and> (\<forall>h. map_of (mapRepeat (invKnown MSG_BLOCK p)) h \<noteq> Some [])"
  by (simp add: ip_wf_def ip_GetKnownList_def)

lemma ip_wf_ops [simp]:
  assumes "ip_wf p"
  shows "ip_wf (ip_AddNewInv i p)" "ip_wf (ip_RemoveInv i p)" "ip_wf (ip_Assign i p)" "ip_wf (ip_Completed i p)"
    "ip_wf (ip_SetNextGetBlocksTime now n p)" "ip_wf (snd (ip_AddRepeatBlock h p))"
    "ip_wf (ip_SetLocatorInvBlockHash n hb hn p)" "ip_wf (p\<lparr>hashGetBlockLocatorDepth := d\<rparr>)"
  using assms
  by (auto simp: ip_wf_block ip_AddNewInv_def ip_RemoveInv_def ip_Assign_def ip_Completed_def ip_SetNextGetBlocksTime_def
      ip_AddRepeatBlock_def Let_def distinct_removeAll drop_from_nonempty invKnownBlock_eq sins_nonempty simp del: invKnown.simps split: option.splits)

end
