(* ===== verification/Schedule.thy ===== *)
theory Schedule
  imports Orphan InvPeer
begin

text \<open>
  \<^verbatim>\<open>CSchedule\<close> (\<^verbatim>\<open>src/src/blockchain/schedule.{h,cpp}\<close>): which announced block or transaction is fetched from
  which peer, what has been received, and what waits for something else. Every member function is a
  definition with the schedule as its last argument. A reference parameter is an argument and a component
  of the result. \<open>now\<close> is the time \<^verbatim>\<open>GetTime\<close> returns during the call. \<^verbatim>\<open>boost::get\<close> throws when
  the object it is asked for has another type; a function that may reach it returns a sum.
\<close>

datatype sched_error = bad_get

datatype 'p inv_object = Obj_Nil | Obj_Block "'p cblock" | Obj_Tx ctransaction

record 'p inv_state =
  st_nAssigned :: u64
  st_objReceived :: "'p inv_object"
  st_setKnownPeer :: "u64 list"
  st_nRecvInvTime :: int
  st_nRecvObjTime :: int
  st_nClearObjTime :: int
  st_nGetDataCount :: int
  st_fRepeatMintBlock :: bool
  st_fVerifyPoaBlock :: bool
  st_hashRefBlock :: u256

record 'p sched =
  sc_orphanBlock :: orphan
  sc_orphanTx :: orphan
  sc_mapPeer :: "(u64 \<times> inv_peer) list"
  sc_mapState :: "(inv \<times> 'p inv_state) list"
  sc_setMissPrevTxInv :: "inv list"
  sc_mapRecvTxDest :: "(destination \<times> (u64 \<times> u256) list) list"
  sc_mapRefBlock :: "(u256 \<times> (u256 \<times> u256) list) list"
  sc_mapHeightBlock :: "(int \<times> (u256 \<times> int) list) list"
  sc_mapKcPoaBlock :: "(int \<times> 'p cblock) list"

definition st_new :: "'p inv_state" where
  "st_new = \<lparr>st_nAssigned = 0, st_objReceived = Obj_Nil, st_setKnownPeer = [], st_nRecvInvTime = 0, st_nRecvObjTime = 0,
     st_nClearObjTime = 0, st_nGetDataCount = 0, st_fRepeatMintBlock = False, st_fVerifyPoaBlock = False, st_hashRefBlock = 0\<rparr>"

definition sc_new :: "'p sched" where
  "sc_new = \<lparr>sc_orphanBlock = \<lparr>mapOrphanByPrev = []\<rparr>, sc_orphanTx = \<lparr>mapOrphanByPrev = []\<rparr>, sc_mapPeer = [], sc_mapState = [],
     sc_setMissPrevTxInv = [], sc_mapRecvTxDest = [], sc_mapRefBlock = [], sc_mapHeightBlock = [], sc_mapKcPoaBlock = []\<rparr>"

definition st_IsReceived :: "'p inv_state \<Rightarrow> bool" where
  "st_IsReceived st = (case st_objReceived st of Obj_Nil \<Rightarrow> False | _ \<Rightarrow> True)"

definition MAX_INV_COUNT :: nat where "MAX_INV_COUNT = 1024 * 256"
definition MAX_PEER_BLOCK_INV_COUNT :: nat where "MAX_PEER_BLOCK_INV_COUNT = 1024"
definition MAX_PEER_TX_INV_COUNT :: nat where "MAX_PEER_TX_INV_COUNT = 1024 * 256"
definition MAX_REGETDATA_COUNT :: int where "MAX_REGETDATA_COUNT = 10"
definition MAX_INV_WAIT_TIME :: int where "MAX_INV_WAIT_TIME = 3600"
definition MAX_OBJ_WAIT_TIME :: int where "MAX_OBJ_WAIT_TIME = 7200"
definition MAX_REPEAT_BLOCK_TIME :: int where "MAX_REPEAT_BLOCK_TIME = 180"
definition MAX_REPEAT_BLOCK_COUNT :: nat where "MAX_REPEAT_BLOCK_COUNT = 4"
definition CACHE_POW_BLOCK_TYPE_LOCAL :: int where "CACHE_POW_BLOCK_TYPE_LOCAL = 0"
definition CACHE_POW_BLOCK_TYPE_REMOTE :: int where "CACHE_POW_BLOCK_TYPE_REMOTE = 1"

text \<open>\<^verbatim>\<open>mapPeer[n]\<close>: the entry is made when there is none.\<close>

definition peer_at :: "u64 \<Rightarrow> 'p sched \<Rightarrow> inv_peer" where
  "peer_at n s = (case map_of (sc_mapPeer s) n of None \<Rightarrow> ip_new | Some p \<Rightarrow> p)"

definition at_peer :: "u64 \<Rightarrow> (inv_peer \<Rightarrow> inv_peer) \<Rightarrow> 'p sched \<Rightarrow> 'p sched" where
  "at_peer n f s = s\<lparr>sc_mapPeer := mput n (f (peer_at n s)) (sc_mapPeer s)\<rparr>"

abbreviation find_state :: "inv \<Rightarrow> 'p sched \<Rightarrow> 'p inv_state option" where
  "find_state i s \<equiv> map_of (sc_mapState s) i"

definition put_state :: "inv \<Rightarrow> 'p inv_state \<Rightarrow> 'p sched \<Rightarrow> 'p sched" where
  "put_state i st s = s\<lparr>sc_mapState := mput i st (sc_mapState s)\<rparr>"

text \<open>A loop whose body may throw.\<close>

fun each_res :: "('a \<Rightarrow> 's \<Rightarrow> 'e + 's) \<Rightarrow> 'a list \<Rightarrow> 's \<Rightarrow> 'e + 's" where
  "each_res f [] s = Inr s"
| "each_res f (x # xs) s = res_bind (f x s) (each_res f xs)"

section \<open>Looking things up\<close>

definition sc_Exists :: "inv \<Rightarrow> 'p sched \<Rightarrow> bool" where
  "sc_Exists i s = (find_state i s \<noteq> None)"

definition sc_CheckPrevTxInv :: "inv \<Rightarrow> 'p sched \<Rightarrow> bool \<times> 'p sched" where
  "sc_CheckPrevTxInv i s = (case find_state i s of
       Some st \<Rightarrow> (True, if st_IsReceived st then s else s\<lparr>sc_setMissPrevTxInv := sins i (sc_setMissPrevTxInv s)\<rparr>)
     | None \<Rightarrow> (False, s\<lparr>sc_setMissPrevTxInv := sins i (sc_setMissPrevTxInv s)\<rparr>))"

definition sc_GetKnownPeer :: "inv \<Rightarrow> u64 list \<Rightarrow> 'p sched \<Rightarrow> u64 list" where
  "sc_GetKnownPeer i setKnownPeer s = (case find_state i s of Some st \<Rightarrow> st_setKnownPeer st | None \<Rightarrow> setKnownPeer)"

definition sc_GetBlock :: "u256 \<Rightarrow> 'p sched \<Rightarrow> sched_error + ('p cblock \<times> u64) option" where
  "sc_GetBlock hash s = (case find_state (MSG_BLOCK, hash) s of
       Some st \<Rightarrow> (case st_objReceived st of
           Obj_Nil \<Rightarrow> Inr None
         | Obj_Block b \<Rightarrow> Inr (Some (b, st_nAssigned st))
         | Obj_Tx t \<Rightarrow> Inl bad_get)
     | None \<Rightarrow> Inr None)"

definition sc_GetTransaction :: "u256 \<Rightarrow> 'p sched \<Rightarrow> sched_error + (ctransaction \<times> u64) option" where
  "sc_GetTransaction txid s = (case find_state (MSG_TX, txid) s of
       Some st \<Rightarrow> (case st_objReceived st of
           Obj_Nil \<Rightarrow> Inr None
         | Obj_Tx t \<Rightarrow> Inr (Some (t, st_nAssigned st))
         | Obj_Block b \<Rightarrow> Inl bad_get)
     | None \<Rightarrow> Inr None)"

definition sc_GetNextBlock :: "u256 \<Rightarrow> u256 list \<Rightarrow> 'p sched \<Rightarrow> u256 list" where
  "sc_GetNextBlock hash vNext s = or_GetNext hash vNext (sc_orphanBlock s)"

definition sc_GetNextTx :: "destination \<Rightarrow> u64 \<Rightarrow> 'p sched \<Rightarrow> u256" where
  "sc_GetNextTx destFrom nNextTxNonce s = (case map_of (sc_mapRecvTxDest s) destFrom of
       Some m \<Rightarrow> (case map_of m nNextTxNonce of Some h \<Rightarrow> h | None \<Rightarrow> 0)
     | None \<Rightarrow> 0)"

definition sc_AddOrphanBlockPrev :: "u256 \<Rightarrow> u256 \<Rightarrow> 'p sched \<Rightarrow> 'p sched" where
  "sc_AddOrphanBlockPrev hash prev s = s\<lparr>sc_orphanBlock := or_AddNew prev hash (sc_orphanBlock s)\<rparr>"

definition sc_AddOrphanTxPrev :: "u256 \<Rightarrow> u256 \<Rightarrow> 'p sched \<Rightarrow> 'p sched" where
  "sc_AddOrphanTxPrev txid prev s = s\<lparr>sc_orphanTx := or_AddNew prev txid (sc_orphanTx s)\<rparr>"

section \<open>Blocks by height and by referenced block\<close>

text \<open>Dropping a key from a map of maps, with the entry when it becomes empty.\<close>

definition drop_inner :: "'k::linorder \<Rightarrow> 'j \<Rightarrow> ('k \<times> ('j \<times> 'v) list) list \<Rightarrow> ('k \<times> ('j \<times> 'v) list) list" where
  "drop_inner k j m = (case map_of m k of
       None \<Rightarrow> m
     | Some d \<Rightarrow> if mdel j d = [] then mdel k m else mput k (mdel j d) m)"

definition sc_RemoveHeightBlock :: "int \<Rightarrow> u256 \<Rightarrow> 'p sched \<Rightarrow> 'p sched" where
  "sc_RemoveHeightBlock nHeight hash s = (case map_of (sc_mapHeightBlock s) nHeight of
       None \<Rightarrow> s
     | Some v \<Rightarrow>
         (let v' = filter (\<lambda>c. fst c \<noteq> hash) v
          in s\<lparr>sc_mapHeightBlock := if v' = [] then mdel nHeight (sc_mapHeightBlock s) else mput nHeight v' (sc_mapHeightBlock s)\<rparr>))"

definition push_height :: "int \<Rightarrow> u256 \<times> int \<Rightarrow> 'p sched \<Rightarrow> 'p sched" where
  "push_height nHeight c s =
     s\<lparr>sc_mapHeightBlock := mput nHeight ((case map_of (sc_mapHeightBlock s) nHeight of None \<Rightarrow> [] | Some v \<Rightarrow> v) @ [c]) (sc_mapHeightBlock s)\<rparr>"

definition sc_AddRefBlock :: "u256 \<Rightarrow> u256 \<Rightarrow> u256 \<Rightarrow> 'p sched \<Rightarrow> 'p sched" where
  "sc_AddRefBlock hashRefBlock hashFork hashBlock s =
     (if hashRefBlock = 0 then s
      else let md = (case map_of (sc_mapRefBlock s) hashRefBlock of None \<Rightarrow> [] | Some md \<Rightarrow> md);
               s1 = s\<lparr>sc_mapRefBlock := mput hashRefBlock (mput hashBlock hashFork md) (sc_mapRefBlock s)\<rparr>
           in case find_state (MSG_BLOCK, hashBlock) s1 of
                Some st \<Rightarrow> put_state (MSG_BLOCK, hashBlock) (st\<lparr>st_hashRefBlock := hashRefBlock\<rparr>) s1
              | None \<Rightarrow> s1)"

fun drop_everywhere :: "'j \<Rightarrow> ('k \<times> ('j \<times> 'v) list) list \<Rightarrow> ('k \<times> ('j \<times> 'v) list) list" where
  "drop_everywhere j [] = []"
| "drop_everywhere j ((k, d) # m) = (if mdel j d = [] then drop_everywhere j m else (k, mdel j d) # drop_everywhere j m)"

definition sc_RemoveRefBlock :: "u256 \<Rightarrow> 'p sched \<Rightarrow> 'p sched" where
  "sc_RemoveRefBlock hashForkBlock s =
     (let all = s\<lparr>sc_mapRefBlock := drop_everywhere hashForkBlock (sc_mapRefBlock s)\<rparr>
      in case find_state (MSG_BLOCK, hashForkBlock) s of
           Some st \<Rightarrow> if st_hashRefBlock st \<noteq> 0
                      then s\<lparr>sc_mapRefBlock := drop_inner (st_hashRefBlock st) hashForkBlock (sc_mapRefBlock s)\<rparr>
                      else all
         | None \<Rightarrow> all)"

definition sc_GetNextRefBlock :: "u256 \<Rightarrow> (u256 \<times> u256) list \<Rightarrow> 'p sched \<Rightarrow> (u256 \<times> u256) list" where
  "sc_GetNextRefBlock hashRefBlock vNext s = (case map_of (sc_mapRefBlock s) hashRefBlock of
       None \<Rightarrow> vNext
     | Some md \<Rightarrow> vNext @ map (\<lambda>vd. (snd vd, fst vd)) md)"

section \<open>Announcing, receiving, removing\<close>

definition sc_RemoveOrphan :: "inv \<Rightarrow> 'p sched \<Rightarrow> 'p sched" where
  "sc_RemoveOrphan i s = (case fst i of
       MSG_TX \<Rightarrow> s\<lparr>sc_orphanTx := or_Remove (snd i) (sc_orphanTx s)\<rparr>
     | MSG_BLOCK \<Rightarrow> s\<lparr>sc_orphanBlock := or_Remove (snd i) (sc_orphanBlock s)\<rparr>)"

definition sc_RemoveInvState :: "inv \<Rightarrow> 'p sched \<Rightarrow> sched_error + 'p sched" where
  "sc_RemoveInvState i s =
     (let s1 = sc_RemoveOrphan i s
      in res_bind
        (case fst i of
           MSG_TX \<Rightarrow>
             (let s2 = s1\<lparr>sc_setMissPrevTxInv := sdel i (sc_setMissPrevTxInv s1)\<rparr>
              in res_bind (sc_GetTransaction (snd i) s2) (\<lambda>ptx. Inr (case ptx of
                   None \<Rightarrow> s2
                 | Some (tx, nNonceSender) \<Rightarrow>
                     s2\<lparr>sc_mapRecvTxDest := drop_inner (tx_destFrom tx) (tx_nTxNonce tx) (sc_mapRecvTxDest s2)\<rparr>)))
         | MSG_BLOCK \<Rightarrow>
             Inr (sc_RemoveRefBlock (snd i) (sc_RemoveHeightBlock (sint (GetBlockHeightByHash (snd i))) (snd i) s1)))
        (\<lambda>s3. Inr (s3\<lparr>sc_mapState := mdel i (sc_mapState s3)\<rparr>)))"

definition sc_RemoveInv :: "inv \<Rightarrow> u64 list \<Rightarrow> 'p sched \<Rightarrow> sched_error + bool \<times> u64 list \<times> 'p sched" where
  "sc_RemoveInv i setKnownPeer s = (case find_state i s of
       None \<Rightarrow> Inr (False, setKnownPeer, s)
     | Some st \<Rightarrow>
         res_bind (sc_RemoveInvState i (fold (\<lambda>n. at_peer n (ip_RemoveInv i)) (st_setKnownPeer st) s))
           (\<lambda>s'. Inr (True, sins_all (st_setKnownPeer st) setKnownPeer, s')))"

definition remove_peer_inv :: "u64 \<Rightarrow> inv \<Rightarrow> u64 list \<times> 'p sched \<Rightarrow> sched_error + u64 list \<times> 'p sched" where
  "remove_peer_inv n i acc = (case find_state i (snd acc) of
       None \<Rightarrow> Inr acc
     | Some st \<Rightarrow>
         (let known = sdel n (st_setKnownPeer st);
              s1 = put_state i (st\<lparr>st_setKnownPeer := known\<rparr>) (snd acc)
          in if known = [] then res_bind (sc_RemoveInvState i s1) (\<lambda>s'. Inr (fst acc, s'))
             else if st_nAssigned st = n
             then Inr (sins_all known (fst acc),
                    put_state i (st\<lparr>st_setKnownPeer := known, st_nAssigned := 0, st_objReceived := Obj_Nil\<rparr>) (snd acc))
             else Inr (fst acc, s1)))"

definition sc_RemovePeer :: "u64 \<Rightarrow> u64 list \<Rightarrow> 'p sched \<Rightarrow> sched_error + u64 list \<times> 'p sched" where
  "sc_RemovePeer n setSchedPeer s = (case map_of (sc_mapPeer s) n of
       None \<Rightarrow> Inr (setSchedPeer, s)
     | Some p \<Rightarrow>
         res_bind (each_res (remove_peer_inv n) (ip_GetKnownInv p) (setSchedPeer, s))
           (\<lambda>acc. Inr (fst acc, (snd acc)\<lparr>sc_mapPeer := mdel n (sc_mapPeer (snd acc))\<rparr>)))"

fun peer_limit :: "inv_type \<Rightarrow> nat" where
  "peer_limit MSG_TX = MAX_PEER_TX_INV_COUNT"
| "peer_limit MSG_BLOCK = MAX_PEER_BLOCK_INV_COUNT"

definition sc_CheckAddInvIdleLocation :: "u64 \<Rightarrow> inv_type \<Rightarrow> 'p sched \<Rightarrow> bool \<times> 'p sched" where
  "sc_CheckAddInvIdleLocation n t s =
     (if length (sc_mapState s) < MAX_INV_COUNT
      then (ip_GetCount t (peer_at n s) < peer_limit t, at_peer n id s)
      else (False, s))"

definition sc_AddNewInv :: "int \<Rightarrow> inv \<Rightarrow> u64 \<Rightarrow> 'p sched \<Rightarrow> bool \<times> 'p sched" where
  "sc_AddNewInv now i n s =
     (let (idle, s1) = sc_CheckAddInvIdleLocation n (fst i) s
      in if idle
         then let st = (case find_state i s1 of None \<Rightarrow> st_new | Some st \<Rightarrow> st);
                  st1 = st\<lparr>st_setKnownPeer := sins n (st_setKnownPeer st),
                           st_nRecvInvTime := if st_nRecvInvTime st = 0 then now else st_nRecvInvTime st\<rparr>
              in (True, at_peer n (ip_AddNewInv i) (put_state i st1 s1))
         else (False, s1))"

text \<open>The object arrives: the part \<^verbatim>\<open>ReceiveBlock\<close> and \<^verbatim>\<open>ReceiveTx\<close> share.\<close>

definition receive_obj :: "int \<Rightarrow> u64 \<Rightarrow> inv \<Rightarrow> 'p inv_object \<Rightarrow> 'p inv_state \<Rightarrow> 'p sched \<Rightarrow> 'p sched" where
  "receive_obj now n i ob st s =
     at_peer n (ip_Completed i) (put_state i
       (st\<lparr>st_objReceived := ob, st_nRecvObjTime := now, st_nClearObjTime := now + MAX_OBJ_WAIT_TIME\<rparr>) s)"

definition sc_ReceiveBlock :: "int \<Rightarrow> u64 \<Rightarrow> u256 \<Rightarrow> 'p cblock \<Rightarrow> u64 list \<Rightarrow> 'p sched \<Rightarrow> bool \<times> u64 list \<times> 'p sched" where
  "sc_ReceiveBlock now n hash block setSchedPeer s = (case find_state (MSG_BLOCK, hash) s of
       None \<Rightarrow> (False, setSchedPeer, s)
     | Some st \<Rightarrow>
         if st_nAssigned st = n \<and> \<not> st_IsReceived st
         then let s1 = receive_obj now n (MSG_BLOCK, hash) (Obj_Block block) st s
              in (True, sins_all (st_setKnownPeer st) setSchedPeer,
                  if bk_IsPrimary block \<and> bk_IsProofOfPoa block
                  then push_height (sint (bk_nHeight block)) (hash, CACHE_POW_BLOCK_TYPE_REMOTE) s1 else s1)
         else (False, setSchedPeer, s))"

definition sc_ReceiveTx :: "int \<Rightarrow> u64 \<Rightarrow> u256 \<Rightarrow> ctransaction \<Rightarrow> u64 list \<Rightarrow> 'p sched \<Rightarrow> bool \<times> u64 list \<times> 'p sched" where
  "sc_ReceiveTx now n txid tx setSchedPeer s = (case find_state (MSG_TX, txid) s of
       None \<Rightarrow> (False, setSchedPeer, s)
     | Some st \<Rightarrow>
         if st_nAssigned st = n \<and> \<not> st_IsReceived st
         then let s1 = receive_obj now n (MSG_TX, txid) (Obj_Tx tx) st s;
                  m = (case map_of (sc_mapRecvTxDest s1) (tx_destFrom tx) of None \<Rightarrow> [] | Some m \<Rightarrow> m)
              in (True, sins_all (st_setKnownPeer st) setSchedPeer,
                  s1\<lparr>sc_setMissPrevTxInv := sdel (MSG_TX, txid) (sc_setMissPrevTxInv s1),
                     sc_mapRecvTxDest := mput (tx_destFrom tx) (mput (tx_nTxNonce tx) txid m) (sc_mapRecvTxDest s1)\<rparr>)
         else (False, setSchedPeer, s))"

definition remove_inv_acc :: "inv \<Rightarrow> u64 list \<times> 'p sched \<Rightarrow> sched_error + u64 list \<times> 'p sched" where
  "remove_inv_acc i acc = res_bind (sc_RemoveInv i (fst acc) (snd acc)) (\<lambda>(ret, ks, s). Inr (ks, s))"

definition sc_InvalidateBlock :: "u256 \<Rightarrow> u64 list \<Rightarrow> 'p sched \<Rightarrow> sched_error + u64 list \<times> 'p sched" where
  "sc_InvalidateBlock hash setMisbehavePeer s =
     (let (vInvalid, w) = or_RemoveBranch hash (sc_orphanBlock s)
      in res_bind (each_res remove_inv_acc (map (Pair MSG_BLOCK) vInvalid) (setMisbehavePeer, s\<lparr>sc_orphanBlock := w\<rparr>))
           (remove_inv_acc (MSG_BLOCK, hash)))"

definition sc_InvalidateTx :: "u256 \<Rightarrow> u64 list \<Rightarrow> 'p sched \<Rightarrow> sched_error + u64 list \<times> 'p sched" where
  "sc_InvalidateTx txid setMisbehavePeer s =
     (let (vInvalid, w) = or_RemoveBranch txid (sc_orphanTx s)
      in res_bind (each_res remove_inv_acc (map (Pair MSG_TX) vInvalid) (setMisbehavePeer, s\<lparr>sc_orphanTx := w\<rparr>))
           (remove_inv_acc (MSG_TX, txid)))"

definition sc_CancelAssignedInv :: "u64 \<Rightarrow> inv \<Rightarrow> 'p sched \<Rightarrow> sched_error + bool \<times> 'p sched" where
  "sc_CancelAssignedInv n i s = (case find_state i s of
       None \<Rightarrow> Inr (False, s)
     | Some st \<Rightarrow>
         if st_nAssigned st \<noteq> n then Inr (False, s)
         else if st_IsReceived st then Inr (True, s)
         else let known = sdel n (st_setKnownPeer st);
                  s1 = put_state i (st\<lparr>st_nAssigned := 0, st_setKnownPeer := known\<rparr>) s
              in res_bind (if known = [] then sc_RemoveInvState i s1 else Inr s1)
                   (\<lambda>s2. Inr (True, case map_of (sc_mapPeer s2) n of None \<Rightarrow> s2 | Some p \<Rightarrow> at_peer n (ip_RemoveInv i) s2)))"

section \<open>Choosing what to fetch\<close>

definition inv_timeout :: "int \<Rightarrow> 'p inv_state \<Rightarrow> bool" where
  "inv_timeout now st =
     (st_nGetDataCount st \<ge> MAX_REGETDATA_COUNT
      \<or> (st_nGetDataCount st \<ge> 1 \<and> now - st_nRecvInvTime st \<ge> MAX_INV_WAIT_TIME)
      \<or> now - st_nRecvInvTime st \<ge> MAX_INV_WAIT_TIME * 12)"

definition assign_inv :: "u64 \<Rightarrow> inv \<Rightarrow> 'p inv_state \<Rightarrow> 'p sched \<Rightarrow> 'p sched" where
  "assign_inv n i st s =
     at_peer n (ip_Assign i) (put_state i (st\<lparr>st_nAssigned := n, st_nGetDataCount := st_nGetDataCount st + 1\<rparr>) s)"

text \<open>The two loops of \<^verbatim>\<open>ScheduleKnownInv\<close>. The peer is the entry \<open>n\<close> of the peer map. \<open>vInv\<close>, \<open>rm\<close>
  (\<^verbatim>\<open>setRemoveInv\<close>), \<open>rmPeer\<close> (\<^verbatim>\<open>setRemovePeerInv\<close>) and \<open>nReceived\<close> are the variables the loops change.\<close>

fun miss_loop :: "int \<Rightarrow> u64 \<Rightarrow> nat \<Rightarrow> inv list \<Rightarrow> inv list \<times> inv list \<times> 'p sched \<Rightarrow> inv list \<times> inv list \<times> 'p sched" where
  "miss_loop now n nMaxCount [] acc = acc"
| "miss_loop now n nMaxCount (i # l) (vInv, rm, s) = (case find_state i s of
       None \<Rightarrow> miss_loop now n nMaxCount l (vInv, rm, s\<lparr>sc_setMissPrevTxInv := sdel i (sc_setMissPrevTxInv s)\<rparr>)
     | Some st \<Rightarrow>
         if st_nAssigned st = 0 \<and> ip_KnownInvExists i (peer_at n s)
         then if inv_timeout now st then miss_loop now n nMaxCount l (vInv, sins i rm, s)
              else if length (vInv @ [i]) \<ge> nMaxCount then (vInv @ [i], rm, assign_inv n i st s)
              else miss_loop now n nMaxCount l (vInv @ [i], rm, assign_inv n i st s)
         else miss_loop now n nMaxCount l (vInv, rm, s))"

fun known_loop :: "int \<Rightarrow> u64 \<Rightarrow> inv_type \<Rightarrow> nat \<Rightarrow> u256 list \<Rightarrow> inv list \<times> inv list \<times> inv list \<times> nat \<times> 'p sched
    \<Rightarrow> inv list \<times> inv list \<times> inv list \<times> nat \<times> 'p sched" where
  "known_loop now n t nMaxCount [] acc = acc"
| "known_loop now n t nMaxCount (h # l) (vInv, rm, rmPeer, nReceived, s) = (case find_state (t, h) s of
       None \<Rightarrow> known_loop now n t nMaxCount l (vInv, rm, sins (t, h) rmPeer, nReceived, s)
     | Some st \<Rightarrow>
         if st_nAssigned st = 0
         then if inv_timeout now st then known_loop now n t nMaxCount l (vInv, sins (t, h) rm, rmPeer, nReceived, s)
              else if length (vInv @ [(t, h)]) \<ge> nMaxCount
              then (vInv @ [(t, h)], rm, rmPeer, nReceived, assign_inv n (t, h) st s)
              else known_loop now n t nMaxCount l (vInv @ [(t, h)], rm, rmPeer, nReceived, assign_inv n (t, h) st s)
         else if st_IsReceived st
         then if now \<ge> st_nClearObjTime st then known_loop now n t nMaxCount l (vInv, sins (t, h) rm, rmPeer, nReceived, s)
              else known_loop now n t nMaxCount l (vInv, rm, rmPeer, Suc nReceived, s)
         else known_loop now n t nMaxCount l (vInv, rm, rmPeer, nReceived, s))"

definition remove_inv_quiet :: "inv \<Rightarrow> 'p sched \<Rightarrow> sched_error + 'p sched" where
  "remove_inv_quiet i s = res_bind (sc_RemoveInv i [] s) (\<lambda>(ret, ks, s'). Inr s')"

text \<open>The result is the returned value, \<open>vInv\<close>, \<open>fReceivedAll\<close> and the schedule.\<close>

definition sc_ScheduleKnownInv :: "int \<Rightarrow> u64 \<Rightarrow> inv_type \<Rightarrow> nat \<Rightarrow> 'p sched \<Rightarrow> sched_error + bool \<times> inv list \<times> bool \<times> 'p sched" where
  "sc_ScheduleKnownInv now n t nMaxCount s =
     (let (v1, rm1, s1) = (if t = MSG_TX \<and> sc_setMissPrevTxInv s \<noteq> []
                           then miss_loop now n nMaxCount (sc_setMissPrevTxInv s) ([], [], s) else ([], [], s));
          (v2, rm2, rmPeer, nReceived, s2) =
            (if length v1 < nMaxCount
             then known_loop now n t nMaxCount (ip_GetKnownList t (peer_at n s1)) (v1, rm1, [], 0, s1)
             else (v1, rm1, [], 0, s1))
      in res_bind (each_res remove_inv_quiet rm2 s2) (\<lambda>s3.
           let s4 = fold (\<lambda>i. at_peer n (ip_RemoveInv i)) rmPeer s3;
               known = ip_GetKnownList t (peer_at n s4)
           in Inr (v2 \<noteq> [] \<or> known = [], v2, nReceived = length known \<and> nReceived \<noteq> 0, s4)))"

text \<open>The result is the returned value, \<open>vInv\<close>, \<open>fMissingPrev\<close>, \<open>fEmpty\<close> and the schedule.\<close>

definition sc_ScheduleBlockInv ::
    "int \<Rightarrow> u64 \<Rightarrow> inv list \<Rightarrow> nat \<Rightarrow> 'p sched \<Rightarrow> sched_error + bool \<times> inv list \<times> bool \<times> bool \<times> 'p sched" where
  "sc_ScheduleBlockInv now n vInv nMaxCount s = (case map_of (sc_mapPeer s) n of
       None \<Rightarrow> Inr (True, vInv, False, True, s)
     | Some p \<Rightarrow>
         (let fEmpty = ip_Empty MSG_BLOCK p
          in if ip_IsAssigned p then Inr (True, vInv, False, fEmpty, s)
             else res_bind (sc_ScheduleKnownInv now n MSG_BLOCK nMaxCount s) (\<lambda>(ret, v, fReceivedAll, s1).
               if \<not> ret
               then if fReceivedAll \<and> ip_CheckNextGetBlocksTime now (peer_at n s1)
                    then let (idle, s2) = sc_CheckAddInvIdleLocation n MSG_BLOCK s1
                         in Inr (\<not> fReceivedAll \<or> ip_GetCount MSG_BLOCK (peer_at n s2) < MAX_PEER_BLOCK_INV_COUNT, v, idle, fEmpty, s2)
                    else Inr (\<not> fReceivedAll \<or> ip_GetCount MSG_BLOCK (peer_at n s1) < MAX_PEER_BLOCK_INV_COUNT, v, False, fEmpty, s1)
               else Inr (True, v, fEmpty \<and> ip_CheckNextGetBlocksTime now (peer_at n s1), fEmpty, s1))))"

text \<open>The result is the returned value, \<open>vInv\<close>, \<open>fReceivedAll\<close> and the schedule.\<close>

definition sc_ScheduleTxInv ::
    "int \<Rightarrow> u64 \<Rightarrow> inv list \<Rightarrow> nat \<Rightarrow> bool \<Rightarrow> 'p sched \<Rightarrow> sched_error + bool \<times> inv list \<times> bool \<times> 'p sched" where
  "sc_ScheduleTxInv now n vInv nMaxCount fReceivedAll s = (case map_of (sc_mapPeer s) n of
       None \<Rightarrow> Inr (True, vInv, fReceivedAll, s)
     | Some p \<Rightarrow>
         if ip_IsAssigned p then Inr (True, vInv, fReceivedAll, s)
         else res_bind (sc_ScheduleKnownInv now n MSG_TX nMaxCount s) (\<lambda>(ret, v, fAll, s1).
           if \<not> ret then Inr (\<not> fAll \<or> ip_GetCount MSG_TX (peer_at n s1) < MAX_PEER_TX_INV_COUNT, v, fAll, s1)
           else Inr (True, v, fAll \<or> ip_Empty MSG_TX (peer_at n s1), s1)))"

section \<open>Per-peer settings\<close>

definition sc_GetLocatorDepthHash :: "u64 \<Rightarrow> u256 \<Rightarrow> 'p sched \<Rightarrow> bool \<times> u256" where
  "sc_GetLocatorDepthHash n hashDepth s = (case map_of (sc_mapPeer s) n of
       Some p \<Rightarrow> (True, hashGetBlockLocatorDepth p) | None \<Rightarrow> (False, hashDepth))"

definition sc_SetLocatorDepthHash :: "u64 \<Rightarrow> u256 \<Rightarrow> 'p sched \<Rightarrow> 'p sched" where
  "sc_SetLocatorDepthHash n hashDepth = at_peer n (\<lambda>p. p\<lparr>hashGetBlockLocatorDepth := hashDepth\<rparr>)"

definition sc_GetLocatorInvBlockHash :: "u64 \<Rightarrow> u256 \<Rightarrow> 'p sched \<Rightarrow> int \<times> u256" where
  "sc_GetLocatorInvBlockHash n hashBlock s = (case map_of (sc_mapPeer s) n of
       Some p \<Rightarrow> ip_GetLocatorInvBlockHash p hashBlock | None \<Rightarrow> (-1, hashBlock))"

definition sc_SetLocatorInvBlockHash :: "u64 \<Rightarrow> int \<Rightarrow> u256 \<Rightarrow> u256 \<Rightarrow> 'p sched \<Rightarrow> 'p sched" where
  "sc_SetLocatorInvBlockHash n nHeight hashBlock hashNext = at_peer n (ip_SetLocatorInvBlockHash nHeight hashBlock hashNext)"

definition sc_SetNextGetBlocksTime :: "int \<Rightarrow> u64 \<Rightarrow> int \<Rightarrow> 'p sched \<Rightarrow> 'p sched" where
  "sc_SetNextGetBlocksTime now n nWaitTime = at_peer n (ip_SetNextGetBlocksTime now nWaitTime)"

definition sc_SetRepeatBlock :: "int \<Rightarrow> u64 \<Rightarrow> u256 \<Rightarrow> 'p sched \<Rightarrow> bool \<times> 'p sched" where
  "sc_SetRepeatBlock now n hash s =
     (let s1 = (case find_state (MSG_BLOCK, hash) s of
            None \<Rightarrow> s
          | Some st \<Rightarrow> put_state (MSG_BLOCK, hash) (st\<lparr>st_fRepeatMintBlock := True, st_nClearObjTime := now + MAX_REPEAT_BLOCK_TIME\<rparr>) s)
      in (\<not> fst (ip_AddRepeatBlock hash (peer_at n s1)) \<ge> MAX_REPEAT_BLOCK_COUNT,
          at_peer n (\<lambda>p. snd (ip_AddRepeatBlock hash p)) s1))"

definition sc_IsRepeatBlock :: "u256 \<Rightarrow> 'p sched \<Rightarrow> bool" where
  "sc_IsRepeatBlock hash s = (case find_state (MSG_BLOCK, hash) s of
       Some st \<Rightarrow> st_IsReceived st \<and> st_fRepeatMintBlock st | None \<Rightarrow> False)"

definition sc_SetDelayedClear :: "int \<Rightarrow> inv \<Rightarrow> int \<Rightarrow> 'p sched \<Rightarrow> bool \<times> 'p sched" where
  "sc_SetDelayedClear now i nDelayedTime s = (case find_state i s of
       Some st \<Rightarrow> (True, put_state i (st\<lparr>st_nClearObjTime := now + nDelayedTime\<rparr>) s) | None \<Rightarrow> (False, s))"

section \<open>The cache of authority blocks\<close>

record cons_param =
  cp_hashPrev :: u256
  cp_nPrevTime :: int
  cp_nPrevHeight :: int
  cp_nPrevNumber :: u32
  cp_nPrevMintType :: u16
  cp_nWaitTime :: int
  cp_fPoa :: bool
  cp_ret :: bool

text \<open>\<open>tmo\<close> is \<^verbatim>\<open>MAX_SUBMIT_POW_TIMEOUT\<close>, which depends on the network.\<close>

definition submit_height :: "int \<Rightarrow> cons_param \<Rightarrow> int \<Rightarrow> bool" where
  "submit_height tmo c h =
     (if h \<le> cp_nPrevHeight c then True
      else if h = cp_nPrevHeight c + 1 then cp_ret c \<and> (cp_fPoa c \<or> (cp_nWaitTime c < 0 \<and> \<bar>cp_nWaitTime c\<bar> > tmo))
      else cp_nWaitTime c < 0 \<and> \<bar>cp_nWaitTime c\<bar> > tmo * 7)"

definition sc_GetSubmitCachePoaBlock :: "int \<Rightarrow> cons_param \<Rightarrow> (u256 \<times> int) list \<Rightarrow> 'p sched \<Rightarrow> (u256 \<times> int) list" where
  "sc_GetSubmitCachePoaBlock tmo c v s =
     fold (\<lambda>(h, l) v. if submit_height tmo c h then v @ l else v) (sc_mapHeightBlock s) v"

definition sc_GetFirstCachePoaBlock :: "int \<Rightarrow> 'p sched \<Rightarrow> u256 option" where
  "sc_GetFirstCachePoaBlock nHeight s = (case map_of (sc_mapHeightBlock s) nHeight of
       Some (c # l) \<Rightarrow> Some (fst c) | _ \<Rightarrow> None)"

text \<open>The loop that drops the local blocks at least 32 heights back, from the front of the map. \<open>H\<close> is the
  hash function of the block hash.\<close>

fun kc_loop :: "(bytes \<Rightarrow> u256) \<Rightarrow> int \<Rightarrow> (int \<times> 'p cblock) list \<Rightarrow> 'p sched \<Rightarrow> 'p sched" where
  "kc_loop H nHeight [] s = s"
| "kc_loop H nHeight ((h, b) # l) s =
     (if h > nHeight - 32 then s
      else kc_loop H nHeight l ((sc_RemoveHeightBlock h (bk_GetHash H b) s)\<lparr>sc_mapKcPoaBlock := l\<rparr>))"

text \<open>The result is the returned value, \<open>fFirst\<close> and the schedule.\<close>

definition sc_AddCacheLocalPoaBlock :: "(bytes \<Rightarrow> u256) \<Rightarrow> 'p cblock \<Rightarrow> bool \<Rightarrow> 'p sched \<Rightarrow> bool \<times> bool \<times> 'p sched" where
  "sc_AddCacheLocalPoaBlock H block fFirst s =
     (let nHeight = sint (bk_nHeight block);
          s1 = kc_loop H nHeight (sc_mapKcPoaBlock s) s
      in case map_of (sc_mapKcPoaBlock s1) nHeight of
           None \<Rightarrow> (True, (case map_of (sc_mapHeightBlock s1) nHeight of None \<Rightarrow> True | Some v \<Rightarrow> v = []),
                    push_height nHeight (bk_GetHash H block, CACHE_POW_BLOCK_TYPE_LOCAL)
                      (s1\<lparr>sc_mapKcPoaBlock := mput nHeight block (sc_mapKcPoaBlock s1)\<rparr>))
         | Some b \<Rightarrow> (False, fFirst, s1))"

definition sc_CheckCacheLocalPoaBlock :: "int \<Rightarrow> 'p sched \<Rightarrow> bool" where
  "sc_CheckCacheLocalPoaBlock nHeight s = (map_of (sc_mapKcPoaBlock s) nHeight \<noteq> None)"

definition sc_GetCacheLocalPoaBlock :: "(bytes \<Rightarrow> u256) \<Rightarrow> u256 \<Rightarrow> 'p sched \<Rightarrow> 'p cblock option" where
  "sc_GetCacheLocalPoaBlock H hash s = (case map_of (sc_mapKcPoaBlock s) (sint (GetBlockHeightByHash hash)) of
       Some b \<Rightarrow> if bk_GetHash H b = hash then Some b else None | None \<Rightarrow> None)"

definition sc_RemoveCacheLocalPoaBlock :: "(bytes \<Rightarrow> u256) \<Rightarrow> u256 \<Rightarrow> 'p sched \<Rightarrow> 'p sched" where
  "sc_RemoveCacheLocalPoaBlock H hash s =
     (let nHeight = sint (GetBlockHeightByHash hash)
      in case map_of (sc_mapKcPoaBlock s) nHeight of
           None \<Rightarrow> s
         | Some b \<Rightarrow>
             if bk_GetHash H b = hash
             then (sc_RemoveHeightBlock nHeight (bk_GetHash H b) s)\<lparr>sc_mapKcPoaBlock := mdel nHeight (sc_mapKcPoaBlock s)\<rparr>
             else s)"

definition sc_GetCachePoaBlock :: "(bytes \<Rightarrow> u256) \<Rightarrow> u256 \<Rightarrow> 'p sched \<Rightarrow> sched_error + 'p cblock option" where
  "sc_GetCachePoaBlock H hash s = (case map_of (sc_mapHeightBlock s) (sint (GetBlockHeightByHash hash)) of
       Some (c # l) \<Rightarrow>
         if snd c = CACHE_POW_BLOCK_TYPE_REMOTE
         then if fst c = hash then res_bind (sc_GetBlock hash s) (\<lambda>r. Inr (map_option fst r)) else Inr None
         else Inr (sc_GetCacheLocalPoaBlock H hash s)
     | _ \<Rightarrow> Inr None)"

fun cached_loop :: "u256 \<Rightarrow> 'p sched \<Rightarrow> (u256 \<times> int) list \<Rightarrow> sched_error + bool" where
  "cached_loop hash s [] = Inr False"
| "cached_loop hash s (vd # l) =
     (if snd vd = CACHE_POW_BLOCK_TYPE_REMOTE
      then if fst vd = hash
           then res_bind (sc_GetBlock hash s) (\<lambda>r. if r \<noteq> None then Inr True else cached_loop hash s l)
           else cached_loop hash s l
      else if fst vd = hash then Inr True
      else cached_loop hash s l)"

definition sc_CheckCachePoaBlockState :: "u256 \<Rightarrow> 'p sched \<Rightarrow> sched_error + bool" where
  "sc_CheckCachePoaBlockState hash s = (case map_of (sc_mapHeightBlock s) (sint (GetBlockHeightByHash hash)) of
       None \<Rightarrow> Inr False | Some v \<Rightarrow> cached_loop hash s v)"

definition sc_GetPoaBlockState :: "u256 \<Rightarrow> 'p sched \<Rightarrow> bool option" where
  "sc_GetPoaBlockState hash s = (case find_state (MSG_BLOCK, hash) s of
       Some st \<Rightarrow> if st_IsReceived st then Some (st_fVerifyPoaBlock st) else None | None \<Rightarrow> None)"

definition sc_SetPoaBlockVerifyState :: "u256 \<Rightarrow> bool \<Rightarrow> 'p sched \<Rightarrow> 'p sched" where
  "sc_SetPoaBlockVerifyState hash fVerify s = (case find_state (MSG_BLOCK, hash) s of
       Some st \<Rightarrow> if st_IsReceived st then put_state (MSG_BLOCK, hash) (st\<lparr>st_fVerifyPoaBlock := fVerify\<rparr>) s else s
     | None \<Rightarrow> s)"

end
