(* ===== verification/Schedule_Inv.thy ===== *)
theory Schedule_Inv
  imports Schedule
begin

text \<open>
  The invariant of the scheduler and its preservation by every member function. It ties the two sides of
  the bookkeeping together: what a peer knows and owes (\<open>knows\<close>, \<open>owes\<close> of its entry) and what the state of an
  item says about its peers. The operations are described by what they do to this view.
\<close>

section \<open>Updates\<close>

lemma peer_at_simps [simp]:
  "peer_at m (at_peer n f s) = (if m = n then f (peer_at n s) else peer_at m s)"
  "peer_at m (put_state i st s) = peer_at m s"
  "peer_at m (s\<lparr>sc_mapState := x1\<rparr>) = peer_at m s" "peer_at m (s\<lparr>sc_orphanBlock := x2\<rparr>) = peer_at m s"
  "peer_at m (s\<lparr>sc_orphanTx := x3\<rparr>) = peer_at m s" "peer_at m (s\<lparr>sc_setMissPrevTxInv := x4\<rparr>) = peer_at m s"
  "peer_at m (s\<lparr>sc_mapRecvTxDest := x5\<rparr>) = peer_at m s" "peer_at m (s\<lparr>sc_mapRefBlock := x6\<rparr>) = peer_at m s"
  "peer_at m (s\<lparr>sc_mapHeightBlock := x7\<rparr>) = peer_at m s" "peer_at m (s\<lparr>sc_mapKcPoaBlock := x8\<rparr>) = peer_at m s"
  by (simp_all add: peer_at_def at_peer_def put_state_def)

lemma at_peer_fields [simp]:
  "sc_mapState (at_peer n f s) = sc_mapState s" "sc_setMissPrevTxInv (at_peer n f s) = sc_setMissPrevTxInv s"
  "sc_orphanBlock (at_peer n f s) = sc_orphanBlock s" "sc_orphanTx (at_peer n f s) = sc_orphanTx s"
  "sc_mapRecvTxDest (at_peer n f s) = sc_mapRecvTxDest s" "sc_mapRefBlock (at_peer n f s) = sc_mapRefBlock s"
  "sc_mapHeightBlock (at_peer n f s) = sc_mapHeightBlock s" "sc_mapKcPoaBlock (at_peer n f s) = sc_mapKcPoaBlock s"
  by (simp_all add: at_peer_def)

lemma put_state_fields [simp]:
  "sc_mapState (put_state i st s) = mput i st (sc_mapState s)" "sc_setMissPrevTxInv (put_state i st s) = sc_setMissPrevTxInv s"
  "sc_orphanBlock (put_state i st s) = sc_orphanBlock s" "sc_orphanTx (put_state i st s) = sc_orphanTx s"
  "sc_mapRecvTxDest (put_state i st s) = sc_mapRecvTxDest s" "sc_mapRefBlock (put_state i st s) = sc_mapRefBlock s"
  "sc_mapHeightBlock (put_state i st s) = sc_mapHeightBlock s" "sc_mapKcPoaBlock (put_state i st s) = sc_mapKcPoaBlock s"
  "sc_mapPeer (put_state i st s) = sc_mapPeer s"
  by (simp_all add: put_state_def)

lemma fold_at_peer_fields [simp]:
  "sc_mapState (fold (\<lambda>n. at_peer n f) ns s) = sc_mapState s"
  "sc_setMissPrevTxInv (fold (\<lambda>n. at_peer n f) ns s) = sc_setMissPrevTxInv s"
  "sc_orphanBlock (fold (\<lambda>n. at_peer n f) ns s) = sc_orphanBlock s" "sc_orphanTx (fold (\<lambda>n. at_peer n f) ns s) = sc_orphanTx s"
  "sc_mapRecvTxDest (fold (\<lambda>n. at_peer n f) ns s) = sc_mapRecvTxDest s"
  "sc_mapRefBlock (fold (\<lambda>n. at_peer n f) ns s) = sc_mapRefBlock s"
  "sc_mapHeightBlock (fold (\<lambda>n. at_peer n f) ns s) = sc_mapHeightBlock s"
  by (induction ns arbitrary: s) simp_all

text \<open>What the limits say of one peer.\<close>

definition ip_ok :: "inv_peer \<Rightarrow> bool" where
  "ip_ok p \<longleftrightarrow> ip_wf p \<and> (\<forall>t. ip_GetCount t p \<le> peer_limit t)"

lemma count_ops [simp]:
  "ip_GetCount t (ip_Assign i p) = ip_GetCount t p" "ip_GetCount t (ip_Completed i p) = ip_GetCount t p"
  "ip_GetCount t (ip_SetNextGetBlocksTime now w p) = ip_GetCount t p" "ip_GetCount t (snd (ip_AddRepeatBlock h p)) = ip_GetCount t p"
  "ip_GetCount t (ip_SetLocatorInvBlockHash k hb hn p) = ip_GetCount t p"
  "ip_GetCount t (p\<lparr>hashGetBlockLocatorDepth := d\<rparr>) = ip_GetCount t p"
  by (simp_all add: ip_GetCount_def ip_GetKnownList_def ip_Assign_def ip_Completed_def ip_SetNextGetBlocksTime_def ip_AddRepeatBlock_def Let_def)

lemma count_RemoveInv: "ip_GetCount t (ip_RemoveInv i p) \<le> ip_GetCount t p"
  by (auto simp: ip_GetCount_def ip_GetKnownList_def ip_RemoveInv_def Let_def removeAll_filter_not_eq)

lemma count_AddNewInv: "ip_GetCount t (ip_AddNewInv i p) \<le> (if t = fst i then Suc (ip_GetCount t p) else ip_GetCount t p)"
  by (auto simp: ip_GetCount_def ip_GetKnownList_def ip_AddNewInv_def removeAll_filter_not_eq)

lemma ip_ok_new [simp]: "ip_ok ip_new"
  by (simp add: ip_ok_def ip_GetCount_def ip_GetKnownList_def ips_new_def)

lemma ip_ok_ops [simp]:
  assumes "ip_ok p"
  shows "ip_ok (ip_RemoveInv i p)" "ip_ok (ip_Assign i p)" "ip_ok (ip_Completed i p)" "ip_ok (ip_SetNextGetBlocksTime now w p)"
    "ip_ok (snd (ip_AddRepeatBlock h p))" "ip_ok (ip_SetLocatorInvBlockHash k hb hn p)" "ip_ok (p\<lparr>hashGetBlockLocatorDepth := d\<rparr>)"
  using assms by (auto simp: ip_ok_def intro: order_trans[OF count_RemoveInv])

lemma ip_ok_AddNewInv: "ip_ok p \<Longrightarrow> ip_GetCount (fst i) p < peer_limit (fst i) \<Longrightarrow> ip_ok (ip_AddNewInv i p)"
proof -
  assume p: "ip_ok p" "ip_GetCount (fst i) p < peer_limit (fst i)"
  have "ip_GetCount t (ip_AddNewInv i p) \<le> peer_limit t" for t
    by (rule order_trans[OF count_AddNewInv]) (use p in \<open>auto simp: ip_ok_def\<close>)
  then show ?thesis using p by (simp add: ip_ok_def)
qed

lemma knows_fold: "knows (peer_at m (fold (\<lambda>n. at_peer n (ip_RemoveInv i)) ns s)) = (if m \<in> set ns then knows (peer_at m s) - {i} else knows (peer_at m s))"
  and owes_fold: "owes (peer_at m (fold (\<lambda>n. at_peer n (ip_RemoveInv i)) ns s)) = (if m \<in> set ns then owes (peer_at m s) - {i} else owes (peer_at m s))"
  by (induction ns arbitrary: s) auto

lemma ip_ok_fold: "(\<And>m. ip_ok (peer_at m s)) \<Longrightarrow> ip_ok (peer_at m (fold (\<lambda>n. at_peer n (ip_RemoveInv i)) ns s))"
  by (induction ns arbitrary: s) simp_all

section \<open>The invariant\<close>

text \<open>One state: some peer knows the item, the peer it is assigned to among them; a received object has the type
  of the item and is assigned; the number of requests is within its limit.\<close>

definition st_ok :: "inv \<Rightarrow> 'p inv_state \<Rightarrow> bool" where
  "st_ok i st \<longleftrightarrow> st_setKnownPeer st \<noteq> []
     \<and> (st_nAssigned st \<noteq> 0 \<longrightarrow> st_nAssigned st \<in> set (st_setKnownPeer st))
     \<and> (case st_objReceived st of Obj_Nil \<Rightarrow> True
        | Obj_Block b \<Rightarrow> fst i = MSG_BLOCK \<and> st_nAssigned st \<noteq> 0
        | Obj_Tx t \<Rightarrow> fst i = MSG_TX \<and> st_nAssigned st \<noteq> 0)
     \<and> 0 \<le> st_nGetDataCount st \<and> st_nGetDataCount st \<le> MAX_REGETDATA_COUNT"

text \<open>The view: \<open>K n\<close> is what peer \<open>n\<close> knows, \<open>Q n\<close> what it has been asked for and not delivered.\<close>

definition view_ok :: "(u64 \<Rightarrow> inv set) \<Rightarrow> (u64 \<Rightarrow> inv set) \<Rightarrow> (inv \<Rightarrow> 'p inv_state option) \<Rightarrow> bool" where
  "view_ok K Q ST \<longleftrightarrow>
     (\<forall>i st. ST i = Some st \<longrightarrow> st_ok i st)
     \<and> (\<forall>n i. i \<in> K n \<longleftrightarrow> (\<exists>st. ST i = Some st \<and> n \<in> set (st_setKnownPeer st)))
     \<and> (\<forall>n i. i \<in> Q n \<longleftrightarrow> n \<noteq> 0 \<and> (\<exists>st. ST i = Some st \<and> st_nAssigned st = n \<and> st_objReceived st = Obj_Nil))"

definition sc_view :: "'p sched \<Rightarrow> bool" where
  "sc_view s \<longleftrightarrow> view_ok (\<lambda>n. knows (peer_at n s)) (\<lambda>n. owes (peer_at n s)) (map_of (sc_mapState s))"

definition sc_rep :: "'p sched \<Rightarrow> bool" where
  "sc_rep s \<longleftrightarrow> (\<forall>n. ip_ok (peer_at n s)) \<and> msorted (sc_mapState s) \<and> length (sc_mapState s) \<le> MAX_INV_COUNT
     \<and> (\<forall>i \<in> set (sc_setMissPrevTxInv s). fst i = MSG_TX)"

definition sc_inv :: "'p sched \<Rightarrow> bool" where
  "sc_inv s \<longleftrightarrow> sc_view s \<and> sc_rep s"

lemma length_mput_present: "msorted m \<Longrightarrow> map_of m k \<noteq> None \<Longrightarrow> length (mput k v m) = length m"
proof (induction m)
  case (Cons p m)
  obtain k' v' where p: "p = (k', v')" by (cases p)
  have "\<not> k < k'" if "map_of m k \<noteq> None"
    using Cons.prems(1) that by (auto simp: p smap_sorted_def map_of_eq_None_iff)
  then show ?case using Cons by (auto simp: p smap_sorted_def split: if_splits)
qed simp

lemma length_mput_le: "length (mput k v m) \<le> Suc (length m)"
  by (induction m) auto

lemma length_mdel_le: "length (mdel k m) \<le> length m"
  by (simp add: smap_erase_def)

lemma sc_rep_put: "sc_rep s \<Longrightarrow> find_state i s = Some st0 \<Longrightarrow> sc_rep (put_state i st s)"
  by (simp add: sc_rep_def length_mput_present)

lemma sc_rep_at: "sc_rep s \<Longrightarrow> ip_ok (f (peer_at n s)) \<Longrightarrow> sc_rep (at_peer n f s)"
  by (simp add: sc_rep_def)

lemma sc_rep_peer: "sc_rep s \<Longrightarrow> ip_ok (peer_at n s)"
  by (simp add: sc_rep_def)

text \<open>The other indices do not take part.\<close>

lemma sc_inv_indices [simp]:
  "sc_inv (s\<lparr>sc_orphanBlock := x2\<rparr>) = sc_inv s" "sc_inv (s\<lparr>sc_orphanTx := x3\<rparr>) = sc_inv s"
  "sc_inv (s\<lparr>sc_mapRecvTxDest := x5\<rparr>) = sc_inv s" "sc_inv (s\<lparr>sc_mapRefBlock := x6\<rparr>) = sc_inv s"
  "sc_inv (s\<lparr>sc_mapHeightBlock := x7\<rparr>) = sc_inv s" "sc_inv (s\<lparr>sc_mapKcPoaBlock := x8\<rparr>) = sc_inv s"
  by (simp_all add: sc_inv_def sc_view_def sc_rep_def)

lemma sc_inv_miss: "sc_inv s \<Longrightarrow> \<forall>i \<in> set x. fst i = MSG_TX \<Longrightarrow> sc_inv (s\<lparr>sc_setMissPrevTxInv := x\<rparr>)"
  by (simp add: sc_inv_def sc_view_def sc_rep_def)

lemma view_okD:
  assumes "view_ok K Q ST"
  shows "ST i = Some st \<Longrightarrow> st_ok i st"
    "i \<in> K n \<Longrightarrow> \<exists>st. ST i = Some st \<and> n \<in> set (st_setKnownPeer st)"
    "ST i = Some st \<Longrightarrow> n \<in> set (st_setKnownPeer st) \<Longrightarrow> i \<in> K n"
    "i \<in> Q n \<Longrightarrow> \<exists>st. ST i = Some st \<and> st_nAssigned st = n \<and> st_objReceived st = Obj_Nil \<and> n \<noteq> 0"
    "ST i = Some st \<Longrightarrow> st_nAssigned st = n \<Longrightarrow> st_objReceived st = Obj_Nil \<Longrightarrow> n \<noteq> 0 \<Longrightarrow> i \<in> Q n"
  using assms unfolding view_ok_def by blast+

lemma view_okI:
  assumes "\<And>i st. ST i = Some st \<Longrightarrow> st_ok i st"
    "\<And>n i. i \<in> K n \<Longrightarrow> \<exists>st. ST i = Some st \<and> n \<in> set (st_setKnownPeer st)"
    "\<And>n i st. ST i = Some st \<Longrightarrow> n \<in> set (st_setKnownPeer st) \<Longrightarrow> i \<in> K n"
    "\<And>n i. i \<in> Q n \<Longrightarrow> \<exists>st. ST i = Some st \<and> st_nAssigned st = n \<and> st_objReceived st = Obj_Nil \<and> n \<noteq> 0"
    "\<And>n i st. ST i = Some st \<Longrightarrow> st_nAssigned st = n \<Longrightarrow> st_objReceived st = Obj_Nil \<Longrightarrow> n \<noteq> 0 \<Longrightarrow> i \<in> Q n"
  shows "view_ok K Q ST"
  using assms unfolding view_ok_def by blast

text \<open>Changing one entry: the sets of the peers follow it.\<close>

lemma view_ok_upd:
  assumes "view_ok K Q ST" and "\<And>st. e = Some st \<Longrightarrow> st_ok i st"
    and "\<And>n j. j \<noteq> i \<Longrightarrow> j \<in> K' n \<longleftrightarrow> j \<in> K n" "\<And>n. i \<in> K' n \<longleftrightarrow> (\<exists>st. e = Some st \<and> n \<in> set (st_setKnownPeer st))"
    and "\<And>n j. j \<noteq> i \<Longrightarrow> j \<in> Q' n \<longleftrightarrow> j \<in> Q n"
    and "\<And>n. i \<in> Q' n \<longleftrightarrow> (\<exists>st. e = Some st \<and> st_nAssigned st = n \<and> st_objReceived st = Obj_Nil \<and> n \<noteq> 0)"
    and "\<And>j. ST' j = (if j = i then e else ST j)"
  shows "view_ok K' Q' ST'"
proof (rule view_okI)
  fix j st assume "ST' j = Some st"
  then show "st_ok j st" using assms(2,7) view_okD(1)[OF assms(1)] by (cases "j = i") auto
next
  fix n j assume "j \<in> K' n"
  then show "\<exists>st. ST' j = Some st \<and> n \<in> set (st_setKnownPeer st)"
    using assms(3,4,7) view_okD(2)[OF assms(1)] by (cases "j = i") auto
next
  fix n j st assume "ST' j = Some st" "n \<in> set (st_setKnownPeer st)"
  then show "j \<in> K' n" using assms(3,4,7) view_okD(3)[OF assms(1)] by (cases "j = i") auto
next
  fix n j assume "j \<in> Q' n"
  then show "\<exists>st. ST' j = Some st \<and> st_nAssigned st = n \<and> st_objReceived st = Obj_Nil \<and> n \<noteq> 0"
    using assms(5,6,7) view_okD(4)[OF assms(1)] by (cases "j = i") auto
next
  fix n j st assume "ST' j = Some st" "st_nAssigned st = n" "st_objReceived st = Obj_Nil" "n \<noteq> 0"
  then show "j \<in> Q' n" using assms(5,6,7) view_okD(5)[OF assms(1)] by (cases "j = i") auto
qed

section \<open>Removing an item\<close>

lemma RemoveHeightBlock_fields [simp]:
  "sc_mapState (sc_RemoveHeightBlock h x s) = sc_mapState s" "sc_mapPeer (sc_RemoveHeightBlock h x s) = sc_mapPeer s"
  "sc_setMissPrevTxInv (sc_RemoveHeightBlock h x s) = sc_setMissPrevTxInv s"
  "sc_orphanBlock (sc_RemoveHeightBlock h x s) = sc_orphanBlock s" "sc_orphanTx (sc_RemoveHeightBlock h x s) = sc_orphanTx s"
  by (simp_all add: sc_RemoveHeightBlock_def Let_def split: option.split)

lemma RemoveRefBlock_fields [simp]:
  "sc_mapState (sc_RemoveRefBlock x s) = sc_mapState s" "sc_mapPeer (sc_RemoveRefBlock x s) = sc_mapPeer s"
  "sc_setMissPrevTxInv (sc_RemoveRefBlock x s) = sc_setMissPrevTxInv s"
  "sc_orphanBlock (sc_RemoveRefBlock x s) = sc_orphanBlock s" "sc_orphanTx (sc_RemoveRefBlock x s) = sc_orphanTx s"
  by (simp_all add: sc_RemoveRefBlock_def Let_def split: option.split)

lemma RemoveOrphan_fields [simp]:
  "sc_mapState (sc_RemoveOrphan i s) = sc_mapState s" "sc_mapPeer (sc_RemoveOrphan i s) = sc_mapPeer s"
  "sc_setMissPrevTxInv (sc_RemoveOrphan i s) = sc_setMissPrevTxInv s"
  by (simp_all add: sc_RemoveOrphan_def split: inv_type.split)

definition typed :: "inv \<Rightarrow> 'p sched \<Rightarrow> bool" where
  "typed i s \<longleftrightarrow> (\<forall>st. find_state i s = Some st \<longrightarrow> (case st_objReceived st of Obj_Nil \<Rightarrow> True
     | Obj_Block b \<Rightarrow> fst i = MSG_BLOCK | Obj_Tx t \<Rightarrow> fst i = MSG_TX))"

text \<open>\<open>removed i s s'\<close>: the state of \<open>i\<close> is gone, and nothing else that the invariant looks at has changed.\<close>

definition removed :: "inv \<Rightarrow> 'p sched \<Rightarrow> 'p sched \<Rightarrow> bool" where
  "removed i s s' \<longleftrightarrow> sc_mapState s' = mdel i (sc_mapState s) \<and> sc_mapPeer s' = sc_mapPeer s
     \<and> set (sc_setMissPrevTxInv s') = set (sc_setMissPrevTxInv s) - {i}
     \<and> sc_orphanBlock s' = (if fst i = MSG_BLOCK then or_Remove (snd i) (sc_orphanBlock s) else sc_orphanBlock s)
     \<and> sc_orphanTx s' = (if fst i = MSG_TX then or_Remove (snd i) (sc_orphanTx s) else sc_orphanTx s)"

lemma RemoveInvState_removed:
  assumes "typed i s" "\<forall>j \<in> set (sc_setMissPrevTxInv s). fst j = MSG_TX"
  shows "\<exists>s'. sc_RemoveInvState i s = Inr s' \<and> removed i s s'"
proof (cases "fst i")
  case MSG_TX
  then obtain h where i: "i = (MSG_TX, h)" by (cases i) simp
  define s2 where "s2 = (sc_RemoveOrphan i s)\<lparr>sc_setMissPrevTxInv := sdel i (sc_setMissPrevTxInv (sc_RemoveOrphan i s))\<rparr>"
  have "sc_mapState s2 = sc_mapState s" by (simp add: s2_def)
  then have "\<exists>r. sc_GetTransaction h s2 = Inr r"
    using assms(1) by (cases "find_state (MSG_TX, h) s") (auto simp: sc_GetTransaction_def typed_def i split: inv_object.splits)
  then obtain r where r: "sc_GetTransaction h s2 = Inr r" by blast
  have s2: "removed i s (s2\<lparr>sc_mapState := mdel i (sc_mapState s2)\<rparr>)"
    by (auto simp: removed_def s2_def i sc_RemoveOrphan_def)
  define s3 where "s3 = (case r of None \<Rightarrow> s2 | Some (tx, m) \<Rightarrow>
    s2\<lparr>sc_mapRecvTxDest := drop_inner (tx_destFrom tx) (tx_nTxNonce tx) (sc_mapRecvTxDest s2)\<rparr>)"
  have "sc_RemoveInvState i s = Inr (s3\<lparr>sc_mapState := mdel i (sc_mapState s3)\<rparr>)"
    unfolding sc_RemoveInvState_def Let_def s2_def[symmetric] using r by (simp add: i s3_def)
  moreover have "removed i s (s3\<lparr>sc_mapState := mdel i (sc_mapState s3)\<rparr>)"
    using s2 by (cases r) (auto simp: s3_def removed_def split: prod.split)
  ultimately show ?thesis by blast
next
  case MSG_BLOCK
  then obtain h where i: "i = (MSG_BLOCK, h)" by (cases i) simp
  have "i \<notin> set (sc_setMissPrevTxInv s)" using assms(2) MSG_BLOCK by auto
  then show ?thesis by (simp add: sc_RemoveInvState_def Let_def removed_def i) (simp add: sc_RemoveOrphan_def)
qed

lemma removed_peer_at: "removed i s s' \<Longrightarrow> peer_at n s' = peer_at n s"
  by (simp add: removed_def peer_at_def)

lemma sc_rep_removed: "sc_rep s \<Longrightarrow> removed i s s' \<Longrightarrow> sc_rep s'"
  using length_mdel_le[of i "sc_mapState s"] by (auto simp: sc_rep_def removed_peer_at) (auto simp: removed_def)

lemma sc_invD:
  assumes "sc_inv s"
  shows "find_state i s = Some st \<Longrightarrow> st_ok i st" "sc_rep s" "sc_view s" "typed i s"
    "\<forall>i \<in> set (sc_setMissPrevTxInv s). fst i = MSG_TX" "ip_ok (peer_at n s)"
    "i \<in> knows (peer_at n s) \<Longrightarrow> \<exists>st. find_state i s = Some st \<and> n \<in> set (st_setKnownPeer st)"
    "find_state i s = Some st \<Longrightarrow> n \<in> set (st_setKnownPeer st) \<Longrightarrow> i \<in> knows (peer_at n s)"
    "i \<in> owes (peer_at n s) \<Longrightarrow> \<exists>st. find_state i s = Some st \<and> st_nAssigned st = n \<and> st_objReceived st = Obj_Nil \<and> n \<noteq> 0"
    "find_state i s = Some st \<Longrightarrow> st_nAssigned st = n \<Longrightarrow> st_objReceived st = Obj_Nil \<Longrightarrow> n \<noteq> 0 \<Longrightarrow> i \<in> owes (peer_at n s)"
proof -
  have v: "view_ok (\<lambda>n. knows (peer_at n s)) (\<lambda>n. owes (peer_at n s)) (map_of (sc_mapState s))" and r: "sc_rep s"
    using assms by (simp_all add: sc_inv_def sc_view_def)
  have "st_ok i st" if "find_state i s = Some st" for st by (rule view_okD(1)[OF v that])
  then show "find_state i s = Some st \<Longrightarrow> st_ok i st" "typed i s"
    unfolding typed_def st_ok_def by (blast, fastforce split: inv_object.splits)
  show "sc_rep s" "sc_view s" "\<forall>i \<in> set (sc_setMissPrevTxInv s). fst i = MSG_TX" "ip_ok (peer_at n s)"
    using assms r by (simp_all add: sc_inv_def sc_rep_def)
  show "i \<in> knows (peer_at n s) \<Longrightarrow> \<exists>st. find_state i s = Some st \<and> n \<in> set (st_setKnownPeer st)"
    "find_state i s = Some st \<Longrightarrow> n \<in> set (st_setKnownPeer st) \<Longrightarrow> i \<in> knows (peer_at n s)"
    "i \<in> owes (peer_at n s) \<Longrightarrow> \<exists>st. find_state i s = Some st \<and> st_nAssigned st = n \<and> st_objReceived st = Obj_Nil \<and> n \<noteq> 0"
    "find_state i s = Some st \<Longrightarrow> st_nAssigned st = n \<Longrightarrow> st_objReceived st = Obj_Nil \<Longrightarrow> n \<noteq> 0 \<Longrightarrow> i \<in> owes (peer_at n s)"
    by (rule view_okD(2)[OF v] view_okD(3)[OF v] view_okD(4)[OF v] view_okD(5)[OF v]; assumption)+
qed

text \<open>\<open>RemoveInv\<close> forgets the item on both sides.\<close>

definition forgotten :: "inv set \<Rightarrow> 'p sched \<Rightarrow> 'p sched \<Rightarrow> bool" where
  "forgotten I s s' \<longleftrightarrow> (\<forall>j. find_state j s' = (if j \<in> I then None else find_state j s))
     \<and> (\<forall>n. knows (peer_at n s') = knows (peer_at n s) - I) \<and> (\<forall>n. owes (peer_at n s') = owes (peer_at n s) - I)
     \<and> set (sc_setMissPrevTxInv s') \<subseteq> set (sc_setMissPrevTxInv s)"

lemma RemoveInv_spec:
  assumes inv: "sc_inv s"
  shows "\<exists>s'. sc_RemoveInv i ks s = Inr (find_state i s \<noteq> None,
      (case find_state i s of None \<Rightarrow> ks | Some st \<Rightarrow> sins_all (st_setKnownPeer st) ks), s') \<and> sc_inv s' \<and> forgotten {i} s s'"
proof (cases "find_state i s")
  case None
  have "i \<notin> knows (peer_at n s)" "i \<notin> owes (peer_at n s)" for n using sc_invD(7,9)[OF inv, of i n] None by auto
  then show ?thesis using None inv by (auto simp: sc_RemoveInv_def forgotten_def)
next
  case (Some st)
  define s1 where "s1 = fold (\<lambda>n. at_peer n (ip_RemoveInv i)) (st_setKnownPeer st) s"
  have "typed i s1" "\<forall>j \<in> set (sc_setMissPrevTxInv s1). fst j = MSG_TX"
    using sc_invD(4,5)[OF inv] by (simp_all add: typed_def s1_def)
  then obtain s' where r: "sc_RemoveInvState i s1 = Inr s'" "removed i s1 s'" using RemoveInvState_removed by blast
  have K: "knows (peer_at n s') = knows (peer_at n s) - {i}" for n
    using sc_invD(7)[OF inv, of i n] Some unfolding removed_peer_at[OF r(2)] s1_def knows_fold by auto
  have ks: "n \<in> set (st_setKnownPeer st)" if "i \<in> owes (peer_at n s)" for n
    using sc_invD(9)[OF inv that] sc_invD(1)[OF inv Some] Some by (auto simp: st_ok_def)
  then have Q: "owes (peer_at n s') = owes (peer_at n s) - {i}" for n
    unfolding removed_peer_at[OF r(2)] s1_def owes_fold by auto
  have ST: "map_of (sc_mapState s') j = (if j = i then None else find_state j s)" for j
    using r(2) by (simp add: removed_def s1_def)
  have "sc_rep s1" using sc_invD(2)[OF inv] ip_ok_fold[of s] by (simp add: sc_rep_def s1_def)
  then have "sc_rep s'" by (rule sc_rep_removed[OF _ r(2)])
  moreover have "sc_view s'" unfolding sc_view_def
    by (rule view_ok_upd[where i = i and e = None, OF sc_invD(3)[OF inv, unfolded sc_view_def]]) (simp_all add: K Q ST)
  moreover have "forgotten {i} s s'" using K Q ST r(2) by (auto simp: forgotten_def removed_def s1_def)
  ultimately show ?thesis using Some r(1) by (simp add: sc_RemoveInv_def s1_def[symmetric] sc_inv_def)
qed

lemma forgotten_trans: "forgotten I s s' \<Longrightarrow> forgotten J s' s'' \<Longrightarrow> forgotten (I \<union> J) s s''"
  unfolding forgotten_def by auto

lemma forgotten_refl: "forgotten {} s s"
  by (simp add: forgotten_def)

text \<open>Removing several items in turn, with the peers that knew them.\<close>

definition known_peers :: "'p sched \<Rightarrow> inv set \<Rightarrow> u64 set" where
  "known_peers s I = {n. \<exists>i \<in> I. i \<in> knows (peer_at n s)}"

lemma remove_inv_acc_spec:
  assumes inv: "sc_inv s"
  shows "\<exists>ks' s'. remove_inv_acc i (ks, s) = Inr (ks', s') \<and> set ks' = set ks \<union> known_peers s {i} \<and> sc_inv s' \<and> forgotten {i} s s'"
proof -
  have "known_peers s {i} = (case find_state i s of None \<Rightarrow> {} | Some st \<Rightarrow> set (st_setKnownPeer st))"
    using sc_invD(7,8)[OF inv, of i] by (auto simp: known_peers_def split: option.splits)
  then show ?thesis using RemoveInv_spec[OF inv, of i ks] by (auto simp: remove_inv_acc_def split: option.splits)
qed

lemma each_remove_inv_acc:
  "sc_inv s \<Longrightarrow> \<exists>ks' s'. each_res remove_inv_acc l (ks, s) = Inr (ks', s') \<and> set ks' = set ks \<union> known_peers s (set l)
     \<and> sc_inv s' \<and> forgotten (set l) s s'"
proof (induction l arbitrary: ks s)
  case Nil
  then show ?case by (simp add: known_peers_def forgotten_refl)
next
  case (Cons i l)
  obtain ks1 s1 where 1: "remove_inv_acc i (ks, s) = Inr (ks1, s1)" "set ks1 = set ks \<union> known_peers s {i}" "sc_inv s1" "forgotten {i} s s1"
    using remove_inv_acc_spec[OF Cons.prems] by blast
  obtain ks2 s2 where 2: "each_res remove_inv_acc l (ks1, s1) = Inr (ks2, s2)" "set ks2 = set ks1 \<union> known_peers s1 (set l)"
      "sc_inv s2" "forgotten (set l) s1 s2"
    using Cons.IH[OF 1(3)] by blast
  have "known_peers s {i} \<union> known_peers s1 (set l) = known_peers s (set (i # l))"
    using 1(4) by (auto simp: known_peers_def forgotten_def)
  then show ?case using 1 2 forgotten_trans[OF 1(4) 2(4)] by auto
qed

section \<open>The other operations\<close>

text \<open>Changing one state and one peer's entry.\<close>

lemma sc_inv_change:
  assumes inv: "sc_inv s" and st: "st_ok i st" and rep: "sc_rep (at_peer n f (put_state i st s))"
    and K: "knows (f (peer_at n s)) - {i} = knows (peer_at n s) - {i}"
      "i \<in> knows (f (peer_at n s)) \<longleftrightarrow> n \<in> set (st_setKnownPeer st)"
      "\<And>m. m \<noteq> n \<Longrightarrow> i \<in> knows (peer_at m s) \<longleftrightarrow> m \<in> set (st_setKnownPeer st)"
    and Q: "owes (f (peer_at n s)) - {i} = owes (peer_at n s) - {i}"
      "i \<in> owes (f (peer_at n s)) \<longleftrightarrow> st_nAssigned st = n \<and> st_objReceived st = Obj_Nil \<and> n \<noteq> 0"
      "\<And>m. m \<noteq> n \<Longrightarrow> i \<in> owes (peer_at m s) \<longleftrightarrow> st_nAssigned st = m \<and> st_objReceived st = Obj_Nil \<and> m \<noteq> 0"
  shows "sc_inv (at_peer n f (put_state i st s))"
proof -
  have "sc_view (at_peer n f (put_state i st s))" unfolding sc_view_def
    by (rule view_ok_upd[where i = i and e = "Some st", OF sc_invD(3)[OF inv, unfolded sc_view_def]])
      (use assms in auto)
  then show ?thesis using rep by (simp add: sc_inv_def)
qed

lemma sc_inv_put:
  assumes inv: "sc_inv s" and st0: "find_state i s = Some st0" and st: "st_ok i st"
    and "st_setKnownPeer st = st_setKnownPeer st0" "st_nAssigned st = st_nAssigned st0"
      "(st_objReceived st = Obj_Nil) = (st_objReceived st0 = Obj_Nil)"
  shows "sc_inv (put_state i st s)"
proof -
  have "i \<in> knows (peer_at m s) \<longleftrightarrow> m \<in> set (st_setKnownPeer st0)" for m
    using sc_invD(7)[OF inv, of i m] sc_invD(8)[OF inv st0, of m] st0 by auto
  moreover have "i \<in> owes (peer_at m s) \<longleftrightarrow> st_nAssigned st0 = m \<and> st_objReceived st0 = Obj_Nil \<and> m \<noteq> 0" for m
    using sc_invD(9)[OF inv, of i m] sc_invD(10)[OF inv st0, of m] st0 by auto
  ultimately have "sc_view (put_state i st s)" unfolding sc_view_def
    by (intro view_ok_upd[where i = i and e = "Some st", OF sc_invD(3)[OF inv, unfolded sc_view_def]]) (use st in \<open>simp_all add: assms(4-6)\<close>)
  then show ?thesis using sc_rep_put[OF sc_invD(2)[OF inv] st0] by (simp add: sc_inv_def)
qed

lemma sc_inv_at:
  assumes "sc_inv s" "ip_ok (f (peer_at n s))" "knows (f (peer_at n s)) = knows (peer_at n s)" "owes (f (peer_at n s)) = owes (peer_at n s)"
  shows "sc_inv (at_peer n f s)"
proof -
  have "(\<lambda>m. knows (peer_at m (at_peer n f s))) = (\<lambda>m. knows (peer_at m s))" "(\<lambda>m. owes (peer_at m (at_peer n f s))) = (\<lambda>m. owes (peer_at m s))"
    using assms by (simp_all add: fun_eq_iff)
  then have "sc_view (at_peer n f s)" using assms(1) by (simp add: sc_inv_def sc_view_def del: peer_at_simps)
  then show ?thesis using assms sc_rep_at by (auto simp: sc_inv_def)
qed

lemma st_ok_new: "st_setKnownPeer st \<noteq> [] \<Longrightarrow> st_nAssigned st = 0 \<Longrightarrow> st_objReceived st = Obj_Nil \<Longrightarrow> st_nGetDataCount st = 0 \<Longrightarrow> st_ok i st"
  by (simp add: st_ok_def MAX_REGETDATA_COUNT_def)

lemma CheckAddInvIdleLocation_inv:
  "sc_inv s \<Longrightarrow> sc_CheckAddInvIdleLocation n t s = (b, s') \<Longrightarrow>
    sc_inv s' \<and> sc_mapState s' = sc_mapState s \<and> (\<forall>m. peer_at m s' = peer_at m s)
    \<and> (b \<longrightarrow> length (sc_mapState s) < MAX_INV_COUNT \<and> ip_GetCount t (peer_at n s) < peer_limit t)"
  by (auto simp: sc_CheckAddInvIdleLocation_def sc_invD(6) intro: sc_inv_at split: if_splits)

lemma AddNewInv_inv:
  assumes inv: "sc_inv s"
  shows "sc_inv (snd (sc_AddNewInv now i n s))"
proof -
  obtain b s1 where c: "sc_CheckAddInvIdleLocation n (fst i) s = (b, s1)" by (cases "sc_CheckAddInvIdleLocation n (fst i) s")
  note c1 = CheckAddInvIdleLocation_inv[OF inv c]
  then have s1: "sc_inv s1" by simp
  define st where "st = (case find_state i s1 of None \<Rightarrow> st_new | Some st \<Rightarrow> st)"
  define st1 where "st1 = st\<lparr>st_setKnownPeer := sins n (st_setKnownPeer st),
      st_nRecvInvTime := if st_nRecvInvTime st = 0 then now else st_nRecvInvTime st\<rparr>"
  show ?thesis
  proof (cases b)
    case True
    have lim: "length (sc_mapState s1) < MAX_INV_COUNT" "ip_GetCount (fst i) (peer_at n s1) < peer_limit (fst i)" using c1 True by auto
    have rep: "sc_rep (at_peer n (ip_AddNewInv i) (put_state i st1 s1))"
      using sc_invD(2)[OF s1] lim length_mput_le[of i st1 "sc_mapState s1"] ip_ok_AddNewInv[of "peer_at n s1" i]
      by (auto simp: sc_rep_def)
    have st1: "st_ok i st1"
      using sc_invD(1)[OF s1, of i] sins_nonempty by (auto simp: st1_def st_def st_ok_def st_new_def MAX_REGETDATA_COUNT_def split: option.splits inv_object.splits)
    have K: "i \<in> knows (peer_at m s1) \<longleftrightarrow> m \<in> set (st_setKnownPeer st)" for m
      using sc_invD(7)[OF s1, of i m] sc_invD(8)[OF s1, of i _ m] by (auto simp: st_def st_new_def split: option.splits)
    have Q: "i \<in> owes (peer_at m s1) \<longleftrightarrow> st_nAssigned st = m \<and> st_objReceived st = Obj_Nil \<and> m \<noteq> 0" for m
      using sc_invD(9)[OF s1, of i m] sc_invD(10)[OF s1, of i _ m] by (auto simp: st_def st_new_def split: option.splits)
    have "sc_inv (at_peer n (ip_AddNewInv i) (put_state i st1 s1))"
      by (rule sc_inv_change[OF s1 st1 rep]) (simp_all add: K Q st1_def)
    then show ?thesis unfolding sc_AddNewInv_def c Let_def prod.case st_def[symmetric] st1_def[symmetric] using True by simp
  qed (simp add: sc_AddNewInv_def c s1)
qed

lemma push_height_inv [simp]: "sc_inv (push_height h c s) = sc_inv s"
  by (simp add: push_height_def)

lemma receive_obj_inv:
  assumes inv: "sc_inv s" and st: "find_state i s = Some st" "st_nAssigned st = n" "\<not> st_IsReceived st" and n: "n \<noteq> 0"
    and ob: "case ob of Obj_Nil \<Rightarrow> False | Obj_Block b \<Rightarrow> fst i = MSG_BLOCK | Obj_Tx t \<Rightarrow> fst i = MSG_TX"
  shows "sc_inv (receive_obj now n i ob st s)"
proof -
  define st1 where "st1 = st\<lparr>st_objReceived := ob, st_nRecvObjTime := now, st_nClearObjTime := now + MAX_OBJ_WAIT_TIME\<rparr>"
  have "st_ok i st1" using sc_invD(1)[OF inv st(1)] st(2) n ob by (auto simp: st_ok_def st1_def split: inv_object.splits)
  moreover have "sc_rep (at_peer n (ip_Completed i) (put_state i st1 s))"
    using sc_rep_put[OF sc_invD(2)[OF inv] st(1)] sc_invD(6)[OF inv] by (intro sc_rep_at) simp_all
  moreover have "ob \<noteq> Obj_Nil" using ob by auto
  moreover have "i \<in> knows (peer_at m s) \<longleftrightarrow> m \<in> set (st_setKnownPeer st)" for m using sc_invD(7)[OF inv, of i m] sc_invD(8)[OF inv, of i _ m] st(1) by auto
  moreover have "m = n" if "i \<in> owes (peer_at m s)" for m using sc_invD(9)[OF inv that] st by auto
  ultimately show ?thesis unfolding receive_obj_def st1_def[symmetric]
    by (intro sc_inv_change[OF inv]) (auto simp: st1_def)
qed

lemma ReceiveBlock_inv: "sc_inv s \<Longrightarrow> n \<noteq> 0 \<Longrightarrow> sc_inv (snd (snd (sc_ReceiveBlock now n h b ks s)))"
  by (auto simp: sc_ReceiveBlock_def Let_def intro: receive_obj_inv split: option.splits)

lemma ReceiveTx_inv:
  assumes "sc_inv s" "n \<noteq> 0"
  shows "sc_inv (snd (snd (sc_ReceiveTx now n h t ks s)))"
proof (cases "find_state (MSG_TX, h) s")
  case (Some st)
  define s1 where "s1 = receive_obj now n (MSG_TX, h) (Obj_Tx t) st s"
  have "sc_inv s1" if "st_nAssigned st = n" "\<not> st_IsReceived st" using receive_obj_inv[OF assms(1) Some that assms(2)] by (simp add: s1_def)
  moreover have "\<forall>i \<in> set (sdel (MSG_TX, h) (sc_setMissPrevTxInv s1)). fst i = MSG_TX"
    using sc_invD(5)[OF assms(1)] by (simp add: s1_def receive_obj_def)
  ultimately show ?thesis using Some assms(1) by (simp add: sc_ReceiveTx_def Let_def s1_def[symmetric] sc_inv_miss)
qed (simp add: sc_ReceiveTx_def assms)

lemma CheckPrevTxInv_inv: "sc_inv s \<Longrightarrow> fst i = MSG_TX \<Longrightarrow> sc_inv (snd (sc_CheckPrevTxInv i s))"
  using sc_inv_miss[of s "sins i (sc_setMissPrevTxInv s)"] sc_invD(5)[of s] by (simp add: sc_CheckPrevTxInv_def split: option.split)

lemma AddOrphan_inv [simp]:
  "sc_inv (sc_AddOrphanBlockPrev h p s) = sc_inv s" "sc_inv (sc_AddOrphanTxPrev h p s) = sc_inv s"
  by (simp_all add: sc_AddOrphanBlockPrev_def sc_AddOrphanTxPrev_def)

lemma RemoveHeightBlock_inv [simp]: "sc_inv (sc_RemoveHeightBlock h x s) = sc_inv s"
  by (simp add: sc_RemoveHeightBlock_def Let_def split: option.split)

lemma RemoveRefBlock_inv [simp]: "sc_inv (sc_RemoveRefBlock x s) = sc_inv s"
  by (simp add: sc_RemoveRefBlock_def Let_def split: option.split)

lemma st_ok_irrelevant:
  "st_ok i (st\<lparr>st_hashRefBlock := a\<rparr>) = st_ok i st" "st_ok i (st\<lparr>st_fRepeatMintBlock := b\<rparr>) = st_ok i st"
  "st_ok i (st\<lparr>st_nClearObjTime := c\<rparr>) = st_ok i st" "st_ok i (st\<lparr>st_fVerifyPoaBlock := b\<rparr>) = st_ok i st"
  by (simp_all add: st_ok_def split: inv_object.split)

lemma settings_inv:
  assumes inv: "sc_inv s"
  shows "sc_inv (sc_AddRefBlock a b c s)" "sc_inv (sc_SetLocatorDepthHash n d s)" "sc_inv (sc_SetLocatorInvBlockHash n k hb hn s)"
    "sc_inv (sc_SetNextGetBlocksTime now n w s)" "sc_inv (snd (sc_SetRepeatBlock now n h s))" "sc_inv (snd (sc_SetDelayedClear now i w s))"
    "sc_inv (sc_SetPoaBlockVerifyState h f s)"
proof -
  show "sc_inv (sc_SetLocatorDepthHash n d s)" "sc_inv (sc_SetLocatorInvBlockHash n k hb hn s)" "sc_inv (sc_SetNextGetBlocksTime now n w s)"
    using inv by (auto simp: sc_SetLocatorDepthHash_def sc_SetLocatorInvBlockHash_def sc_SetNextGetBlocksTime_def sc_invD(6) intro!: sc_inv_at)
  show "sc_inv (snd (sc_SetDelayedClear now i w s))" "sc_inv (sc_SetPoaBlockVerifyState h f s)"
    using inv by (auto simp: sc_SetDelayedClear_def sc_SetPoaBlockVerifyState_def st_ok_irrelevant intro!: sc_inv_put dest: sc_invD(1) split: option.splits)
  show "sc_inv (sc_AddRefBlock a b c s)"
    using inv by (auto simp: sc_AddRefBlock_def Let_def st_ok_irrelevant intro!: sc_inv_put dest: sc_invD(1) split: option.splits)
  define s1 where "s1 = (case find_state (MSG_BLOCK, h) s of None \<Rightarrow> s
      | Some st \<Rightarrow> put_state (MSG_BLOCK, h) (st\<lparr>st_fRepeatMintBlock := True, st_nClearObjTime := now + MAX_REPEAT_BLOCK_TIME\<rparr>) s)"
  have "sc_inv s1" using inv by (auto simp: s1_def st_ok_irrelevant intro!: sc_inv_put dest: sc_invD(1) split: option.splits)
  then show "sc_inv (snd (sc_SetRepeatBlock now n h s))"
    unfolding sc_SetRepeatBlock_def Let_def s1_def[symmetric] by (auto simp: sc_invD(6) intro!: sc_inv_at)
qed

lemma kc_loop_inv [simp]: "sc_inv (kc_loop H h l s) = sc_inv s"
  by (induction H h l s rule: kc_loop.induct) simp_all

lemma cache_inv:
  "sc_inv s \<Longrightarrow> sc_inv (snd (snd (sc_AddCacheLocalPoaBlock H b f s)))" "sc_inv s \<Longrightarrow> sc_inv (sc_RemoveCacheLocalPoaBlock H h s)"
  by (auto simp: sc_AddCacheLocalPoaBlock_def sc_RemoveCacheLocalPoaBlock_def Let_def split: option.splits)

section \<open>A peer leaves\<close>

definition forget_peer :: "u64 \<Rightarrow> 'p inv_state \<Rightarrow> 'p inv_state option" where
  "forget_peer n st =
     (let known = sdel n (st_setKnownPeer st)
      in if known = [] then None
         else if st_nAssigned st = n then Some (st\<lparr>st_setKnownPeer := known, st_nAssigned := 0, st_objReceived := Obj_Nil\<rparr>)
         else Some (st\<lparr>st_setKnownPeer := known\<rparr>))"

definition all_typed :: "'p sched \<Rightarrow> bool" where
  "all_typed s \<longleftrightarrow> (\<forall>i. typed i s)"

lemma typed_put [simp]: "typed j (put_state i st s) \<longleftrightarrow> (if j = i then (case st_objReceived st of Obj_Nil \<Rightarrow> True
     | Obj_Block b \<Rightarrow> fst i = MSG_BLOCK | Obj_Tx t \<Rightarrow> fst i = MSG_TX) else typed j s)"
  by (auto simp: typed_def)

lemma typedD: "all_typed s \<Longrightarrow> find_state i s = Some st \<Longrightarrow> (case st_objReceived st of Obj_Nil \<Rightarrow> True
     | Obj_Block b \<Rightarrow> fst i = MSG_BLOCK | Obj_Tx t \<Rightarrow> fst i = MSG_TX)"
  using typed_def unfolding all_typed_def by blast

text \<open>The peers that are asked to fetch again: those left for an item the peer had been asked for.\<close>

definition left_with :: "u64 \<Rightarrow> 'p inv_state option \<Rightarrow> u64 set" where
  "left_with n e = (case e of Some st \<Rightarrow> if st_nAssigned st = n then set (st_setKnownPeer st) - {n} else {} | None \<Rightarrow> {})"

lemma remove_peer_inv_spec:
  assumes ty: "all_typed s" and rep: "sc_rep s"
  shows "\<exists>ks' s'. remove_peer_inv n i (ks, s) = Inr (ks', s') \<and> sc_mapPeer s' = sc_mapPeer s
    \<and> (\<forall>j. find_state j s' = (if j = i then Option.bind (find_state i s) (forget_peer n) else find_state j s))
    \<and> all_typed s' \<and> sc_rep s' \<and> set ks' = set ks \<union> left_with n (find_state i s)"
proof (cases "find_state i s")
  case None
  then show ?thesis using assms by (auto simp: remove_peer_inv_def left_with_def)
next
  case (Some st)
  define known where "known = sdel n (st_setKnownPeer st)"
  show ?thesis
  proof (cases "known = []")
    case True
    define s1 where "s1 = put_state i (st\<lparr>st_setKnownPeer := known\<rparr>) s"
    have "typed i s1" using typedD[OF ty Some] by (simp add: s1_def)
    moreover have "sc_rep s1" unfolding s1_def by (rule sc_rep_put[OF rep Some])
    ultimately obtain s' where r: "sc_RemoveInvState i s1 = Inr s'" "removed i s1 s'"
      using RemoveInvState_removed[of i s1] by (auto simp: sc_rep_def)
    have "sc_rep s'" by (rule sc_rep_removed[OF \<open>sc_rep s1\<close> r(2)])
    moreover have ST: "find_state j s' = (if j = i then None else find_state j s)" for j using r(2) by (simp add: removed_def s1_def)
    moreover have "all_typed s'" using typedD[OF ty] unfolding all_typed_def typed_def ST by simp
    moreover have "left_with n (find_state i s) = {}" using True Some by (simp add: known_def left_with_def flip: set_removeAll)
    moreover have "sc_mapPeer s' = sc_mapPeer s" using r(2) by (simp add: removed_def s1_def)
    moreover have "remove_peer_inv n i (ks, s) = Inr (ks, s')"
      unfolding remove_peer_inv_def Let_def using Some r(1) True by (simp add: known_def[symmetric] s1_def)
    moreover have "Option.bind (find_state i s) (forget_peer n) = None" using Some True by (simp add: forget_peer_def known_def)
    ultimately show ?thesis by (intro exI[of _ ks] exI[of _ s']) simp
  next
    case False
    have "sc_rep (put_state i st' s)" for st' by (rule sc_rep_put[OF rep Some])
    moreover have "all_typed (put_state i (st\<lparr>st_setKnownPeer := known\<rparr>) s)"
      "all_typed (put_state i (st\<lparr>st_setKnownPeer := known, st_nAssigned := 0, st_objReceived := Obj_Nil\<rparr>) s)"
      using ty typedD[OF ty Some] unfolding all_typed_def by simp_all
    ultimately show ?thesis using Some False
      by (auto simp: remove_peer_inv_def Let_def known_def[symmetric] forget_peer_def left_with_def) (auto simp: known_def)
  qed
qed

lemma forget_peer_twice: "Option.bind (Option.bind e (forget_peer n)) (forget_peer n) = Option.bind e (forget_peer n)"
  by (cases e) (auto simp: forget_peer_def Let_def)

lemma left_with_forgotten: "left_with n (Option.bind e (forget_peer n)) \<subseteq> left_with n e"
  by (cases e) (auto simp: left_with_def forget_peer_def Let_def)

lemma each_remove_peer_inv:
  assumes "all_typed s" "sc_rep s"
  shows "\<exists>ks' s'. each_res (remove_peer_inv n) l (ks, s) = Inr (ks', s') \<and> sc_mapPeer s' = sc_mapPeer s
    \<and> (\<forall>j. find_state j s' = (if j \<in> set l then Option.bind (find_state j s) (forget_peer n) else find_state j s))
    \<and> sc_rep s' \<and> set ks' = set ks \<union> (\<Union>i \<in> set l. left_with n (find_state i s))"
  using assms
proof (induction l arbitrary: ks s)
  case (Cons i l)
  obtain ks1 s1 where 1: "remove_peer_inv n i (ks, s) = Inr (ks1, s1)" "sc_mapPeer s1 = sc_mapPeer s"
      "all_typed s1" "sc_rep s1" "set ks1 = set ks \<union> left_with n (find_state i s)"
    and ST1: "\<And>j. find_state j s1 = (if j = i then Option.bind (find_state i s) (forget_peer n) else find_state j s)"
    using remove_peer_inv_spec[OF Cons.prems, of n i ks] by blast
  obtain ks2 s2 where 2: "each_res (remove_peer_inv n) l (ks1, s1) = Inr (ks2, s2)" "sc_mapPeer s2 = sc_mapPeer s1"
      "sc_rep s2" "set ks2 = set ks1 \<union> (\<Union>i \<in> set l. left_with n (find_state i s1))"
    and ST2: "\<And>j. find_state j s2 = (if j \<in> set l then Option.bind (find_state j s1) (forget_peer n) else find_state j s1)"
    using Cons.IH[OF 1(3,4), of ks1] by blast
  have "find_state j s2 = (if j \<in> set (i # l) then Option.bind (find_state j s) (forget_peer n) else find_state j s)" for j
    using forget_peer_twice[of "find_state i s" n] by (simp add: ST2 ST1 del: Option.bind_assoc)
  moreover have "left_with n (find_state i s) \<union> (\<Union>j \<in> set l. left_with n (find_state j s1))
      = left_with n (find_state i s) \<union> (\<Union>j \<in> set l. left_with n (find_state j s))"
    using left_with_forgotten[of n "find_state i s"] by (auto simp: ST1 split: if_splits)
  ultimately show ?case using 1 2 by (simp add: Un_assoc)
qed simp

lemma all_typed_inv: "sc_inv s \<Longrightarrow> all_typed s"
  by (simp add: all_typed_def sc_invD(4))

lemma forget_peer_ok: "st_ok i st \<Longrightarrow> forget_peer n st = Some st' \<Longrightarrow> st_ok i st'"
  by (auto simp: st_ok_def forget_peer_def Let_def split: if_splits inv_object.splits)

lemma forget_peer_other: "st_ok i st \<Longrightarrow> n \<noteq> 0 \<Longrightarrow> n \<notin> set (st_setKnownPeer st) \<Longrightarrow> forget_peer n st = Some st"
  by (cases st) (auto simp: st_ok_def forget_peer_def Let_def)

lemma peer_at_erase: "peer_at m (s\<lparr>sc_mapPeer := mdel n (sc_mapPeer s)\<rparr>) = (if m = n then ip_new else peer_at m s)"
  by (simp add: peer_at_def)

lemma forget_unknown:
  assumes "sc_inv s" "n \<noteq> 0" "i \<notin> knows (peer_at n s)"
  shows "Option.bind (find_state i s) (forget_peer n) = find_state i s"
proof (cases "find_state i s")
  case (Some st)
  then have "n \<notin> set (st_setKnownPeer st)" using sc_invD(8)[OF assms(1) Some] assms(3) by blast
  then show ?thesis using Some forget_peer_other[OF sc_invD(1)[OF assms(1) Some] assms(2)] by simp
qed simp

lemma RemovePeer_spec:
  assumes inv: "sc_inv s" and n: "n \<noteq> 0"
  shows "\<exists>ks' s'. sc_RemovePeer n ks s = Inr (ks', s') \<and> sc_inv s' \<and> (\<forall>i. find_state i s' = Option.bind (find_state i s) (forget_peer n))
    \<and> set ks' = set ks \<union> (\<Union>i \<in> knows (peer_at n s). left_with n (find_state i s))"
proof (cases "map_of (sc_mapPeer s) n")
  case None
  then have p: "peer_at n s = ip_new" by (simp add: peer_at_def)
  have "find_state i s = Option.bind (find_state i s) (forget_peer n)" for i
    using forget_unknown[OF inv n, of i] p by simp
  then show ?thesis using None inv p by (simp add: sc_RemovePeer_def)
next
  case (Some p)
  then have p: "peer_at n s = p" by (simp add: peer_at_def)
  obtain ks1 s1 where 1: "each_res (remove_peer_inv n) (ip_GetKnownInv p) (ks, s) = Inr (ks1, s1)" "sc_mapPeer s1 = sc_mapPeer s"
      "sc_rep s1" "set ks1 = set ks \<union> (\<Union>i \<in> knows p. left_with n (find_state i s))"
    and ST1: "\<And>j. find_state j s1 = (if j \<in> knows p then Option.bind (find_state j s) (forget_peer n) else find_state j s)"
    using each_remove_peer_inv[OF all_typed_inv[OF inv] sc_invD(2)[OF inv], of n "ip_GetKnownInv p" ks] unfolding set_GetKnownInv by blast
  define s' where "s' = s1\<lparr>sc_mapPeer := mdel n (sc_mapPeer s1)\<rparr>"
  have pe: "peer_at m s' = (if m = n then ip_new else peer_at m s)" for m
    using 1(2) by (simp add: s'_def peer_at_erase) (simp add: peer_at_def)
  have ST: "find_state i s' = Option.bind (find_state i s) (forget_peer n)" for i
    using forget_unknown[OF inv n, of i] p by (simp add: s'_def ST1)
  have "sc_rep s'" using 1(3) by (simp add: sc_rep_def s'_def peer_at_erase)
  moreover have "sc_view s'" unfolding sc_view_def
  proof (rule view_okI)
    fix i st assume "find_state i s' = Some st"
    then show "st_ok i st" using sc_invD(1)[OF inv, of i] forget_peer_ok[of i _ n st] by (cases "find_state i s") (auto simp: ST)
  next
    fix m i assume "i \<in> knows (peer_at m s')"
    then have "m \<noteq> n" "i \<in> knows (peer_at m s)" by (auto simp: pe split: if_splits)
    then obtain st where st: "find_state i s = Some st" "m \<in> set (sdel n (st_setKnownPeer st))"
      using sc_invD(7)[OF inv, of i m] by auto
    then show "\<exists>st. find_state i s' = Some st \<and> m \<in> set (st_setKnownPeer st)"
      by (auto simp: ST forget_peer_def Let_def simp del: set_removeAll)
  next
    fix m i st assume "find_state i s' = Some st" "m \<in> set (st_setKnownPeer st)"
    then show "i \<in> knows (peer_at m s')"
      using sc_invD(8)[OF inv, of i _ m] by (cases "find_state i s") (auto simp: ST pe forget_peer_def Let_def split: if_splits)
  next
    fix m i assume "i \<in> owes (peer_at m s')"
    then have m: "m \<noteq> n" "i \<in> owes (peer_at m s)" by (auto simp: pe split: if_splits)
    then obtain st where st: "find_state i s = Some st" "st_nAssigned st = m" "st_objReceived st = Obj_Nil" "m \<noteq> 0"
      using sc_invD(9)[OF inv, of i m] by blast
    then have "m \<in> set (sdel n (st_setKnownPeer st))" using sc_invD(1)[OF inv st(1)] m(1) by (simp add: st_ok_def)
    then show "\<exists>st. find_state i s' = Some st \<and> st_nAssigned st = m \<and> st_objReceived st = Obj_Nil \<and> m \<noteq> 0"
      using st m(1) by (auto simp: ST forget_peer_def Let_def simp del: set_removeAll)
  next
    fix m i st assume "find_state i s' = Some st" "st_nAssigned st = m" "st_objReceived st = Obj_Nil" "m \<noteq> 0"
    then show "i \<in> owes (peer_at m s')"
      using sc_invD(10)[OF inv, of i _ m] by (cases "find_state i s") (auto simp: ST pe forget_peer_def Let_def split: if_splits)
  qed
  ultimately have "sc_inv s'" by (simp add: sc_inv_def)
  then show ?thesis using Some 1(1,4) ST p by (simp add: sc_RemovePeer_def s'_def)
qed

lemma RemovePeer_gone:
  assumes "sc_inv s" "n \<noteq> 0" "sc_RemovePeer n ks s = Inr (ks', s')"
  shows "map_of (sc_mapPeer s') n = None"
  using assms by (auto simp: sc_RemovePeer_def res_bind_Inr split: option.splits)

section \<open>Cancelling and invalidating\<close>

lemma CancelAssignedInv_spec:
  assumes inv: "sc_inv s" and n: "n \<noteq> 0"
  shows "\<exists>b s'. sc_CancelAssignedInv n i s = Inr (b, s') \<and> sc_inv s' \<and> (\<forall>j. j \<noteq> i \<longrightarrow> find_state j s' = find_state j s)
    \<and> i \<notin> owes (peer_at n s')"
proof (cases "find_state i s")
  case None
  then have "i \<notin> owes (peer_at n s)" using sc_invD(9)[OF inv, of i n] by auto
  then show ?thesis using inv None by (intro exI[of _ False] exI[of _ s]) (simp add: sc_CancelAssignedInv_def)
next
  case (Some st)
  have K: "i \<in> knows (peer_at m s) \<longleftrightarrow> m \<in> set (st_setKnownPeer st)" for m
    using sc_invD(7)[OF inv, of i m] sc_invD(8)[OF inv Some, of m] Some by auto
  have Q: "i \<in> owes (peer_at m s) \<longleftrightarrow> st_nAssigned st = m \<and> st_objReceived st = Obj_Nil \<and> m \<noteq> 0" for m
    using sc_invD(9)[OF inv, of i m] sc_invD(10)[OF inv Some, of m] Some by auto
  show ?thesis
  proof (cases "st_nAssigned st = n \<and> \<not> st_IsReceived st")
    case False
    then have "i \<notin> owes (peer_at n s)" by (auto simp: Q st_IsReceived_def)
    then show ?thesis using inv Some False by (intro exI[of _ "st_nAssigned st = n"] exI[of _ s]) (simp add: sc_CancelAssignedInv_def)
  next
    case True
    define st1 where "st1 = st\<lparr>st_nAssigned := 0, st_setKnownPeer := sdel n (st_setKnownPeer st)\<rparr>"
    have nil: "st_objReceived st = Obj_Nil" using True by (auto simp: st_IsReceived_def split: inv_object.splits)
    have "n \<in> set (st_setKnownPeer st)" using sc_invD(1)[OF inv Some] True n by (auto simp: st_ok_def)
    then have pn: "map_of (sc_mapPeer s) n \<noteq> None" using K[of n] by (auto simp: peer_at_def split: option.splits)
    have rep: "sc_rep (put_state i st1 s)" by (rule sc_rep_put[OF sc_invD(2)[OF inv] Some])
    show ?thesis
    proof (cases "sdel n (st_setKnownPeer st) = []")
      case empty: True
      have "typed i (put_state i st1 s)" "\<forall>j \<in> set (sc_setMissPrevTxInv (put_state i st1 s)). fst j = MSG_TX"
        using sc_invD(5)[OF inv] nil by (simp_all add: st1_def)
      then obtain s2 where r: "sc_RemoveInvState i (put_state i st1 s) = Inr s2" "removed i (put_state i st1 s) s2"
        using RemoveInvState_removed by blast
      have pe: "peer_at m s2 = peer_at m s" for m using removed_peer_at[OF r(2), of m] by simp
      have ST: "find_state j s2 = (if j = i then None else find_state j s)" for j using r(2) by (simp add: removed_def)
      have only: "set (st_setKnownPeer st) \<subseteq> {n}" using empty by (simp flip: set_removeAll Diff_eq_empty_iff)
      have "sc_view (at_peer n (ip_RemoveInv i) s2)" unfolding sc_view_def
        by (rule view_ok_upd[where i = i and e = None, OF sc_invD(3)[OF inv, unfolded sc_view_def]])
          (use only True in \<open>auto simp: pe ST K Q\<close>)
      moreover have "sc_rep (at_peer n (ip_RemoveInv i) s2)"
        using sc_rep_removed[OF rep r(2)] sc_invD(6)[OF inv] by (intro sc_rep_at) (simp_all add: pe)
      moreover have "map_of (sc_mapPeer s2) n \<noteq> None" using pn r(2) by (simp add: removed_def)
      moreover have "sc_CancelAssignedInv n i s = Inr (True, at_peer n (ip_RemoveInv i) s2)"
        using Some True empty r(1) \<open>map_of (sc_mapPeer s2) n \<noteq> None\<close> by (auto simp: sc_CancelAssignedInv_def Let_def st1_def)
      ultimately show ?thesis by (intro exI[of _ True] exI[of _ "at_peer n (ip_RemoveInv i) s2"]) (simp add: sc_inv_def ST)
    next
      case False
      have "st_ok i st1" using sc_invD(1)[OF inv Some] False nil by (simp add: st_ok_def st1_def)
      moreover have "sc_rep (at_peer n (ip_RemoveInv i) (put_state i st1 s))"
        using rep sc_invD(6)[OF inv] by (intro sc_rep_at) simp_all
      ultimately have "sc_inv (at_peer n (ip_RemoveInv i) (put_state i st1 s))"
        using True by (intro sc_inv_change[OF inv]) (auto simp: st1_def K Q)
      moreover have "sc_CancelAssignedInv n i s = Inr (True, at_peer n (ip_RemoveInv i) (put_state i st1 s))"
        using Some True False pn by (auto simp: sc_CancelAssignedInv_def Let_def st1_def)
      ultimately show ?thesis by (intro exI[of _ True] exI[of _ "at_peer n (ip_RemoveInv i) (put_state i st1 s)"]) simp
    qed
  qed
qed

lemma Invalidate_spec:
  assumes inv: "sc_inv s" and br: "or_RemoveBranch h w = (v, w')"
  shows "\<exists>ks' s'. res_bind (each_res remove_inv_acc (map (Pair t) v) (ks, s)) (remove_inv_acc (t, h)) = Inr (ks', s')
     \<and> set ks' = set ks \<union> known_peers s (Pair t ` insert h (set v)) \<and> sc_inv s' \<and> forgotten (Pair t ` insert h (set v)) s s'"
proof -
  obtain ks1 s1 where 1: "each_res remove_inv_acc (map (Pair t) v) (ks, s) = Inr (ks1, s1)"
      "set ks1 = set ks \<union> known_peers s (Pair t ` set v)" "sc_inv s1" "forgotten (Pair t ` set v) s s1"
    using each_remove_inv_acc[OF inv, of "map (Pair t) v" ks] by auto
  obtain ks2 s2 where 2: "remove_inv_acc (t, h) (ks1, s1) = Inr (ks2, s2)"
      "set ks2 = set ks1 \<union> known_peers s1 {(t, h)}" "sc_inv s2" "forgotten {(t, h)} s1 s2"
    using remove_inv_acc_spec[OF 1(3)] by blast
  have "known_peers s (Pair t ` set v) \<union> known_peers s1 {(t, h)} = known_peers s (Pair t ` insert h (set v))"
    using 1(4) by (auto simp: known_peers_def forgotten_def)
  then show ?thesis using 1 2 forgotten_trans[OF 1(4) 2(4)] by auto
qed

lemma sc_inv_orphan_views:
  "known_peers (s\<lparr>sc_orphanBlock := w\<rparr>) I = known_peers s I" "known_peers (s\<lparr>sc_orphanTx := w\<rparr>) I = known_peers s I"
  "forgotten I (s\<lparr>sc_orphanBlock := w\<rparr>) s' = forgotten I s s'" "forgotten I (s\<lparr>sc_orphanTx := w\<rparr>) s' = forgotten I s s'"
  by (simp_all add: known_peers_def forgotten_def)

lemma InvalidateBlock_spec:
  assumes inv: "sc_inv s" and D: "D = insert h {x. (h, x) \<in> (waits (sc_orphanBlock s))\<^sup>+}"
  shows "\<exists>ks' s'. sc_InvalidateBlock h ks s = Inr (ks', s') \<and> sc_inv s' \<and> forgotten (Pair MSG_BLOCK ` D) s s'
    \<and> set ks' = set ks \<union> known_peers s (Pair MSG_BLOCK ` D)"
proof -
  obtain v w' where br: "or_RemoveBranch h (sc_orphanBlock s) = (v, w')" by (cases "or_RemoveBranch h (sc_orphanBlock s)")
  show ?thesis using Invalidate_spec[of "s\<lparr>sc_orphanBlock := w'\<rparr>", OF _ br, of MSG_BLOCK ks] inv RemoveBranch_spec(2)[OF br]
    by (auto simp: sc_InvalidateBlock_def br sc_inv_orphan_views D)
qed

lemma InvalidateTx_spec:
  assumes inv: "sc_inv s" and D: "D = insert h {x. (h, x) \<in> (waits (sc_orphanTx s))\<^sup>+}"
  shows "\<exists>ks' s'. sc_InvalidateTx h ks s = Inr (ks', s') \<and> sc_inv s' \<and> forgotten (Pair MSG_TX ` D) s s'
    \<and> set ks' = set ks \<union> known_peers s (Pair MSG_TX ` D)"
proof -
  obtain v w' where br: "or_RemoveBranch h (sc_orphanTx s) = (v, w')" by (cases "or_RemoveBranch h (sc_orphanTx s)")
  show ?thesis using Invalidate_spec[of "s\<lparr>sc_orphanTx := w'\<rparr>", OF _ br, of MSG_TX ks] inv RemoveBranch_spec(2)[OF br]
    by (auto simp: sc_InvalidateTx_def br sc_inv_orphan_views D)
qed

section \<open>Choosing what to fetch\<close>

definition asked :: "u64 \<Rightarrow> 'p inv_state \<Rightarrow> 'p inv_state" where
  "asked n st = st\<lparr>st_nAssigned := n, st_nGetDataCount := st_nGetDataCount st + 1\<rparr>"

text \<open>An item peer \<open>n\<close> can be asked for, one that is dropped, and one that has arrived and is kept.\<close>

definition fetchable :: "int \<Rightarrow> u64 \<Rightarrow> 'p sched \<Rightarrow> inv \<Rightarrow> bool" where
  "fetchable now n s i \<longleftrightarrow> i \<in> knows (peer_at n s) \<and> (\<exists>st. find_state i s = Some st \<and> st_nAssigned st = 0 \<and> \<not> inv_timeout now st)"

definition expired :: "int \<Rightarrow> u64 \<Rightarrow> 'p sched \<Rightarrow> inv \<Rightarrow> bool" where
  "expired now n s i \<longleftrightarrow> i \<in> knows (peer_at n s) \<and> (\<exists>st. find_state i s = Some st
     \<and> (st_nAssigned st = 0 \<and> inv_timeout now st \<or> st_nAssigned st \<noteq> 0 \<and> st_IsReceived st \<and> now \<ge> st_nClearObjTime st))"

definition arrived :: "int \<Rightarrow> 'p sched \<Rightarrow> inv \<Rightarrow> bool" where
  "arrived now s i \<longleftrightarrow> (\<exists>st. find_state i s = Some st \<and> st_nAssigned st \<noteq> 0 \<and> st_IsReceived st \<and> \<not> now \<ge> st_nClearObjTime st)"

text \<open>\<open>assigning now n v s s'\<close>: \<open>s'\<close> is \<open>s\<close> after peer \<open>n\<close> has been asked for the items of \<open>v\<close>.\<close>

definition assigning :: "int \<Rightarrow> u64 \<Rightarrow> inv list \<Rightarrow> 'p sched \<Rightarrow> 'p sched \<Rightarrow> bool" where
  "assigning now n v s s' \<longleftrightarrow> sc_inv s' \<and> distinct v \<and> (\<forall>i \<in> set v. fetchable now n s i)
     \<and> (\<forall>j. find_state j s' = (if j \<in> set v then map_option (asked n) (find_state j s) else find_state j s))
     \<and> (\<forall>m t. ip_GetKnownList t (peer_at m s') = ip_GetKnownList t (peer_at m s))"

lemma assigningD:
  assumes "assigning now n v s s'"
  shows "sc_inv s'" "distinct v" "i \<in> set v \<Longrightarrow> fetchable now n s i"
    "find_state j s' = (if j \<in> set v then map_option (asked n) (find_state j s) else find_state j s)"
    "ip_GetKnownList t (peer_at m s') = ip_GetKnownList t (peer_at m s)" "knows (peer_at m s') = knows (peer_at m s)"
  using assms unfolding assigning_def by (blast, blast, blast, blast, blast, simp add: knows_def)

lemma known_list_Assign [simp]: "ip_GetKnownList t (ip_Assign i p) = ip_GetKnownList t p"
  by (simp add: ip_GetKnownList_def ip_Assign_def)

lemma assign_inv_inv:
  assumes inv: "sc_inv s" and st: "find_state i s = Some st" "st_nAssigned st = 0" and n: "n \<noteq> 0" and k: "i \<in> knows (peer_at n s)"
    and t: "\<not> inv_timeout now st"
  shows "sc_inv (assign_inv n i st s)"
proof -
  have ok: "st_ok i st" by (rule sc_invD(1)[OF inv st(1)])
  then have nil: "st_objReceived st = Obj_Nil" using st(2) by (auto simp: st_ok_def split: inv_object.splits)
  have K: "i \<in> knows (peer_at m s) \<longleftrightarrow> m \<in> set (st_setKnownPeer st)" for m
    using sc_invD(7)[OF inv, of i m] sc_invD(8)[OF inv st(1), of m] st(1) by auto
  have "st_ok i (asked n st)" using ok nil k t n by (auto simp: st_ok_def asked_def K inv_timeout_def)
  moreover have "sc_rep (at_peer n (ip_Assign i) (put_state i (asked n st) s))"
    using sc_rep_put[OF sc_invD(2)[OF inv] st(1)] sc_invD(6)[OF inv] by (intro sc_rep_at) simp_all
  moreover have "i \<notin> owes (peer_at m s)" for m using sc_invD(9)[OF inv, of i m] st by auto
  ultimately show ?thesis unfolding assign_inv_def asked_def[symmetric]
    by (intro sc_inv_change[OF inv]) (auto simp: K asked_def nil n)
qed

lemma assigning_step:
  assumes a: "assigning now n v s s'" and st: "find_state i s' = Some st" "st_nAssigned st = 0" "\<not> inv_timeout now st"
    and n: "n \<noteq> 0" and k: "i \<in> knows (peer_at n s)"
  shows "assigning now n (v @ [i]) s (assign_inv n i st s')"
proof -
  have iv: "i \<notin> set v" using st(1,2) n assigningD(4)[OF a, of i] by (auto simp: asked_def)
  then have "find_state i s = Some st" using assigningD(4)[OF a, of i] st(1) by simp
  then have "fetchable now n s i" using st k by (auto simp: fetchable_def)
  moreover have "sc_inv (assign_inv n i st s')"
    by (rule assign_inv_inv[OF assigningD(1)[OF a] st(1,2) n _ st(3)]) (use k assigningD(6)[OF a] in simp)
  ultimately show ?thesis using iv assigningD(2,3,4,5)[OF a] \<open>find_state i s = Some st\<close>
    unfolding assigning_def by (auto simp: assign_inv_def asked_def)
qed

lemma assigning_miss:
  assumes "assigning now n v s s'"
  shows "assigning now n v s (s'\<lparr>sc_setMissPrevTxInv := sdel i (sc_setMissPrevTxInv s')\<rparr>)"
  using assms sc_inv_miss[OF assigningD(1)[OF assms], of "sdel i (sc_setMissPrevTxInv s')"] sc_invD(5)[OF assigningD(1)[OF assms]]
  by (auto simp: assigning_def)

lemma assigning_refl: "sc_inv s \<Longrightarrow> assigning now n [] s s"
  by (simp add: assigning_def)

text \<open>A state seen during the loops: unassigned or received, it is the one the loops started with.\<close>

lemma assigning_unassigned:
  assumes inv: "sc_inv s" and a: "assigning now n v s s'" and st: "find_state i s' = Some st" and n: "n \<noteq> 0"
    and u: "st_nAssigned st = 0 \<or> st_IsReceived st"
  shows "i \<notin> set v \<and> find_state i s = Some st"
proof -
  have "i \<notin> set v"
  proof
    assume v: "i \<in> set v"
    obtain st0 where st0: "find_state i s = Some st0" "st_nAssigned st0 = 0" using assigningD(3)[OF a v] by (auto simp: fetchable_def)
    then have "st_objReceived st0 = Obj_Nil" using sc_invD(1)[OF inv st0(1)] by (auto simp: st_ok_def split: inv_object.splits)
    moreover have "st = asked n st0" using assigningD(4)[OF a, of i] st st0(1) v by simp
    ultimately show False using u n by (simp add: asked_def st_IsReceived_def)
  qed
  then show ?thesis using assigningD(4)[OF a, of i] st by simp
qed

text \<open>What both loops keep: \<open>v\<close> has been assigned, \<open>rm\<close> is to be removed, all of it of one type.\<close>

definition loop_ok :: "int \<Rightarrow> u64 \<Rightarrow> inv_type \<Rightarrow> 'p sched \<Rightarrow> inv list \<Rightarrow> inv list \<Rightarrow> 'p sched \<Rightarrow> bool" where
  "loop_ok now n t s v rm s' \<longleftrightarrow> assigning now n v s s' \<and> (\<forall>i \<in> set rm. expired now n s i) \<and> (\<forall>i \<in> set v \<union> set rm. fst i = t)"

lemma loop_okD:
  assumes "loop_ok now n t s v rm s'"
  shows "assigning now n v s s'" "i \<in> set rm \<Longrightarrow> expired now n s i" "i \<in> set v \<Longrightarrow> fst i = t" "i \<in> set rm \<Longrightarrow> fst i = t"
  using assms by (auto simp: loop_ok_def)

lemma loop_ok_miss: "loop_ok now n t s v rm s' \<Longrightarrow> loop_ok now n t s v rm (s'\<lparr>sc_setMissPrevTxInv := sdel i (sc_setMissPrevTxInv s')\<rparr>)"
  using assigning_miss unfolding loop_ok_def by blast

lemma loop_ok_rm:
  assumes inv: "sc_inv s" and n: "n \<noteq> 0" and l: "loop_ok now n t s v rm s'" and st: "find_state i s' = Some st" "i \<in> knows (peer_at n s)" "fst i = t"
    and e: "st_nAssigned st = 0 \<and> inv_timeout now st \<or> st_nAssigned st \<noteq> 0 \<and> st_IsReceived st \<and> now \<ge> st_nClearObjTime st"
  shows "loop_ok now n t s v (sins i rm) s'"
proof -
  have "find_state i s = Some st" using assigning_unassigned[OF inv loop_okD(1)[OF l] st(1) n] e by blast
  then have "expired now n s i" using st(2) e by (auto simp: expired_def)
  then show ?thesis using l st(3) by (auto simp: loop_ok_def)
qed

lemma loop_ok_ask:
  assumes n: "n \<noteq> 0" and l: "loop_ok now n t s v rm s'" and st: "find_state i s' = Some st" "i \<in> knows (peer_at n s)" "fst i = t"
    and e: "st_nAssigned st = 0" "\<not> inv_timeout now st"
  shows "loop_ok now n t s (v @ [i]) rm (assign_inv n i st s')"
  using assigning_step[OF loop_okD(1)[OF l] st(1) e n st(2)] l st(3) by (auto simp: loop_ok_def)

lemma loop_ok_knows: "loop_ok now n t s v rm s' \<Longrightarrow> knows (peer_at m s') = knows (peer_at m s)"
  using assigningD(6) loop_okD(1) by blast

lemma miss_loop_spec:
  assumes inv: "sc_inv s" and n: "n \<noteq> 0"
  shows "loop_ok now n t s v rm s0 \<Longrightarrow> (\<And>i. i \<in> set l \<Longrightarrow> fst i = t) \<Longrightarrow> length v < max 1 nMax \<Longrightarrow>
    miss_loop now n nMax l (v, rm, s0) = (v', rm', s') \<Longrightarrow> loop_ok now n t s v' rm' s' \<and> length v' \<le> max 1 nMax"
proof (induction l arbitrary: v rm s0)
  case (Cons i l)
  note ty = Cons.prems(2)[of i, simplified] and tl = Cons.prems(2)[OF list.set_intros(2)]
  show ?case
  proof (cases "find_state i s0")
    case None
    show ?thesis by (rule Cons.IH[OF loop_ok_miss[OF Cons.prems(1)] tl Cons.prems(3)]) (use Cons.prems(4) None in simp_all)
  next
    case (Some st)
    have k: "ip_KnownInvExists i (peer_at n s0) \<longleftrightarrow> i \<in> knows (peer_at n s)"
      using loop_ok_knows[OF Cons.prems(1)] by (simp add: KnownInvExists_knows)
    consider (skip) "\<not> (st_nAssigned st = 0 \<and> i \<in> knows (peer_at n s))"
      | (rm) "st_nAssigned st = 0" "i \<in> knows (peer_at n s)" "inv_timeout now st"
      | (ask) "st_nAssigned st = 0" "i \<in> knows (peer_at n s)" "\<not> inv_timeout now st" by blast
    then show ?thesis
    proof cases
      case skip
      show ?thesis by (rule Cons.IH[OF Cons.prems(1) tl Cons.prems(3)]) (use Cons.prems(4) Some k skip in \<open>simp_all split: if_splits\<close>)
    next
      case rm
      have "loop_ok now n t s v (sins i rm) s0" using loop_ok_rm[OF inv n Cons.prems(1) Some rm(2) ty] rm by blast
      then show ?thesis by (rule Cons.IH[OF _ tl Cons.prems(3)]) (use Cons.prems(4) Some k rm in simp_all)
    next
      case ask
      note st = loop_ok_ask[OF n Cons.prems(1) Some ask(2) ty ask(1,3)]
      show ?thesis
      proof (cases "length (v @ [i]) \<ge> nMax")
        case True
        then have "v' = v @ [i]" "rm' = rm" "s' = assign_inv n i st s0" using Cons.prems(4) Some k ask by simp_all
        then show ?thesis using st Cons.prems(3) by simp
      next
        case False
        show ?thesis by (rule Cons.IH[OF st tl]) (use Cons.prems(4) Some k ask False in simp_all)
      qed
    qed
  qed
qed simp

definition taken :: "'p sched \<Rightarrow> inv \<Rightarrow> bool" where
  "taken s i \<longleftrightarrow> (\<exists>st. find_state i s = Some st \<and> st_nAssigned st \<noteq> 0)"

text \<open>The second loop: without an early exit every listed item has been asked for, is to be removed, or
  was assigned before; the count is at most the number of items that have arrived.\<close>

definition known_done :: "int \<Rightarrow> u64 \<Rightarrow> inv_type \<Rightarrow> 'p sched \<Rightarrow> nat \<Rightarrow> u256 list \<Rightarrow> nat \<Rightarrow> inv list \<Rightarrow> inv list \<Rightarrow> inv list \<Rightarrow> inv list \<Rightarrow> nat \<Rightarrow> bool" where
  "known_done now n t s nMax l k v rm v' rm' k' \<longleftrightarrow> length v' \<le> nMax \<and> k' \<le> k + length (filter (\<lambda>h. arrived now s (t, h)) l)
     \<and> set v \<subseteq> set v' \<and> set rm \<subseteq> set rm'
     \<and> (length v' < nMax \<longrightarrow> (\<forall>h \<in> set l. (t, h) \<in> set v' \<union> set rm' \<or> taken s (t, h)))"

lemma known_done_skip:
  assumes "known_done now n t s nMax l k v1 rm1 v' rm' k'" "set v \<subseteq> set v1" "set rm \<subseteq> set rm1"
    "(t, h) \<in> set v1 \<union> set rm1 \<or> taken s (t, h)"
  shows "known_done now n t s nMax (h # l) k v rm v' rm' k'"
  using assms unfolding known_done_def by auto

lemma known_done_arrived:
  assumes "known_done now n t s nMax l (Suc k) v rm v' rm' k'" "arrived now s (t, h)"
  shows "known_done now n t s nMax (h # l) k v rm v' rm' k'"
  using assms unfolding known_done_def by (auto simp: arrived_def taken_def)

lemma known_loop_spec:
  assumes inv: "sc_inv s" and n: "n \<noteq> 0"
  shows "loop_ok now n t s v rm s0 \<Longrightarrow> (\<And>h. h \<in> set l \<Longrightarrow> (t, h) \<in> knows (peer_at n s)) \<Longrightarrow> length v < nMax \<Longrightarrow>
    known_loop now n t nMax l (v, rm, rp, k, s0) = (v', rm', rp', k', s') \<Longrightarrow>
    loop_ok now n t s v' rm' s' \<and> rp' = rp \<and> known_done now n t s nMax l k v rm v' rm' k'"
proof (induction l arbitrary: v rm k s0)
  case Nil
  then show ?case by (auto simp: known_done_def)
next
  case (Cons h l)
  let ?i = "(t, h)"
  note kn = Cons.prems(2)[OF list.set_intros(1)] and tl = Cons.prems(2)[OF list.set_intros(2)]
  note a = loop_okD(1)[OF Cons.prems(1)]
  obtain st0 where "find_state ?i s = Some st0" using sc_invD(7)[OF inv kn] by blast
  then obtain st where Some: "find_state ?i s0 = Some st" using assigningD(4)[OF a, of ?i] by (cases "?i \<in> set v") auto
  consider (rm) "st_nAssigned st = 0 \<and> inv_timeout now st \<or> st_nAssigned st \<noteq> 0 \<and> st_IsReceived st \<and> now \<ge> st_nClearObjTime st"
    | (ask) "st_nAssigned st = 0" "\<not> inv_timeout now st"
    | (got) "st_nAssigned st \<noteq> 0" "st_IsReceived st" "\<not> now \<ge> st_nClearObjTime st"
    | (wait) "st_nAssigned st \<noteq> 0" "\<not> st_IsReceived st" by blast
  then show ?case
  proof cases
    case rm
    note lo = loop_ok_rm[OF inv n Cons.prems(1) Some kn _ rm, simplified]
    have "known_loop now n t nMax l (v, sins ?i rm, rp, k, s0) = (v', rm', rp', k', s')"
      using Cons.prems(4) Some rm by auto
    note ih = Cons.IH[OF lo tl Cons.prems(3) this]
    then show ?thesis using known_done_skip[of now n t s nMax l k v "sins ?i rm" v' rm' k' v rm h] by auto
  next
    case ask
    note lo = loop_ok_ask[OF n Cons.prems(1) Some kn _ ask, simplified]
    show ?thesis
    proof (cases "length (v @ [?i]) \<ge> nMax")
      case True
      then have "v' = v @ [?i]" "rm' = rm" "s' = assign_inv n ?i st s0" "k' = k" "rp' = rp" using Cons.prems(4) Some ask by simp_all
      then show ?thesis using lo True Cons.prems(3) by (auto simp: known_done_def)
    next
      case False
      have "known_loop now n t nMax l (v @ [?i], rm, rp, k, assign_inv n ?i st s0) = (v', rm', rp', k', s')"
        using Cons.prems(4) Some ask False by simp
      note ih = Cons.IH[OF lo tl _ this]
      then show ?thesis using False known_done_skip[of now n t s nMax l k "v @ [?i]" rm v' rm' k' v rm h] by auto
    qed
  next
    case got
    have "arrived now s ?i" using assigning_unassigned[OF inv a Some n] got by (auto simp: arrived_def)
    moreover have "known_loop now n t nMax l (v, rm, rp, Suc k, s0) = (v', rm', rp', k', s')" using Cons.prems(4) Some got by simp
    ultimately show ?thesis using Cons.IH[OF Cons.prems(1) tl Cons.prems(3)] known_done_arrived by blast
  next
    case wait
    have "?i \<in> set v \<or> taken s ?i"
      using trans[OF Some[symmetric] assigningD(4)[OF a, of ?i]] wait(1) unfolding taken_def by (metis (full_types))
    moreover have "known_loop now n t nMax l (v, rm, rp, k, s0) = (v', rm', rp', k', s')" using Cons.prems(4) Some wait by simp
    ultimately show ?thesis using Cons.IH[OF Cons.prems(1) tl Cons.prems(3)] known_done_skip[of now n t s nMax l k v rm v' rm' k' v rm h] by auto
  qed
qed

lemma remove_inv_quiet_spec:
  assumes "sc_inv s"
  shows "\<exists>s'. remove_inv_quiet i s = Inr s' \<and> sc_inv s' \<and> forgotten {i} s s'"
  using RemoveInv_spec[OF assms, of i "[]"] by (auto simp: remove_inv_quiet_def)

lemma each_remove_inv_quiet: "sc_inv s \<Longrightarrow> \<exists>s'. each_res remove_inv_quiet l s = Inr s' \<and> sc_inv s' \<and> forgotten (set l) s s'"
proof (induction l arbitrary: s)
  case (Cons i l)
  obtain s1 where 1: "remove_inv_quiet i s = Inr s1" "sc_inv s1" "forgotten {i} s s1" using remove_inv_quiet_spec[OF Cons.prems] by blast
  obtain s2 where 2: "each_res remove_inv_quiet l s1 = Inr s2" "sc_inv s2" "forgotten (set l) s1 s2" using Cons.IH[OF 1(2)] by blast
  then show ?case using 1 forgotten_trans[OF 1(3) 2(3)] by simp
qed (simp add: forgotten_refl)

text \<open>The outcome of one scheduling round for peer \<open>n\<close> and one type.\<close>

definition round_ok :: "int \<Rightarrow> u64 \<Rightarrow> inv_type \<Rightarrow> nat \<Rightarrow> 'p sched \<Rightarrow> bool \<Rightarrow> inv list \<Rightarrow> bool \<Rightarrow> 'p sched \<Rightarrow> bool" where
  "round_ok now n t nMax s ret v fAll s' \<longleftrightarrow>
     distinct v \<and> length v \<le> max 1 nMax \<and> (\<forall>i \<in> set v. fst i = t \<and> fetchable now n s i)
     \<and> (\<forall>j. find_state j s' = None \<and> fst j = t \<and> expired now n s j
          \<or> find_state j s' = (if j \<in> set v then map_option (asked n) (find_state j s) else find_state j s))
     \<and> (length v < nMax \<longrightarrow> (\<forall>i \<in> knows (peer_at n s'). fst i = t \<longrightarrow> taken s' i))
     \<and> (fAll \<longrightarrow> (\<forall>i \<in> knows (peer_at n s'). fst i = t \<longrightarrow> (\<exists>st. find_state i s' = Some st \<and> st_IsReceived st)))
     \<and> (ret \<longleftrightarrow> v \<noteq> [] \<or> \<not> (\<exists>i \<in> knows (peer_at n s'). fst i = t))"

lemma knows_list: "(t, h) \<in> knows p \<longleftrightarrow> h \<in> set (ip_GetKnownList t p)"
  by (simp add: knows_def)

lemma fetchable_not_expired: "fetchable now n s i \<Longrightarrow> \<not> expired now n s i"
  by (auto simp: fetchable_def expired_def)

lemma arrived_not_expired: "arrived now s i \<Longrightarrow> \<not> expired now n s i"
  by (auto simp: arrived_def expired_def)

lemma arrived_not_fetchable: "arrived now s i \<Longrightarrow> \<not> fetchable now n s i"
  by (auto simp: arrived_def fetchable_def)

text \<open>Counting: when as many items have arrived as are left in the list, every item left has arrived.\<close>

lemma all_arrived:
  assumes d: "distinct L" "distinct L'" and sub: "set L' \<subseteq> set L" "\<And>h. h \<in> set L \<Longrightarrow> P h \<Longrightarrow> h \<in> set L'"
    and k: "k \<le> length (filter P L)" "k = length L'" and h: "h \<in> set L'"
  shows "P h"
proof -
  have "set (filter P L) \<subseteq> set L'" using sub(2) by auto
  moreover have "card (set L') \<le> card (set (filter P L))" using d k by (simp add: distinct_card del: set_filter)
  ultimately have "set (filter P L) = set L'" by (intro card_seteq) auto
  then show ?thesis using h by auto
qed

lemma forgottenD:
  assumes "forgotten I s s'"
  shows "find_state j s' = (if j \<in> I then None else find_state j s)" "knows (peer_at n s') = knows (peer_at n s) - I"
  using assms unfolding forgotten_def by blast+

lemma round_finish:
  assumes inv: "sc_inv s" and n: "n \<noteq> 0" and lo: "loop_ok now n t s v rm s2" and len: "length v \<le> max 1 nMax"
    and rm: "forgotten (set rm) s2 s3" "sc_inv s3"
    and k: "k \<le> length (filter (\<lambda>h. arrived now s (t, h)) (ip_GetKnownList t (peer_at n s)))"
    and all: "\<And>h. length v < nMax \<Longrightarrow> h \<in> set (ip_GetKnownList t (peer_at n s)) \<Longrightarrow> (t, h) \<in> set v \<union> set rm \<or> taken s (t, h)"
  shows "round_ok now n t nMax s (v \<noteq> [] \<or> ip_GetKnownList t (peer_at n s3) = []) v
     (k = length (ip_GetKnownList t (peer_at n s3)) \<and> k \<noteq> 0) s3"
proof -
  note a = loop_okD(1)[OF lo]
  let ?L = "ip_GetKnownList t (peer_at n s)" and ?L' = "ip_GetKnownList t (peer_at n s3)"
  have ST: "find_state j s3 = (if j \<in> set rm then None else if j \<in> set v then map_option (asked n) (find_state j s) else find_state j s)" for j
    unfolding forgottenD(1)[OF rm(1)] assigningD(4)[OF a, of j] by simp
  have K: "knows (peer_at n s3) = knows (peer_at n s) - set rm" unfolding forgottenD(2)[OF rm(1)] assigningD(6)[OF a] by simp
  have L': "h \<in> set ?L' \<longleftrightarrow> h \<in> set ?L \<and> (t, h) \<notin> set rm" for h unfolding knows_list[symmetric] K by simp
  have dist: "distinct ?L" "distinct ?L'" using sc_invD(6)[OF inv, of n] sc_invD(6)[OF rm(2), of n] by (auto simp: ip_ok_def ip_wf_def)
  have "taken s3 i" if nm: "length v < nMax" and ki: "i \<in> knows (peer_at n s3)" and ti: "fst i = t" for i
  proof -
    obtain h where i: "i = (t, h)" using ti by (cases i) auto
    have "i \<in> set v \<or> taken s i" "i \<notin> set rm" using all[OF nm, of h] ki K i by (auto simp: knows_list)
    then show ?thesis using assigningD(3)[OF a, of i] n unfolding taken_def ST fetchable_def by (auto simp: asked_def)
  qed
  moreover have "\<exists>st. find_state i s3 = Some st \<and> st_IsReceived st" if nm: "k = length ?L'" and ki: "i \<in> knows (peer_at n s3)" and ti: "fst i = t" for i
  proof -
    obtain h where i: "i = (t, h)" using ti by (cases i) auto
    have "arrived now s (t, h)"
    proof (rule all_arrived[OF dist _ _ k nm])
      show "h \<in> set ?L'" using ki by (simp add: i knows_list)
    qed (use L' arrived_not_expired loop_okD(2)[OF lo] in blast)+
    then show ?thesis using ki K arrived_not_fetchable[of now s i n] assigningD(3)[OF a, of i] unfolding ST by (auto simp: i arrived_def)
  qed
  moreover have "?L' = [] \<longleftrightarrow> \<not> (\<exists>i \<in> knows (peer_at n s3). fst i = t)" by (auto simp: knows_def simp flip: set_empty)
  moreover have "find_state j s3 = None \<and> fst j = t \<and> expired now n s j
      \<or> find_state j s3 = (if j \<in> set v then map_option (asked n) (find_state j s) else find_state j s)" for j
    using loop_okD(2,4)[OF lo, of j] unfolding ST by (cases "j \<in> set rm") simp_all
  ultimately show ?thesis unfolding round_ok_def
    using len assigningD(2)[OF a] assigningD(3)[OF a] loop_okD(3)[OF lo] by blast
qed

lemma ScheduleKnownInv_spec:
  assumes inv: "sc_inv s" and n: "n \<noteq> 0"
  shows "\<exists>ret v fAll s'. sc_ScheduleKnownInv now n t nMax s = Inr (ret, v, fAll, s') \<and> sc_inv s' \<and> round_ok now n t nMax s ret v fAll s'"
proof -
  define m where "m = (if t = MSG_TX \<and> sc_setMissPrevTxInv s \<noteq> []
      then miss_loop now n nMax (sc_setMissPrevTxInv s) ([], [], s) else ([], [], s))"
  obtain v1 rm1 s1 where m1: "m = (v1, rm1, s1)" by (cases m)
  have l0: "loop_ok now n t s [] [] s" using assigning_refl[OF inv] by (simp add: loop_ok_def)
  have l1: "loop_ok now n t s v1 rm1 s1 \<and> length v1 \<le> max 1 nMax"
  proof (cases "t = MSG_TX \<and> sc_setMissPrevTxInv s \<noteq> []")
    case True
    then show ?thesis using m1 sc_invD(5)[OF inv] by (intro miss_loop_spec[OF inv n l0]) (auto simp: m_def)
  next
    case False
    then show ?thesis using m1 l0 by (auto simp: m_def)
  qed
  let ?L = "ip_GetKnownList t (peer_at n s)"
  have L: "ip_GetKnownList t (peer_at n s1) = ?L" using assigningD(5)[OF loop_okD(1)] l1 by blast
  define q where "q = (if length v1 < nMax then known_loop now n t nMax ?L (v1, rm1, [], 0, s1) else (v1, rm1, [], 0, s1))"
  obtain v2 rm2 rp k s2 where q2: "q = (v2, rm2, rp, k, s2)" by (cases q)
  have l2: "loop_ok now n t s v2 rm2 s2 \<and> rp = [] \<and> length v2 \<le> max 1 nMax \<and> k \<le> length (filter (\<lambda>h. arrived now s (t, h)) ?L)
      \<and> (length v2 < nMax \<longrightarrow> (\<forall>h \<in> set ?L. (t, h) \<in> set v2 \<union> set rm2 \<or> taken s (t, h)))"
  proof (cases "length v1 < nMax")
    case True
    then have "known_loop now n t nMax ?L (v1, rm1, [], 0, s1) = (v2, rm2, rp, k, s2)" using q2 by (simp add: q_def)
    then show ?thesis using known_loop_spec[OF inv n conjunct1[OF l1], of ?L nMax "[]" 0] True by (auto simp: knows_list known_done_def)
  qed (use q2 l1 in \<open>auto simp: q_def\<close>)
  have "sc_inv s2" using assigningD(1)[OF loop_okD(1)] l2 by blast
  then obtain s3 where s3: "each_res remove_inv_quiet rm2 s2 = Inr s3" "sc_inv s3" "forgotten (set rm2) s2 s3"
    using each_remove_inv_quiet by blast
  have "sc_ScheduleKnownInv now n t nMax s = Inr (v2 \<noteq> [] \<or> ip_GetKnownList t (peer_at n s3) = [], v2,
      k = length (ip_GetKnownList t (peer_at n s3)) \<and> k \<noteq> 0, s3)"
    unfolding sc_ScheduleKnownInv_def m_def[symmetric] m1 prod.case Let_def L q_def[symmetric] q2 using s3(1) l2 by simp
  then show ?thesis using round_finish[OF inv n _ _ s3(3,2)] s3(2) l2 by blast
qed

lemma ScheduleBlockInv_inv:
  assumes inv: "sc_inv s" and n: "n \<noteq> 0"
  shows "\<exists>x. sc_ScheduleBlockInv now n v0 nMax s = Inr x \<and> sc_inv (snd (snd (snd (snd x))))"
proof (cases "map_of (sc_mapPeer s) n")
  case (Some p)
  obtain ret v fAll s1 where r: "sc_ScheduleKnownInv now n MSG_BLOCK nMax s = Inr (ret, v, fAll, s1)" "sc_inv s1"
    using ScheduleKnownInv_spec[OF inv n] by blast
  obtain b s2 where c: "sc_CheckAddInvIdleLocation n MSG_BLOCK s1 = (b, s2)" by (cases "sc_CheckAddInvIdleLocation n MSG_BLOCK s1")
  show ?thesis using Some inv r c CheckAddInvIdleLocation_inv[OF r(2) c] by (simp add: sc_ScheduleBlockInv_def Let_def del: split_paired_Ex)
qed (simp add: sc_ScheduleBlockInv_def inv del: split_paired_Ex)

lemma ScheduleTxInv_inv:
  assumes inv: "sc_inv s" and n: "n \<noteq> 0"
  shows "\<exists>x. sc_ScheduleTxInv now n v0 nMax f0 s = Inr x \<and> sc_inv (snd (snd (snd x)))"
proof (cases "map_of (sc_mapPeer s) n")
  case (Some p)
  obtain ret v fAll s1 where r: "sc_ScheduleKnownInv now n MSG_TX nMax s = Inr (ret, v, fAll, s1)" "sc_inv s1"
    using ScheduleKnownInv_spec[OF inv n] by blast
  then show ?thesis using Some inv by (simp add: sc_ScheduleTxInv_def del: split_paired_Ex)
qed (simp add: sc_ScheduleTxInv_def inv del: split_paired_Ex)

lemma sc_inv_new: "sc_inv sc_new"
  by (simp add: sc_inv_def sc_view_def view_ok_def sc_rep_def sc_new_def peer_at_def)

end
