(* ===== verification/Schedule_Run.thy ===== *)
theory Schedule_Run
  imports Schedule_Inv
begin

text \<open>
  The runs of the scheduler: any sequence of calls of its member functions, from an empty schedule. The
  nonce of a peer is not 0, the value that stands for "not assigned", and the items whose
  predecessors are looked up (\<^verbatim>\<open>CheckPrevTxInv\<close>) are transactions, as in \<^verbatim>\<open>CNetChannel\<close>. The properties
  of the scheduler are stated for every state such a run reaches.
\<close>

inductive sc_reach :: "'p sched \<Rightarrow> bool" where
  start: "sc_reach sc_new"
| check_prev: "sc_reach s \<Longrightarrow> fst i = MSG_TX \<Longrightarrow> sc_reach (snd (sc_CheckPrevTxInv i s))"
| idle: "sc_reach s \<Longrightarrow> sc_reach (snd (sc_CheckAddInvIdleLocation n t s))"
| add: "sc_reach s \<Longrightarrow> sc_reach (snd (sc_AddNewInv now i n s))"
| remove: "sc_reach s \<Longrightarrow> sc_RemoveInv i ks s = Inr (b, ks', s') \<Longrightarrow> sc_reach s'"
| remove_peer: "sc_reach s \<Longrightarrow> n \<noteq> 0 \<Longrightarrow> sc_RemovePeer n ks s = Inr (ks', s') \<Longrightarrow> sc_reach s'"
| receive_block: "sc_reach s \<Longrightarrow> n \<noteq> 0 \<Longrightarrow> sc_reach (snd (snd (sc_ReceiveBlock now n h blk ks s)))"
| receive_tx: "sc_reach s \<Longrightarrow> n \<noteq> 0 \<Longrightarrow> sc_reach (snd (snd (sc_ReceiveTx now n h tx ks s)))"
| orphan_block: "sc_reach s \<Longrightarrow> sc_reach (sc_AddOrphanBlockPrev h p s)"
| orphan_tx: "sc_reach s \<Longrightarrow> sc_reach (sc_AddOrphanTxPrev h p s)"
| invalid_block: "sc_reach s \<Longrightarrow> sc_InvalidateBlock h ks s = Inr (ks', s') \<Longrightarrow> sc_reach s'"
| invalid_tx: "sc_reach s \<Longrightarrow> sc_InvalidateTx h ks s = Inr (ks', s') \<Longrightarrow> sc_reach s'"
| sched_block: "sc_reach s \<Longrightarrow> n \<noteq> 0 \<Longrightarrow> sc_ScheduleBlockInv now n v nMax s = Inr x \<Longrightarrow> sc_reach (snd (snd (snd (snd x))))"
| sched_tx: "sc_reach s \<Longrightarrow> n \<noteq> 0 \<Longrightarrow> sc_ScheduleTxInv now n v nMax f s = Inr y \<Longrightarrow> sc_reach (snd (snd (snd y)))"
| cancel: "sc_reach s \<Longrightarrow> n \<noteq> 0 \<Longrightarrow> sc_CancelAssignedInv n i s = Inr (b, s') \<Longrightarrow> sc_reach s'"
| depth: "sc_reach s \<Longrightarrow> sc_reach (sc_SetLocatorDepthHash n h s)"
| locator: "sc_reach s \<Longrightarrow> sc_reach (sc_SetLocatorInvBlockHash n k hb hn s)"
| next_time: "sc_reach s \<Longrightarrow> sc_reach (sc_SetNextGetBlocksTime now n w s)"
| repeat_block: "sc_reach s \<Longrightarrow> sc_reach (snd (sc_SetRepeatBlock now n h s))"
| add_ref: "sc_reach s \<Longrightarrow> sc_reach (sc_AddRefBlock hr hf hb s)"
| remove_ref: "sc_reach s \<Longrightarrow> sc_reach (sc_RemoveRefBlock h s)"
| delay: "sc_reach s \<Longrightarrow> sc_reach (snd (sc_SetDelayedClear now i w s))"
| cache: "sc_reach s \<Longrightarrow> sc_reach (snd (snd (sc_AddCacheLocalPoaBlock H blk f s)))"
| uncache: "sc_reach s \<Longrightarrow> sc_reach (sc_RemoveCacheLocalPoaBlock H h s)"
| unheight: "sc_reach s \<Longrightarrow> sc_reach (sc_RemoveHeightBlock k h s)"
| verified: "sc_reach s \<Longrightarrow> sc_reach (sc_SetPoaBlockVerifyState h f s)"

lemma sc_reach_inv: "sc_reach s \<Longrightarrow> sc_inv s"
proof (induction rule: sc_reach.induct)
  case (idle s n t)
  then show ?case using CheckAddInvIdleLocation_inv[of s n t] by (cases "sc_CheckAddInvIdleLocation n t s") auto
next
  case (remove s i ks b ks' s')
  then show ?case using RemoveInv_spec[of s i ks] by auto
next
  case (remove_peer s n ks ks' s')
  then show ?case using RemovePeer_spec[of s n ks] by auto
next
  case (invalid_block s h ks ks' s')
  then show ?case using InvalidateBlock_spec[OF _ refl, of s h ks] by auto
next
  case (invalid_tx s h ks ks' s')
  then show ?case using InvalidateTx_spec[OF _ refl, of s h ks] by auto
next
  case (sched_block s n now v nMax x)
  then show ?case using ScheduleBlockInv_inv[of s n now v nMax] by (auto simp del: split_paired_Ex)
next
  case (sched_tx s n now v nMax f y)
  then show ?case using ScheduleTxInv_inv[of s n now v nMax f] by (auto simp del: split_paired_Ex)
next
  case (cancel s n i b s')
  then show ?case using CancelAssignedInv_spec[of s n i] by auto
qed (simp_all add: sc_inv_new CheckPrevTxInv_inv AddNewInv_inv ReceiveBlock_inv ReceiveTx_inv settings_inv cache_inv)

lemma sc_GetBlock_safe: "sc_inv s \<Longrightarrow> \<exists>r. sc_GetBlock h s = Inr r"
  and sc_GetTransaction_safe: "sc_inv s \<Longrightarrow> \<exists>r. sc_GetTransaction h s = Inr r"
  using sc_invD(1)[of s "(MSG_BLOCK, h)"] sc_invD(1)[of s "(MSG_TX, h)"]
  by (auto simp: sc_GetBlock_def sc_GetTransaction_def st_ok_def split: option.split inv_object.split)

lemma cached_loop_safe: "sc_inv s \<Longrightarrow> \<exists>r. cached_loop h s v = Inr r"
  using sc_GetBlock_safe[of s h] by (induction v) auto

section \<open>Properties\<close>

text \<open>(C2) In every reachable state the two sides of the bookkeeping agree: a peer's list has an item exactly when
  the item's state names the peer, and a peer has been asked for an item exactly when the item is assigned to
  it and has not arrived; so an item is fetched from one peer at a time. Every state is known to some peer,
  among them the one it is assigned to, and the limits on items, items per peer and requests hold.\<close>

theorem schedule_agreement:
  assumes "sc_reach s"
  shows "(ip_KnownInvExists i (peer_at n s) \<longleftrightarrow> (\<exists>st. find_state i s = Some st \<and> n \<in> set (st_setKnownPeer st)))
    \<and> (snd i \<in> set (ip_GetAssigned (fst i) (peer_at n s))
         \<longleftrightarrow> n \<noteq> 0 \<and> (\<exists>st. find_state i s = Some st \<and> st_nAssigned st = n \<and> \<not> st_IsReceived st))
    \<and> (\<forall>st. find_state i s = Some st \<longrightarrow> st_setKnownPeer st \<noteq> []
         \<and> (st_nAssigned st \<noteq> 0 \<longrightarrow> st_nAssigned st \<in> set (st_setKnownPeer st))
         \<and> (st_IsReceived st \<longrightarrow> st_nAssigned st \<noteq> 0) \<and> st_nGetDataCount st \<le> MAX_REGETDATA_COUNT)
    \<and> length (sc_mapState s) \<le> MAX_INV_COUNT \<and> ip_GetCount t (peer_at n s) \<le> peer_limit t"
proof -
  have inv: "sc_inv s" by (rule sc_reach_inv[OF assms])
  have rc: "st_IsReceived st \<longleftrightarrow> st_objReceived st \<noteq> Obj_Nil" for st :: "'a inv_state" by (auto simp: st_IsReceived_def split: inv_object.splits)
  have "snd i \<in> set (ip_GetAssigned (fst i) (peer_at n s)) \<longleftrightarrow> i \<in> owes (peer_at n s)" by (simp add: owes_def)
  also have "\<dots> \<longleftrightarrow> n \<noteq> 0 \<and> (\<exists>st. find_state i s = Some st \<and> st_nAssigned st = n \<and> \<not> st_IsReceived st)"
    using sc_invD(9,10)[OF inv, of i] rc by blast
  finally have 1: "snd i \<in> set (ip_GetAssigned (fst i) (peer_at n s)) \<longleftrightarrow>
      n \<noteq> 0 \<and> (\<exists>st. find_state i s = Some st \<and> st_nAssigned st = n \<and> \<not> st_IsReceived st)" .
  have 2: "ip_KnownInvExists i (peer_at n s) \<longleftrightarrow> (\<exists>st. find_state i s = Some st \<and> n \<in> set (st_setKnownPeer st))"
    using sc_invD(7,8)[OF inv, of i] unfolding KnownInvExists_knows by blast
  have 3: "st_setKnownPeer st \<noteq> [] \<and> (st_nAssigned st \<noteq> 0 \<longrightarrow> st_nAssigned st \<in> set (st_setKnownPeer st))
      \<and> (st_IsReceived st \<longrightarrow> st_nAssigned st \<noteq> 0) \<and> st_nGetDataCount st \<le> MAX_REGETDATA_COUNT" if "find_state i s = Some st" for st
    using sc_invD(1)[OF inv that] by (auto simp: st_ok_def rc split: inv_object.splits)
  show ?thesis using 1 2 3 sc_invD(2,6)[OF inv] by (simp add: sc_rep_def ip_ok_def)
qed

text \<open>(C5) No call throws: in every reachable state an object taken out of the variant has the type it is taken as,
  so the look-ups and every operation that uses them return.\<close>

theorem schedule_no_throw:
  assumes "sc_reach s" and "n \<noteq> 0"
  shows "(\<exists>r. sc_GetBlock h s = Inr r) \<and> (\<exists>r. sc_GetTransaction h s = Inr r) \<and> (\<exists>r. sc_RemoveInv i ks s = Inr r)
    \<and> (\<exists>r. sc_RemovePeer n ks s = Inr r) \<and> (\<exists>r. sc_InvalidateBlock h ks s = Inr r) \<and> (\<exists>r. sc_InvalidateTx h ks s = Inr r)
    \<and> (\<exists>r. sc_CancelAssignedInv n i s = Inr r) \<and> (\<exists>r. sc_ScheduleBlockInv now n v nMax s = Inr r)
    \<and> (\<exists>r. sc_ScheduleTxInv now n v nMax f s = Inr r) \<and> (\<exists>r. sc_GetCachePoaBlock H h s = Inr r)
    \<and> (\<exists>r. sc_CheckCachePoaBlockState h s = Inr r)"
proof -
  have inv: "sc_inv s" by (rule sc_reach_inv[OF assms(1)])
  have "\<exists>r. sc_GetCachePoaBlock H h s = Inr r" using sc_GetBlock_safe[OF inv, of h]
    by (auto simp: sc_GetCachePoaBlock_def split: option.split list.split)
  moreover have "\<exists>r. sc_CheckCachePoaBlockState h s = Inr r" using cached_loop_safe[OF inv]
    by (auto simp: sc_CheckCachePoaBlockState_def split: option.split)
  ultimately show ?thesis
    using sc_GetBlock_safe[OF inv] sc_GetTransaction_safe[OF inv] RemoveInv_spec[OF inv] RemovePeer_spec[OF inv assms(2)]
      InvalidateBlock_spec[OF inv refl] InvalidateTx_spec[OF inv refl] CancelAssignedInv_spec[OF inv assms(2)]
      ScheduleBlockInv_inv[OF inv assms(2)] ScheduleTxInv_inv[OF inv assms(2)] by meson
qed

text \<open>(C19) One scheduling round for a peer and a type. The items returned are different, of that type, at most
  \<open>nMax\<close> of them, each known to the peer and free before, and now assigned to it with one more request; apart
  from them a state is unchanged, or it had expired and is gone. When fewer than \<open>nMax\<close> items are
  returned, no item the peer knows is left unassigned; when the round reports that all is received, it is.\<close>

theorem schedule_round:
  assumes "sc_reach s" and "n \<noteq> 0"
  shows "\<exists>ret v fAll s'. sc_ScheduleKnownInv now n t nMax s = Inr (ret, v, fAll, s')
    \<and> distinct v \<and> length v \<le> max 1 nMax
    \<and> (\<forall>i \<in> set v. fst i = t \<and> fetchable now n s i)
    \<and> (\<forall>j. find_state j s' = None \<and> fst j = t \<and> expired now n s j
         \<or> find_state j s' = (if j \<in> set v then map_option (asked n) (find_state j s) else find_state j s))
    \<and> (length v < nMax \<longrightarrow> (\<forall>h \<in> set (ip_GetKnownList t (peer_at n s')). taken s' (t, h)))
    \<and> (fAll \<longrightarrow> (\<forall>h \<in> set (ip_GetKnownList t (peer_at n s')). \<exists>st. find_state (t, h) s' = Some st \<and> st_IsReceived st))
    \<and> (ret \<longleftrightarrow> v \<noteq> [] \<or> ip_GetKnownList t (peer_at n s') = [])"
proof -
  obtain ret v fAll s' where r: "sc_ScheduleKnownInv now n t nMax s = Inr (ret, v, fAll, s')" "round_ok now n t nMax s ret v fAll s'"
    using ScheduleKnownInv_spec[OF sc_reach_inv[OF assms(1)] assms(2)] by blast
  have L: "(\<exists>i \<in> knows (peer_at n s'). fst i = t) \<longleftrightarrow> ip_GetKnownList t (peer_at n s') \<noteq> []"
    by (auto simp: knows_def simp flip: set_empty)
  have B: "(\<forall>i \<in> knows (peer_at n s'). fst i = t \<longrightarrow> P i) \<longleftrightarrow> (\<forall>h \<in> set (ip_GetKnownList t (peer_at n s')). P (t, h))" for P
    by (auto simp: knows_def)
  show ?thesis by (intro exI conjI, rule r(1)) (use r(2)[unfolded round_ok_def B L] in simp_all)
qed

text \<open>(C20) An invalid block takes its branch with it: the block and every block that waits for it, directly or not,
  are forgotten by the schedule and by every peer, nothing else is, and the peers reported as misbehaving are those that
  knew one of them.\<close>

theorem schedule_invalidate:
  assumes "sc_reach s" and "D = insert h {x. (h, x) \<in> (set (mapOrphanByPrev (sc_orphanBlock s)))\<^sup>+}"
  shows "\<exists>ks' s'. sc_InvalidateBlock h ks s = Inr (ks', s')
    \<and> (\<forall>j. find_state j s' = (if fst j = MSG_BLOCK \<and> snd j \<in> D then None else find_state j s))
    \<and> (\<forall>n j. ip_KnownInvExists j (peer_at n s') \<longleftrightarrow> ip_KnownInvExists j (peer_at n s) \<and> \<not> (fst j = MSG_BLOCK \<and> snd j \<in> D))
    \<and> (\<forall>n. n \<in> set ks' \<longleftrightarrow> n \<in> set ks \<or> (\<exists>x \<in> D. ip_KnownInvExists (MSG_BLOCK, x) (peer_at n s)))"
proof -
  obtain ks' s' where r: "sc_InvalidateBlock h ks s = Inr (ks', s')" "forgotten (Pair MSG_BLOCK ` D) s s'"
      "set ks' = set ks \<union> known_peers s (Pair MSG_BLOCK ` D)"
    using InvalidateBlock_spec[OF sc_reach_inv[OF assms(1)], of D h ks] assms(2) by (auto simp: waits_def)
  have D: "j \<in> Pair MSG_BLOCK ` D \<longleftrightarrow> fst j = MSG_BLOCK \<and> snd j \<in> D" for j by (cases j) auto
  show ?thesis
  proof (intro exI conjI allI, rule r(1))
    fix j n
    show "find_state j s' = (if fst j = MSG_BLOCK \<and> snd j \<in> D then None else find_state j s)" using forgottenD(1)[OF r(2), of j] by (simp add: D)
    show "ip_KnownInvExists j (peer_at n s') \<longleftrightarrow> ip_KnownInvExists j (peer_at n s) \<and> \<not> (fst j = MSG_BLOCK \<and> snd j \<in> D)"
      using forgottenD(2)[OF r(2), of n] by (auto simp: KnownInvExists_knows D)
    show "n \<in> set ks' \<longleftrightarrow> n \<in> set ks \<or> (\<exists>x \<in> D. ip_KnownInvExists (MSG_BLOCK, x) (peer_at n s))"
      using r(3) by (auto simp: known_peers_def KnownInvExists_knows)
  qed
qed

lemma forget_peer_gone: "forget_peer n y = Some st \<Longrightarrow> n \<noteq> 0 \<Longrightarrow> n \<notin> set (st_setKnownPeer st) \<and> st_nAssigned st \<noteq> n"
  by (cases "st_nAssigned y = n"; cases "sdel n (st_setKnownPeer y) = []"; clarsimp simp: forget_peer_def)

text \<open>(C21) When a peer leaves, nothing of it stays: no state names it, and an item survives exactly when another peer knows it. An item that
  was being fetched from it, or had come from it, is free again: it is assigned to nobody and what was received for it is dropped, with the
  peers that can fetch it reported. Every other item only loses the peer from its known peers.\<close>

theorem schedule_remove_peer:
  assumes "sc_reach s" and "n \<noteq> 0"
  shows "\<exists>ks' s'. sc_RemovePeer n ks s = Inr (ks', s') \<and> map_of (sc_mapPeer s') n = None
    \<and> (\<forall>i st. find_state i s' = Some st \<longrightarrow> n \<notin> set (st_setKnownPeer st) \<and> st_nAssigned st \<noteq> n)
    \<and> (\<forall>i. sc_Exists i s' \<longleftrightarrow> (\<exists>m. m \<noteq> n \<and> ip_KnownInvExists i (peer_at m s)))
    \<and> (\<forall>i st. find_state i s = Some st \<longrightarrow> find_state i s' =
         (let known = removeAll n (st_setKnownPeer st)
          in if known = [] then None
             else if st_nAssigned st = n then Some (st\<lparr>st_setKnownPeer := known, st_nAssigned := 0, st_objReceived := Obj_Nil\<rparr>)
             else Some (st\<lparr>st_setKnownPeer := known\<rparr>)))
    \<and> (\<forall>i. find_state i s = None \<longrightarrow> find_state i s' = None)
    \<and> (\<forall>m. m \<in> set ks' \<longleftrightarrow> m \<in> set ks
         \<or> m \<noteq> n \<and> (\<exists>i st. find_state i s = Some st \<and> st_nAssigned st = n \<and> m \<in> set (st_setKnownPeer st)))"
proof -
  have inv: "sc_inv s" by (rule sc_reach_inv[OF assms(1)])
  obtain ks' s' where r: "sc_RemovePeer n ks s = Inr (ks', s')" "\<And>i. find_state i s' = Option.bind (find_state i s) (forget_peer n)"
      "set ks' = set ks \<union> (\<Union>i \<in> knows (peer_at n s). left_with n (find_state i s))" "sc_inv s'"
    using RemovePeer_spec[OF inv assms(2), of ks] by blast
  have ex: "sc_Exists i s' \<longleftrightarrow> (\<exists>m. m \<noteq> n \<and> ip_KnownInvExists i (peer_at m s))" for i
  proof (cases "find_state i s")
    case None
    then show ?thesis using sc_invD(7)[OF inv, of i] by (auto simp: sc_Exists_def r(2) KnownInvExists_knows)
  next
    case (Some st)
    have "sc_Exists i s' \<longleftrightarrow> set (sdel n (st_setKnownPeer st)) \<noteq> {}" unfolding set_empty by (simp add: sc_Exists_def r(2) Some forget_peer_def Let_def)
    then show ?thesis using sc_invD(7)[OF inv, of i] sc_invD(8)[OF inv Some] Some by (auto simp: KnownInvExists_knows)
  qed
  have as: "i \<in> knows (peer_at n s)" if "find_state i s = Some st" "st_nAssigned st = n" for i st
    using sc_invD(1,8)[OF inv that(1)] that(2) assms(2) by (auto simp: st_ok_def)
  show ?thesis
  proof (intro exI conjI allI impI, rule r(1))
    show "map_of (sc_mapPeer s') n = None" by (rule RemovePeer_gone[OF inv assms(2) r(1)])
    fix i st m
    assume "find_state i s' = Some st"
    then show "n \<notin> set (st_setKnownPeer st)" "st_nAssigned st \<noteq> n"
      using forget_peer_gone[OF _ assms(2)] by (auto simp: r(2) bind_eq_Some_conv)
  next
    fix i st
    assume "find_state i s = Some st"
    then show "find_state i s' =
        (let known = removeAll n (st_setKnownPeer st)
         in if known = [] then None
            else if st_nAssigned st = n then Some (st\<lparr>st_setKnownPeer := known, st_nAssigned := 0, st_objReceived := Obj_Nil\<rparr>)
            else Some (st\<lparr>st_setKnownPeer := known\<rparr>))" by (simp only: r(2) forget_peer_def bind.bind_lunit)
  next
    fix i
    assume "find_state i s = None"
    then show "find_state i s' = None" by (simp only: r(2) bind.bind_lzero)
  next
    fix m
    show "m \<in> set ks' \<longleftrightarrow> m \<in> set ks
         \<or> m \<noteq> n \<and> (\<exists>i st. find_state i s = Some st \<and> st_nAssigned st = n \<and> m \<in> set (st_setKnownPeer st))"
      using as by (fastforce simp: r(3) left_with_def split: option.splits if_splits)
  qed (rule ex)
qed

section \<open>A run\<close>

text \<open>Two peers announce a transaction; it is fetched from the first of them.\<close>

definition demo_tx :: ctransaction where
  "demo_tx = tx_SetNull\<lparr>tx_nTxNonce := 3\<rparr>"

definition sc_demo :: "unit sched" where
  "sc_demo = snd (sc_AddNewInv 100 (MSG_TX, 5) 8 (snd (sc_AddNewInv 100 (MSG_TX, 5) 7 sc_new)))"

lemma sc_demo_reach: "sc_reach sc_demo"
  unfolding sc_demo_def by (intro sc_reach.intros)

lemmas sched_eval = sc_AddNewInv_def sc_CheckAddInvIdleLocation_def at_peer_def peer_at_def put_state_def sc_new_def st_new_def
  ip_new_def ips_new_def ip_GetCount_def ip_GetKnownList_def MAX_INV_COUNT_def MAX_PEER_TX_INV_COUNT_def MAX_PEER_BLOCK_INV_COUNT_def
  ip_AddNewInv_def set_invKnown.simps insort_insert_key_def

definition peer_demo :: inv_peer where
  "peer_demo = \<lparr>invKnownTx = ips_new\<lparr>listKnown := [5]\<rparr>, invKnownBlock = ips_new, hashGetBlockLocatorDepth = 0, nInvHeight = 0, hashInvBlock = 0\<rparr>"

lemma sc_demo_eq: "sc_demo = sc_new\<lparr>sc_mapPeer := [(7, peer_demo), (8, peer_demo)],
    sc_mapState := [((MSG_TX, 5), st_new\<lparr>st_setKnownPeer := [7, 8], st_nRecvInvTime := 100\<rparr>)]\<rparr>"
  by (simp add: sc_demo_def peer_demo_def sched_eval)

lemma sc_demo_known: "ip_KnownInvExists (MSG_TX, 5) (peer_at 7 sc_demo)" "ip_KnownInvExists (MSG_TX, 5) (peer_at 8 sc_demo)"
  by (simp_all add: sc_demo_eq peer_at_def ip_KnownInvExists_def ip_GetKnownList_def peer_demo_def)

theorem schedule_agreement_witness:
  "sc_reach sc_demo \<and> ip_KnownInvExists (MSG_TX, 5) (peer_at 7 sc_demo) \<and> (\<exists>st. find_state (MSG_TX, 5) sc_demo = Some st \<and> 7 \<in> set (st_setKnownPeer st))"
  using schedule_agreement[OF sc_demo_reach, of "(MSG_TX, 5)" 7 MSG_TX] sc_demo_reach sc_demo_known by blast

theorem schedule_no_throw_witness: "(7 :: u64) \<noteq> 0 \<and> sc_reach sc_demo \<and> (\<exists>r. sc_RemovePeer 7 [] sc_demo = Inr r)"
  using schedule_no_throw[OF sc_demo_reach, of 7] sc_demo_reach by simp

lemma sc_demo_round: "\<exists>ret fAll s'. sc_ScheduleKnownInv 101 7 MSG_TX 1 sc_demo = Inr (ret, [(MSG_TX, 5)], fAll, s')"
  by (auto simp: sc_demo_eq sc_ScheduleKnownInv_def sc_new_def peer_at_def ip_GetKnownList_def peer_demo_def inv_timeout_def st_new_def
      MAX_REGETDATA_COUNT_def MAX_INV_WAIT_TIME_def)

theorem schedule_round_witness:
  "sc_reach sc_demo \<and> (7 :: u64) \<noteq> 0
    \<and> (\<exists>ret v fAll s'. sc_ScheduleKnownInv 101 7 MSG_TX 1 sc_demo = Inr (ret, v, fAll, s') \<and> v = [(MSG_TX, 5)]
        \<and> find_state (MSG_TX, 5) s' = map_option (asked 7) (find_state (MSG_TX, 5) sc_demo))"
proof -
  obtain ret fAll s' where r: "sc_ScheduleKnownInv 101 7 MSG_TX 1 sc_demo = Inr (ret, [(MSG_TX, 5)], fAll, s')" using sc_demo_round by blast
  have "\<not> expired 101 7 sc_demo (MSG_TX, 5)"
    by (simp add: expired_def sc_demo_eq inv_timeout_def st_new_def MAX_REGETDATA_COUNT_def MAX_INV_WAIT_TIME_def)
  moreover have "(7 :: u64) \<noteq> 0" by simp
  from schedule_round[OF sc_demo_reach this, of 101 MSG_TX 1] obtain ret' v' fAll' s'' where q: "sc_ScheduleKnownInv 101 7 MSG_TX 1 sc_demo = Inr (ret', v', fAll', s'')"
    and "\<forall>j. find_state j s'' = None \<and> fst j = MSG_TX \<and> expired 101 7 sc_demo j
       \<or> find_state j s'' = (if j \<in> set v' then map_option (asked 7) (find_state j sc_demo) else find_state j sc_demo)"
    by (elim exE conjE)
  moreover have "v' = [(MSG_TX, 5)]" using q r by simp
  ultimately have "find_state (MSG_TX, 5) s'' = map_option (asked 7) (find_state (MSG_TX, 5) sc_demo)" by (metis list.set_intros(1))
  then show ?thesis using q \<open>v' = [(MSG_TX, 5)]\<close> sc_demo_reach by auto
qed

theorem schedule_invalidate_witness:
  "sc_reach sc_demo \<and> {9} = insert (9 :: u256) {x. (9, x) \<in> (set (mapOrphanByPrev (sc_orphanBlock sc_demo)))\<^sup>+}
    \<and> (\<exists>ks' s'. sc_InvalidateBlock 9 [] sc_demo = Inr (ks', s') \<and> find_state (MSG_TX, 5) s' = find_state (MSG_TX, 5) sc_demo)"
proof -
  have D: "{9} = insert (9 :: u256) {x. (9, x) \<in> (set (mapOrphanByPrev (sc_orphanBlock sc_demo)))\<^sup>+}"
    by (simp add: sc_demo_eq sc_new_def)
  show ?thesis using schedule_invalidate[OF sc_demo_reach D, of "[]"] sc_demo_reach D by auto
qed

theorem schedule_remove_peer_witness:
  "sc_reach sc_demo \<and> (7 :: u64) \<noteq> 0 \<and> (\<exists>ks' s'. sc_RemovePeer 7 [] sc_demo = Inr (ks', s') \<and> sc_Exists (MSG_TX, 5) s')"
proof -
  have "\<exists>m. m \<noteq> (7 :: u64) \<and> ip_KnownInvExists (MSG_TX, 5) (peer_at m sc_demo)" using sc_demo_known(2) by (intro exI[of _ 8]) simp
  then show ?thesis using schedule_remove_peer[OF sc_demo_reach, of 7 "[]"] sc_demo_reach by (auto simp del: split_paired_All)
qed

text \<open>A stale index: the transaction is fetched from peer 7 and arrives, and peer 7 leaves. Peer 8 still knows the item, so
  its state stays and loses the object, but the index by sender and nonce keeps it: \<open>GetNextTx\<close> returns a
  hash for which \<open>GetTransaction\<close> finds nothing.\<close>

definition sc_fetched :: "unit sched" where
  "sc_fetched = snd (snd (sc_ReceiveTx 102 7 5 demo_tx [] (case sc_ScheduleTxInv 101 7 [] 1 False sc_demo of Inr y \<Rightarrow> snd (snd (snd y)) | Inl e \<Rightarrow> sc_demo)))"

lemma schedule_stale_next:
  "\<exists>ks s'. sc_RemovePeer 7 [] sc_fetched = Inr (ks, s') \<and> sc_GetNextTx (tx_destFrom demo_tx) (tx_nTxNonce demo_tx) s' = 5
     \<and> sc_GetTransaction 5 s' = Inr None"
  by (simp add: sc_fetched_def sc_ScheduleTxInv_def sc_demo_eq sc_ScheduleKnownInv_def sc_ReceiveTx_def receive_obj_def assign_inv_def
      ip_IsAssigned_def peer_demo_def ip_Assign_def ip_Completed_def sc_RemovePeer_def ip_GetKnownInv_def remove_peer_inv_def Let_def
      inv_timeout_def MAX_REGETDATA_COUNT_def MAX_INV_WAIT_TIME_def sched_eval st_IsReceived_def sc_GetNextTx_def sc_GetTransaction_def ip_Empty_def)

end
