(* ===== verification/Base25519.thy ===== *)
theory Base25519
  imports HA_Prelude
begin

text \<open>
  \<^verbatim>\<open>src/src/crypto/curve25519/base25519.cpp\<close>: arithmetic on 256-bit integers held in 32-byte buffers, the basis
  of the scalar and field arithmetic of curve 25519. A buffer is a list of 64-bit words, least significant first;
  \<open>get128\<close> and \<open>put128\<close> are the accesses through a \<^verbatim>\<open>uint128_t\<close> pointer, at any word of the buffer. The model
  is the branch of the code for compilers that have 128-bit integers. \<open>val64\<close> is the number a buffer stands for.
\<close>

unbundle bit_operations_syntax

type_synonym u128 = "128 word"
type_synonym buf = "u64 list"

text \<open>An array of words read and written through a pointer to words of twice the width, at any index.\<close>

definition get2 :: "nat \<Rightarrow> 'a::len word list \<Rightarrow> 'b::len word" where
  "get2 k p = push_bit LENGTH('a) (ucast (p ! Suc k)) OR ucast (p ! k)"

definition put2 :: "nat \<Rightarrow> 'b::len word \<Rightarrow> 'a::len word list \<Rightarrow> 'a word list" where
  "put2 k x p = p[k := ucast x, Suc k := ucast (drop_bit LENGTH('a) x)]"

definition add2 :: "nat \<Rightarrow> 'b::len word \<Rightarrow> 'a::len word list \<Rightarrow> 'a word list" where
  "add2 k x p = put2 k (get2 k p + x) p"

abbreviation get128 :: "nat \<Rightarrow> buf \<Rightarrow> u128" where "get128 \<equiv> get2"
abbreviation put128 :: "nat \<Rightarrow> u128 \<Rightarrow> buf \<Rightarrow> buf" where "put128 \<equiv> put2"
abbreviation add128 :: "nat \<Rightarrow> u128 \<Rightarrow> buf \<Rightarrow> buf" where "add128 \<equiv> add2"

definition Zero32 :: buf where
  "Zero32 = [0, 0, 0, 0]"

definition Zero64 :: buf where
  "Zero64 = [0, 0, 0, 0, 0, 0, 0, 0]"

definition Copy32 :: "buf \<Rightarrow> buf" where
  "Copy32 s = [s ! 0, s ! 1, s ! 2, s ! 3]"

definition Copy32_u64 :: "u64 \<Rightarrow> buf" where
  "Copy32_u64 u = [u, 0, 0, 0]"

definition Compare32 :: "buf \<Rightarrow> buf \<Rightarrow> int" where
  "Compare32 l r =
     (if get128 2 l > get128 2 r then 1
      else if get128 2 l < get128 2 r then -1
      else if get128 0 l > get128 0 r then 1
      else if get128 0 l < get128 0 r then -1
      else 0)"

definition byte_at :: "nat \<Rightarrow> buf \<Rightarrow> u8" where
  "byte_at i p = ucast (drop_bit (8 * (i mod 8)) (p ! (i div 8)))"

definition CompareSigned32 :: "buf \<Rightarrow> buf \<Rightarrow> int" where
  "CompareSigned32 l r =
     (if sint (get128 2 l) > sint (get128 2 r) then 1
      else if sint (get128 2 l) < sint (get128 2 r) then -1
      else if get128 0 l > get128 0 r then 1
      else if get128 0 l < get128 0 r then -1
      else 0)"

definition IsZero32 :: "buf \<Rightarrow> bool" where
  "IsZero32 p \<longleftrightarrow> (p ! 0 OR p ! 1 OR p ! 2 OR p ! 3) = 0"

definition IsOne32 :: "buf \<Rightarrow> bool" where
  "IsOne32 p \<longleftrightarrow> ((p ! 0 - 1) OR p ! 1 OR p ! 2 OR p ! 3) = 0"

definition IsEven :: "buf \<Rightarrow> bool" where
  "IsEven p \<longleftrightarrow> (byte_at 0 p AND 1) = 0"

definition Half32 :: "buf \<Rightarrow> buf" where
  "Half32 n =
     (let p0 = get128 0 n; p1 = get128 2 n
      in put128 2 (drop_bit 1 p1) (put128 0 (drop_bit 1 p0 OR push_bit 127 p1) n))"

definition HalfSigned32 :: "buf \<Rightarrow> buf" where
  "HalfSigned32 n =
     (let p0 = get128 0 n; p1 = get128 2 n
      in put128 2 (signed_drop_bit 1 p1) (put128 0 (drop_bit 1 p0 OR push_bit 127 p1) n))"

definition ShiftLeft32 :: "buf \<Rightarrow> nat \<Rightarrow> buf" where
  "ShiftLeft32 n b =
     (if b = 0 then Copy32 n
      else if b \<ge> 256 then Zero32
      else let p0 = get128 0 n; p1 = get128 2 n;
               (d0, d1) = (if b < 128 then (push_bit b p0, push_bit b p1 OR drop_bit (128 - b) p0)
                           else if b = 128 then (0, p0)
                           else (0, push_bit (b - 128) p0))
           in put128 0 d0 (put128 2 d1 Zero32))"

text \<open>The loop over the two 128-bit halves; \<open>is\<close> lists the word at which each half starts.\<close>

fun add32_loop :: "nat list \<Rightarrow> buf \<Rightarrow> buf \<Rightarrow> u32 \<Rightarrow> buf \<Rightarrow> buf \<times> u32" where
  "add32_loop [] n1 n2 carry out = (out, carry)"
| "add32_loop (i # is) n1 n2 carry out =
     (let sum = get128 i n1 + get128 i n2 + ucast carry;
          carry' = (if carry \<noteq> 0 then (if sum > get128 i n1 then 0 else 1) else (if sum \<ge> get128 i n1 then 0 else 1))
      in add32_loop is n1 n2 carry' (put128 i sum out))"

definition Add32 :: "buf \<Rightarrow> buf \<Rightarrow> buf \<times> u32" where
  "Add32 n1 n2 = add32_loop [0, 2] n1 n2 0 Zero32"

fun sub32_loop :: "nat list \<Rightarrow> buf \<Rightarrow> buf \<Rightarrow> u32 \<Rightarrow> buf \<Rightarrow> buf \<times> u32" where
  "sub32_loop [] n1 n2 borrow out = (out, borrow)"
| "sub32_loop (i # is) n1 n2 borrow out =
     (let diff = get128 i n1 - get128 i n2 - ucast borrow;
          borrow' = (if borrow \<noteq> 0 then (if get128 i n1 > get128 i n2 then 0 else 1) else (if get128 i n1 \<ge> get128 i n2 then 0 else 1))
      in sub32_loop is n1 n2 borrow' (put128 i diff out))"

definition Sub32 :: "buf \<Rightarrow> buf \<Rightarrow> buf \<times> u32" where
  "Sub32 n1 n2 = sub32_loop [0, 2] n1 n2 0 Zero32"

text \<open>The output is left as it was when the number needs no reduction.\<close>

definition ReduceSigned32 :: "buf \<Rightarrow> buf \<Rightarrow> buf \<Rightarrow> buf" where
  "ReduceSigned32 out n prime =
     (if (byte_at 31 n AND 0x80) \<noteq> 0 then fst (Add32 n prime)
      else if Compare32 n prime \<ge> 0 then fst (Sub32 n prime)
      else out)"

text \<open>A 64 by 64 bit product in 128 bits and its two words.\<close>

definition mul64 :: "u64 \<Rightarrow> u64 \<Rightarrow> u128" where
  "mul64 a b = ucast a * ucast b"

definition lo64 :: "u128 \<Rightarrow> u128" where
  "lo64 x = ucast (ucast x :: u64)"

definition hi64 :: "u128 \<Rightarrow> u128" where
  "hi64 x = ucast (ucast (drop_bit 64 x) :: u64)"

text \<open>The eight 128-bit column sums of the product, carries not propagated.\<close>

definition Mul32 :: "buf \<Rightarrow> buf \<Rightarrow> u128 list" where
  "Mul32 n1 n2 =
     (let l = (\<lambda>i j. lo64 (mul64 (n1 ! i) (n2 ! j))); h = (\<lambda>i j. hi64 (mul64 (n1 ! i) (n2 ! j)))
      in [l 0 0,
          h 0 0 + l 0 1 + l 1 0,
          h 0 1 + h 1 0 + l 0 2 + l 1 1 + l 2 0,
          h 0 2 + h 1 1 + h 2 0 + l 0 3 + l 1 2 + l 2 1 + l 3 0,
          h 0 3 + h 1 2 + h 2 1 + h 3 0 + l 1 3 + l 2 2 + l 3 1,
          h 1 3 + h 2 2 + h 3 1 + l 2 3 + l 3 2,
          h 2 3 + h 3 2 + l 3 3,
          h 3 3])"

definition Multiply8_8 :: "u64 \<Rightarrow> u64 \<Rightarrow> buf" where
  "Multiply8_8 a b = put128 0 (mul64 a b) [0, 0]"

definition Multiply16_8 :: "buf \<Rightarrow> u64 \<Rightarrow> buf" where
  "Multiply16_8 n1 b =
     (let q0 = mul64 (n1 ! 0) b; q1 = mul64 (n1 ! 1) b
      in put128 1 (hi64 q0 + q1) (Zero32[0 := ucast q0]))"

definition Multiply32_32 :: "buf \<Rightarrow> buf \<Rightarrow> buf" where
  "Multiply32_32 n1 n2 =
     (let m = (\<lambda>i j. mul64 (n1 ! i) (n2 ! j));
          l = (\<lambda>i j. lo64 (m i j)); h = (\<lambda>i j. hi64 (m i j))
      in add128 6 (h 2 3 + h 3 2 + m 3 3)
        (add128 5 (h 1 3 + h 2 2 + h 3 1 + l 2 3 + l 3 2)
        (add128 4 (h 0 3 + h 1 2 + h 2 1 + h 3 0 + l 1 3 + l 2 2 + l 3 1)
        (add128 3 (h 0 2 + h 1 1 + h 2 0 + l 0 3 + l 1 2 + l 2 1 + l 3 0)
        (add128 2 (h 0 1 + h 1 0 + l 0 2 + l 1 1 + l 2 0)
        (put128 1 (h 0 0 + l 0 1 + l 1 0)
        (Zero64[0 := ucast (m 0 0)])))))))"

section \<open>The numbers\<close>

fun valw :: "'a::len word list \<Rightarrow> nat" where
  "valw [] = 0"
| "valw (x # xs) = unat x + 2 ^ LENGTH('a) * valw xs"

abbreviation val64 :: "buf \<Rightarrow> nat" where "val64 \<equiv> valw"

lemma valw_bound: "valw (p :: 'a::len word list) < 2 ^ (LENGTH('a) * length p)"
proof (induction p)
  case (Cons x p)
  have "unat x < 2 ^ LENGTH('a)" by (rule unsigned_less)
  moreover have "2 ^ LENGTH('a) * Suc (valw p) \<le> (2 :: nat) ^ LENGTH('a) * 2 ^ (LENGTH('a) * length p)" using Cons by (intro mult_left_mono) auto
  ultimately have "unat x + 2 ^ LENGTH('a) * valw p < 2 ^ LENGTH('a) * 2 ^ (LENGTH('a) * length p)" by (simp only: mult_Suc_right)
  then show ?case by (simp add: power_add)
qed simp

lemma val64_bound: "val64 p < 2 ^ (64 * length p)"
  using valw_bound[of p] by simp

lemma buf4: "length p = 4 \<Longrightarrow> \<exists>a b c d. p = [a, b, c, d]"
  by (auto simp: numeral_eq_Suc length_Suc_conv)

lemma or_add_nat: "a < 2 ^ n \<Longrightarrow> push_bit n b OR a = a + 2 ^ n * (b :: nat)"
proof -
  assume a: "a < 2 ^ n"
  have d: "drop_bit n (a + 2 ^ n * b) = b" and t: "take_bit n (a + 2 ^ n * b) = a"
    using a by (simp_all add: drop_bit_eq_div take_bit_eq_mod)
  have "bit (push_bit n b OR a) k = bit (a + 2 ^ n * b) k" for k
  proof (cases "k < n")
    case True
    then show ?thesis using bit_take_bit_iff[of n "a + 2 ^ n * b" k] unfolding t by (simp add: bit_simps)
  next
    case False
    have "\<not> bit a k" using a False by (metis bit_take_bit_iff take_bit_nat_eq_self)
    then show ?thesis using False bit_drop_bit_eq[of n "a + 2 ^ n * b"] unfolding d by (simp add: bit_simps fun_eq_iff)
  qed
  then show ?thesis by (rule bit_eqI)
qed

lemma u64_less: "unat (a :: u64) < 2 ^ 64" and u128_less: "unat (x :: u128) < 2 ^ 128"
  using unsigned_less[of a] unsigned_less[of x] by simp_all

text \<open>The laws of such an access. Writing changes the number by the difference of the old and the new words.\<close>

lemma unat_get2:
  assumes "LENGTH('b) = 2 * LENGTH('a)"
  shows "unat (get2 k (p :: 'a::len word list) :: 'b::len word) = unat (p ! k) + 2 ^ LENGTH('a) * unat (p ! Suc k)"
proof -
  have up: "unat (ucast w :: 'b word) = unat w" for w :: "'a word"
    using assms by (simp only: unsigned_ucast_eq) (rule take_bit_nat_eq_self, rule order_less_le_trans[OF unsigned_less], simp)
  have "unat (push_bit LENGTH('a) (ucast w) :: 'b word) = push_bit LENGTH('a) (unat w)" for w :: "'a word"
    using assms by (simp add: unsigned_push_bit_eq up take_bit_push_bit take_bit_nat_eq_self)
  then show ?thesis unfolding get2_def unsigned_or_eq up by (simp add: or_add_nat)
qed

lemma unat_words:
  assumes "LENGTH('b) = 2 * LENGTH('a)"
  shows "unat (ucast (x :: 'b::len word) :: 'a::len word) = unat x mod 2 ^ LENGTH('a)"
    "unat (ucast (drop_bit LENGTH('a) x) :: 'a word) = unat x div 2 ^ LENGTH('a)"
proof -
  show "unat (ucast x :: 'a word) = unat x mod 2 ^ LENGTH('a)" by (simp add: unsigned_ucast_eq take_bit_eq_mod)
  have "unat x < 2 ^ LENGTH('a) * 2 ^ LENGTH('a)" using unsigned_less[of x] assms by (simp add: mult_2 power_add)
  then have "unat x div 2 ^ LENGTH('a) < 2 ^ LENGTH('a)" by (rule less_mult_imp_div_less)
  moreover have "unat (drop_bit LENGTH('a) x) = unat x div 2 ^ LENGTH('a)"
    by (simp only: unsigned_drop_bit_eq) (simp add: drop_bit_eq_div take_bit_nat_eq_self)
  ultimately show "unat (ucast (drop_bit LENGTH('a) x) :: 'a word) = unat x div 2 ^ LENGTH('a)"
    by (simp only: unsigned_ucast_eq) (simp add: take_bit_nat_eq_self)
qed

lemma unat_lohi_gen:
  assumes "LENGTH('b) = 2 * LENGTH('a)"
  shows "unat (ucast (x :: 'b::len word) :: 'a::len word) + 2 ^ LENGTH('a) * unat (ucast (drop_bit LENGTH('a) x) :: 'a word) = unat x"
  using unat_words[OF assms, of x] mod_mult_div_eq[of "unat x" "2 ^ LENGTH('a)"] by (simp only:)

lemma length_put2 [simp]: "length (put2 k x p) = length p"
  by (simp add: put2_def)

lemma valw_update:
  "k < length p \<Longrightarrow> valw (p[k := x]) + 2 ^ (LENGTH('a) * k) * unat (p ! k) = valw p + 2 ^ (LENGTH('a) * k) * unat (x :: 'a::len word)"
proof (induction p arbitrary: k)
  case (Cons a p)
  show ?case
  proof (cases k)
    case (Suc j)
    then have "2 ^ LENGTH('a) * (valw (p[j := x]) + 2 ^ (LENGTH('a) * j) * unat (p ! j)) = 2 ^ LENGTH('a) * (valw p + 2 ^ (LENGTH('a) * j) * unat x)"
      using Cons.IH[of j] Cons.prems by simp
    then show ?thesis using Suc by (simp add: power_add distrib_left mult.assoc)
  qed simp
qed simp

lemma valw_put2:
  fixes x :: "'b::len word" and p :: "'a::len word list"
  assumes W: "LENGTH('b) = 2 * LENGTH('a)" and k: "Suc k < length p"
  shows "valw (put2 k x p) + 2 ^ (LENGTH('a) * k) * unat (get2 k p :: 'b word) = valw p + 2 ^ (LENGTH('a) * k) * unat x"
proof -
  let ?q = "p[k := ucast x]" let ?N = "2 ^ (LENGTH('a) * k) :: nat" let ?S = "2 ^ (LENGTH('a) * Suc k) :: nat"
  have 1: "valw ?q + ?N * unat (p ! k) = valw p + ?N * unat (ucast x :: 'a word)" using valw_update[of k p] k by simp
  have 2: "valw (put2 k x p) + ?S * unat (p ! Suc k) = valw ?q + ?S * unat (ucast (drop_bit LENGTH('a) x) :: 'a word)"
    using valw_update[of "Suc k" ?q] k by (simp add: put2_def)
  have S: "?S = ?N * 2 ^ LENGTH('a)" by (simp add: power_add)
  have "?N * unat x = ?N * unat (ucast x :: 'a word) + ?S * unat (ucast (drop_bit LENGTH('a) x) :: 'a word)"
    unfolding S by (subst unat_lohi_gen[OF W, symmetric]) (simp only: distrib_left mult.assoc)
  moreover have "?N * unat (get2 k p :: 'b word) = ?N * unat (p ! k) + ?S * unat (p ! Suc k)"
    by (simp add: unat_get2[OF W] power_add algebra_simps)
  ultimately show ?thesis using 1 2 by linarith
qed

lemma valw_add2:
  fixes x :: "'b::len word" and p :: "'a::len word list"
  assumes "LENGTH('b) = 2 * LENGTH('a)" "Suc k < length p" "unat (get2 k p :: 'b word) + unat x < 2 ^ LENGTH('b)"
  shows "valw (add2 k x p) = valw p + 2 ^ (LENGTH('a) * k) * unat x"
proof -
  have "unat (get2 k p + x) = unat (get2 k p :: 'b word) + unat x" using assms(3) by (simp add: unat_add_lem)
  then show ?thesis using valw_put2[OF assms(1,2), of "get2 k p + x"] by (simp add: add2_def distrib_left)
qed

lemma valw_add2_mod:
  fixes x :: "'b::len word" and p :: "'a::len word list"
  assumes W: "LENGTH('b) = 2 * LENGTH('a)" and k: "Suc k < length p"
  shows "valw (add2 k x p) mod 2 ^ (LENGTH('a) * k + LENGTH('b)) = (valw p + 2 ^ (LENGTH('a) * k) * unat x) mod 2 ^ (LENGTH('a) * k + LENGTH('b))"
proof -
  let ?g = "get2 k p :: 'b word" let ?N = "2 ^ (LENGTH('a) * k) :: nat"
  have "?N * (unat ?g + unat x) = ?N * unat (?g + x) + ?N * 2 ^ LENGTH('b) * ((unat ?g + unat x) div 2 ^ LENGTH('b))"
    using mod_mult_div_eq[of "unat ?g + unat x" "2 ^ LENGTH('b)"] unat_word_ariths(1)[of ?g x] by (simp flip: distrib_left add: mult.assoc)
  then have "valw p + ?N * unat x = valw (add2 k x p) + ?N * 2 ^ LENGTH('b) * ((unat ?g + unat x) div 2 ^ LENGTH('b))"
    using valw_put2[OF W k, of "?g + x"] by (simp add: add2_def distrib_left)
  then show ?thesis by (simp add: power_add)
qed

lemma unat_get128: "unat (get128 k p) = unat (p ! k) + 2 ^ 64 * unat (p ! Suc k)"
  using unat_get2[where 'a = 64 and 'b = 128, of k p] by simp

lemma unat_lohi: "unat (ucast (x :: u128) :: u64) + 2 ^ 64 * unat (ucast (drop_bit 64 x) :: u64) = unat x"
  using unat_lohi_gen[where 'a = 64 and 'b = 128, of x] by (simp only: len_num0 len_of_numeral_defs) simp

lemma val64_halves: "length p = 4 \<Longrightarrow> val64 p = unat (get128 0 p) + 2 ^ 128 * unat (get128 2 p)"
  by (auto dest!: buf4 simp: unat_get128 distrib_left)

text \<open>The carry rule of \<open>Add32\<close> and the borrow rule of \<open>Sub32\<close>.\<close>

lemma bit_word: "c \<le> (1 :: u32) \<Longrightarrow> c = 0 \<or> c = 1"
  by (metis order_le_less word_less_1)

lemma carry_rule:
  fixes x y :: u128
  assumes "c \<le> (1 :: u32)" and s: "s = x + y + ucast c"
    and c': "c' = (if c \<noteq> 0 then (if s > x then 0 else 1) else (if s \<ge> x then 0 else (1 :: u32)))"
  shows "unat s + 2 ^ 128 * unat c' = unat x + unat y + unat c \<and> c' \<le> 1"
proof -
  have c: "c = 0 \<or> c = 1" using assms(1) by (rule bit_word)
  have b: "unat x < 2 ^ 128" "unat y < 2 ^ 128" by (rule u128_less)+
  have "unat s = (unat x + unat y + unat c) mod 2 ^ 128"
    using c by (auto simp: s unat_word_ariths mod_Suc_eq)
  moreover have "(unat x + unat y + unat c) mod 2 ^ 128 = (if unat x + unat y + unat c < 2 ^ 128 then unat x + unat y + unat c else unat x + unat y + unat c - 2 ^ 128)"
    using b c by (auto simp: mod_nat_eqI le_mod_geq)
  ultimately show ?thesis using b c by (auto simp: c' word_less_nat_alt word_le_nat_alt split: if_splits)
qed

lemma borrow_arith:
  fixes x y b b' N :: int
  assumes "x < N" "y < N" "0 \<le> x" "0 \<le> y"
    "b = 0 \<and> (b' = 0 \<and> y \<le> x \<or> b' = 1 \<and> x < y) \<or> b = 1 \<and> (b' = 0 \<and> y < x \<or> b' = 1 \<and> x \<le> y)"
  shows "(x - y - b) mod N = x - y - b + N * b'"
proof -
  have "0 \<le> x - y - b + N * b'" "x - y - b + N * b' < N" using assms by auto
  then have "(x - y - b + N * b') mod N = x - y - b + N * b'" by (rule mod_pos_pos_trivial)
  then show ?thesis by simp
qed

lemma borrow_rule:
  fixes x y :: u128
  assumes "b \<le> (1 :: u32)" and d: "d = x - y - ucast b"
    and b': "b' = (if b \<noteq> 0 then (if x > y then 0 else 1) else (if x \<ge> y then 0 else (1 :: u32)))"
  shows "unat d + unat y + unat b = unat x + 2 ^ 128 * unat b' \<and> b' \<le> 1"
proof -
  have b: "b = 0 \<or> b = 1" using assms(1) by (rule bit_word)
  have l: "uint x < 2 ^ 128" "uint y < 2 ^ 128" "0 \<le> uint x" "0 \<le> uint y" using uint_bounded[of x] uint_bounded[of y] by simp_all
  have e: "uint d = (uint x - uint y - uint b) mod 2 ^ 128"
    using b by (auto simp: d uint_word_ariths mod_diff_left_eq)
  have "(uint x - uint y - uint b) mod 2 ^ 128 = uint x - uint y - uint b + 2 ^ 128 * uint b'"
    by (rule borrow_arith[OF l]) (use b in \<open>auto simp: b' word_less_def word_le_def\<close>)
  then have "int (unat d + unat y + unat b) = int (unat x + 2 ^ 128 * unat b')" using e by simp
  then show ?thesis using b' by (simp only: of_nat_eq_iff) simp
qed

lemma Add32_val:
  assumes "length n1 = 4" "length n2 = 4" "Add32 n1 n2 = (s, c)"
  shows "val64 s + 2 ^ 256 * unat c = val64 n1 + val64 n2" "c \<le> 1" "length s = 4"
proof -
  define s0 where "s0 = get128 0 n1 + get128 0 n2 + ucast (0 :: u32)"
  define c0 :: u32 where "c0 = (if (0 :: u32) \<noteq> 0 then (if s0 > get128 0 n1 then 0 else 1) else (if s0 \<ge> get128 0 n1 then 0 else 1))"
  define s1 where "s1 = get128 2 n1 + get128 2 n2 + ucast c0"
  define c1 :: u32 where "c1 = (if c0 \<noteq> 0 then (if s1 > get128 2 n1 then 0 else 1) else (if s1 \<ge> get128 2 n1 then 0 else 1))"
  have "Add32 n1 n2 = (put128 2 s1 (put128 0 s0 Zero32), c1)"
    unfolding Add32_def add32_loop.simps Let_def c1_def s1_def c0_def s0_def by (rule refl)
  then have r: "s = put128 2 s1 (put128 0 s0 Zero32)" "c = c1" using assms(3) by simp_all
  have 0: "unat s0 + 2 ^ 128 * unat c0 = unat (get128 0 n1) + unat (get128 0 n2) + unat (0 :: u32) \<and> c0 \<le> 1"
    by (rule carry_rule[OF _ s0_def c0_def]) simp
  have 1: "unat s1 + 2 ^ 128 * unat c1 = unat (get128 2 n1) + unat (get128 2 n2) + unat c0 \<and> c1 \<le> 1"
    by (rule carry_rule[OF _ s1_def c1_def]) (use 0 in blast)
  have "val64 s = unat s0 + 2 ^ 128 * unat s1"
    using unat_lohi[of s0] unat_lohi[of s1] by (simp add: r put2_def Zero32_def distrib_left)
  then show "val64 s + 2 ^ 256 * unat c = val64 n1 + val64 n2"
    using 0 1 r(2) val64_halves[OF assms(1)] val64_halves[OF assms(2)] by simp
  show "c \<le> 1" "length s = 4" using 1 r by (simp_all add: Zero32_def)
qed

lemma Sub32_val:
  assumes "length n1 = 4" "length n2 = 4" "Sub32 n1 n2 = (d, b)"
  shows "val64 d + val64 n2 = val64 n1 + 2 ^ 256 * unat b" "b \<le> 1" "length d = 4"
proof -
  define d0 where "d0 = get128 0 n1 - get128 0 n2 - ucast (0 :: u32)"
  define b0 :: u32 where "b0 = (if (0 :: u32) \<noteq> 0 then (if get128 0 n1 > get128 0 n2 then 0 else 1) else (if get128 0 n1 \<ge> get128 0 n2 then 0 else 1))"
  define d1 where "d1 = get128 2 n1 - get128 2 n2 - ucast b0"
  define b1 :: u32 where "b1 = (if b0 \<noteq> 0 then (if get128 2 n1 > get128 2 n2 then 0 else 1) else (if get128 2 n1 \<ge> get128 2 n2 then 0 else 1))"
  have "Sub32 n1 n2 = (put128 2 d1 (put128 0 d0 Zero32), b1)"
    unfolding Sub32_def sub32_loop.simps Let_def b1_def d1_def b0_def d0_def by (rule refl)
  then have r: "d = put128 2 d1 (put128 0 d0 Zero32)" "b = b1" using assms(3) by simp_all
  have 0: "unat d0 + unat (get128 0 n2) + unat (0 :: u32) = unat (get128 0 n1) + 2 ^ 128 * unat b0 \<and> b0 \<le> 1"
    by (rule borrow_rule[OF _ d0_def b0_def]) simp
  have 1: "unat d1 + unat (get128 2 n2) + unat b0 = unat (get128 2 n1) + 2 ^ 128 * unat b1 \<and> b1 \<le> 1"
    by (rule borrow_rule[OF _ d1_def b1_def]) (use 0 in blast)
  have "val64 d = unat d0 + 2 ^ 128 * unat d1"
    using unat_lohi[of d0] unat_lohi[of d1] by (simp add: r put2_def Zero32_def distrib_left)
  then show "val64 d + val64 n2 = val64 n1 + 2 ^ 256 * unat b"
    using 0 1 r(2) val64_halves[OF assms(1)] val64_halves[OF assms(2)] by simp
  show "b \<le> 1" "length d = 4" using 1 r by (simp_all add: Zero32_def)
qed

lemma Compare32_val:
  assumes "length l = 4" "length r = 4"
  shows "Compare32 l r = (if val64 l > val64 r then 1 else if val64 l < val64 r then -1 else 0)"
  using val64_halves[OF assms(1)] val64_halves[OF assms(2)] u128_less[of "get128 0 l"] u128_less[of "get128 0 r"]
  by (auto simp: Compare32_def word_less_nat_alt)

section \<open>Products\<close>

lemma unat_up: "unat (ucast (a :: u64) :: u128) = unat a"
  using u64_less[of a] by (simp add: unsigned_ucast_eq take_bit_nat_eq_self)

lemma unat_mul64: "unat (mul64 a b) = unat a * unat b"
proof -
  have "unat a * unat b < 2 ^ 64 * 2 ^ 64" using u64_less[of a] u64_less[of b] by (intro mult_strict_mono) auto
  then have "unat a * unat b mod 2 ^ 128 = unat a * unat b" by simp
  moreover have "unat (mul64 a b) = unat (ucast a :: u128) * unat (ucast b :: u128) mod 2 ^ 128" by (simp only: mul64_def unat_word_ariths) simp
  ultimately show ?thesis by (simp only: unat_up)
qed

text \<open>\<open>small n x\<close>: at most a sum of \<open>n\<close> words of half the width.\<close>

definition small :: "nat \<Rightarrow> 'b::len word \<Rightarrow> bool" where
  "small n x \<longleftrightarrow> unat x \<le> n * (2 ^ (LENGTH('b) div 2) - 1)"

lemma len128: "LENGTH(128) div 2 = 64"
  by simp

lemma lo_hi_small: "small 1 (lo64 x)" "small 1 (hi64 x)"
  using u64_less[of "ucast x"] u64_less[of "ucast (drop_bit 64 x)"]
  by (simp_all only: small_def lo64_def hi64_def unat_up mult_1 len128)

lemma unat_lo_hi: "unat (lo64 x) + 2 ^ 64 * unat (hi64 x) = unat x"
  by (simp only: lo64_def hi64_def unat_up unat_lohi)

lemma small_add:
  fixes x y :: "'b::len word"
  assumes "even LENGTH('b)" "small m x" "small n y" "m + n < 2 ^ (LENGTH('b) div 2)"
  shows "small (m + n) (x + y) \<and> unat (x + y) = unat x + unat y"
proof -
  let ?W = "2 ^ (LENGTH('b) div 2) :: nat"
  have "unat x + unat y \<le> (m + n) * (?W - 1)" using assms(2,3) by (simp add: small_def distrib_right)
  also have "(m + n) * (?W - 1) \<le> (?W - 1) * (?W - 1)" using assms(4) by (intro mult_right_mono) auto
  also have "\<dots> < ?W * ?W" by (intro mult_strict_mono) auto
  also have "?W * ?W = 2 ^ LENGTH('b)" using assms(1) by (metis dvd_mult_div_cancel mult_2 power_add)
  finally show ?thesis using unat_add_lem[of x y] assms(2,3) by (simp add: small_def distrib_right)
qed

lemma small_sums:
  fixes a b c d e f g :: "'b::len word"
  assumes W: "even LENGTH('b)" "8 \<le> LENGTH('b)"
  shows "small 1 a \<Longrightarrow> small 1 b \<Longrightarrow> small 1 c \<Longrightarrow> small 3 (a + b + c) \<and> unat (a + b + c) = unat a + unat b + unat c"
    "small 1 a \<Longrightarrow> small 1 b \<Longrightarrow> small 1 c \<Longrightarrow> small 1 d \<Longrightarrow> small 1 e \<Longrightarrow> small 5 (a + b + c + d + e) \<and>
      unat (a + b + c + d + e) = unat a + unat b + unat c + unat d + unat e"
    "small 1 a \<Longrightarrow> small 1 b \<Longrightarrow> small 1 c \<Longrightarrow> small 1 d \<Longrightarrow> small 1 e \<Longrightarrow> small 1 f \<Longrightarrow> small 1 g \<Longrightarrow>
      small 7 (a + b + c + d + e + f + g) \<and> unat (a + b + c + d + e + f + g) = unat a + unat b + unat c + unat d + unat e + unat f + unat g"
proof -
  have "(2 :: nat) ^ 4 \<le> 2 ^ (LENGTH('b) div 2)" using W by (intro power_increasing) auto
  then have *: "small (m + 1) (x + y) \<and> unat (x + y) = unat x + unat y" if "m \<le> 6" "small m x" "small 1 y" for m and x y :: "'b word"
    using that by (intro small_add[OF W(1)]) auto
  note s = *[of 1 a b, unfolded one_add_one] *[of 2 "a + b" c] *[of 3 "a + b + c" d] *[of 4 "a + b + c + d" e]
    *[of 5 "a + b + c + d + e" f] *[of 6 "a + b + c + d + e + f" g]
  show "small 1 a \<Longrightarrow> small 1 b \<Longrightarrow> small 1 c \<Longrightarrow> small 3 (a + b + c) \<and> unat (a + b + c) = unat a + unat b + unat c"
    using s(1,2) by simp
  show "small 1 a \<Longrightarrow> small 1 b \<Longrightarrow> small 1 c \<Longrightarrow> small 1 d \<Longrightarrow> small 1 e \<Longrightarrow> small 5 (a + b + c + d + e) \<and>
      unat (a + b + c + d + e) = unat a + unat b + unat c + unat d + unat e" using s(1-4) by simp
  show "small 1 a \<Longrightarrow> small 1 b \<Longrightarrow> small 1 c \<Longrightarrow> small 1 d \<Longrightarrow> small 1 e \<Longrightarrow> small 1 f \<Longrightarrow> small 1 g \<Longrightarrow>
      small 7 (a + b + c + d + e + f + g) \<and> unat (a + b + c + d + e + f + g) = unat a + unat b + unat c + unat d + unat e + unat f + unat g"
    using s by simp
qed

lemmas small3 = small_sums(1) and small5 = small_sums(2) and small7 = small_sums(3)

lemma small_mono: "small m x \<Longrightarrow> m \<le> n \<Longrightarrow> small n x"
  by (auto simp: small_def intro: order_trans mult_right_mono)

text \<open>\<open>blank k p\<close>: an array of eight words, those above the \<open>k\<close>-th zero. Adding a row of a product there cannot
  overflow.\<close>

definition blank :: "nat \<Rightarrow> 'a::len word list \<Rightarrow> bool" where
  "blank k p \<longleftrightarrow> length p = 8 \<and> (\<forall>j. k < j \<longrightarrow> j < 8 \<longrightarrow> p ! j = 0)"

lemma add2_row:
  fixes x :: "'b::len word" and p :: "'a::len word list"
  assumes W: "LENGTH('b) = 2 * LENGTH('a)" "4 \<le> LENGTH('a)" and "blank k p" "k < 7" "small 7 x"
  shows "blank (Suc k) (add2 k x p) \<and> valw (add2 k x p) = valw p + 2 ^ (LENGTH('a) * k) * unat x"
proof -
  let ?W = "2 ^ LENGTH('a) :: nat"
  have "(2 :: nat) ^ 4 \<le> ?W" using W by (intro power_increasing) auto
  then have "8 * ?W \<le> ?W * ?W" by simp
  moreover have "unat (get2 k p :: 'b word) < ?W" using unsigned_less[of "p ! k"] assms(3,4) by (simp add: unat_get2[OF W(1)] blank_def)
  moreover have "unat x \<le> 7 * ?W - 7" using assms(5) W by (simp add: small_def algebra_simps)
  ultimately have "unat (get2 k p :: 'b word) + unat x < ?W * ?W" by linarith
  then have "unat (get2 k p :: 'b word) + unat x < 2 ^ LENGTH('b)" using W by (simp add: mult_2 power_add)
  then show ?thesis using valw_add2[OF W(1), of k p x] assms(3,4) by (simp add: add2_def put2_def blank_def)
qed

lemma blank_start: "blank 0 (Zero64[0 := x])" "val64 (Zero64[0 := x]) = unat x"
proof -
  have e: "Zero64[0 := x] = x # replicate 7 0" by (simp add: Zero64_def numeral_eq_Suc)
  show "blank 0 (Zero64[0 := x])" unfolding e blank_def by (auto simp: nth_Cons')
  show "val64 (Zero64[0 := x]) = unat x" by (simp add: Zero64_def)
qed

lemma put128_blank: "blank 0 p \<Longrightarrow> put128 1 x p = add128 1 x p"
  by (simp add: add2_def blank_def get2_def)

lemma add128_top:
  assumes "length p = 8" "unat x mod 2 ^ 128 = y mod 2 ^ 128" "val64 p + 2 ^ 384 * y < 2 ^ 512"
  shows "val64 (add128 6 x p) = val64 p + 2 ^ 384 * y"
proof -
  have "2 ^ 384 * unat x mod (2 ^ 384 * 2 ^ 128) = 2 ^ 384 * y mod (2 ^ 384 * 2 ^ 128)" using assms(2) by (simp only: mult_mod_right[symmetric])
  then have "2 ^ 384 * unat x mod 2 ^ 512 = 2 ^ 384 * y mod 2 ^ 512" by (simp flip: power_add)
  then have "(val64 p + 2 ^ 384 * unat x) mod 2 ^ 512 = (val64 p + 2 ^ 384 * y) mod 2 ^ 512" by (rule mod_add_cong[OF refl])
  then have "val64 (add128 6 x p) mod 2 ^ 512 = val64 p + 2 ^ 384 * y" using valw_add2_mod[where 'a = 64 and 'b = 128, of 6 p x] assms(1,3) by simp
  moreover have "val64 (add128 6 x p) < 2 ^ 512" using val64_bound[of "add128 6 x p"] assms(1) by (simp add: add2_def)
  ultimately show ?thesis by simp
qed

text \<open>The rows of a product added one word apart.\<close>

fun add_rows :: "nat \<Rightarrow> 'b::len word list \<Rightarrow> 'a::len word list \<Rightarrow> 'a word list" where
  "add_rows k [] p = p"
| "add_rows k (x # xs) p = add_rows (Suc k) xs (add2 k x p)"

fun val_rows :: "nat \<Rightarrow> 'b::len word list \<Rightarrow> nat" where
  "val_rows W [] = 0"
| "val_rows W (x # xs) = unat x + W * val_rows W xs"

lemma add_rows_val:
  fixes p :: "'a::len word list" and xs :: "'b::len word list"
  assumes W: "LENGTH('b) = 2 * LENGTH('a)" "4 \<le> LENGTH('a)"
  shows "blank k p \<Longrightarrow> list_all (small 7) xs \<Longrightarrow> k + length xs \<le> 7 \<Longrightarrow>
   blank (k + length xs) (add_rows k xs p) \<and> valw (add_rows k xs p) = valw p + 2 ^ (LENGTH('a) * k) * val_rows (2 ^ LENGTH('a)) xs"
proof (induction xs arbitrary: k p)
  case (Cons x xs)
  have r: "blank (Suc k) (add2 k x p) \<and> valw (add2 k x p) = valw p + 2 ^ (LENGTH('a) * k) * unat x"
    using Cons.prems by (intro add2_row[OF W]) auto
  with Cons.IH[of "Suc k" "add2 k x p"] Cons.prems show ?case by (simp add: power_add distrib_left mult.assoc)
qed simp

lemma val64_4: "length p = 4 \<Longrightarrow> val64 p = unat (p ! 0) + 2 ^ 64 * unat (p ! 1) + 2 ^ 128 * unat (p ! 2) + 2 ^ 192 * unat (p ! 3)"
  by (auto dest!: buf4 simp: distrib_left)

text \<open>Schoolbook multiplication, the partial products split into their low and high words.\<close>

lemma schoolbook:
  fixes a b :: "nat \<Rightarrow> nat" and l h :: "nat \<Rightarrow> nat \<Rightarrow> nat" and W :: nat
  assumes "\<And>i j. l i j + W * h i j = a i * b j"
  shows "(a 0 + W * a 1 + W ^ 2 * a 2 + W ^ 3 * a 3) * (b 0 + W * b 1 + W ^ 2 * b 2 + W ^ 3 * b 3) =
    l 0 0 + W * ((h 0 0 + l 0 1 + l 1 0) + W * ((h 0 1 + h 1 0 + l 0 2 + l 1 1 + l 2 0) +
    W * ((h 0 2 + h 1 1 + h 2 0 + l 0 3 + l 1 2 + l 2 1 + l 3 0) + W * ((h 0 3 + h 1 2 + h 2 1 + h 3 0 + l 1 3 + l 2 2 + l 3 1) +
    W * ((h 1 3 + h 2 2 + h 3 1 + l 2 3 + l 3 2) + W * (h 2 3 + h 3 2 + a 3 * b 3))))))"
proof -
  have "(a 0 + W * a 1 + W ^ 2 * a 2 + W ^ 3 * a 3) * (b 0 + W * b 1 + W ^ 2 * b 2 + W ^ 3 * b 3) =
    a 0 * b 0 + W * (a 0 * b 1 + a 1 * b 0) + W ^ 2 * (a 0 * b 2 + a 1 * b 1 + a 2 * b 0) +
    W ^ 3 * (a 0 * b 3 + a 1 * b 2 + a 2 * b 1 + a 3 * b 0) + W ^ 4 * (a 1 * b 3 + a 2 * b 2 + a 3 * b 1) +
    W ^ 5 * (a 2 * b 3 + a 3 * b 2) + W ^ 6 * (a 3 * b 3)"
    by (simp add: algebra_simps power_numeral_reduce)
  also have "\<dots> = (l 0 0 + W * h 0 0) + W * ((l 0 1 + W * h 0 1) + (l 1 0 + W * h 1 0)) +
    W ^ 2 * ((l 0 2 + W * h 0 2) + (l 1 1 + W * h 1 1) + (l 2 0 + W * h 2 0)) +
    W ^ 3 * ((l 0 3 + W * h 0 3) + (l 1 2 + W * h 1 2) + (l 2 1 + W * h 2 1) + (l 3 0 + W * h 3 0)) +
    W ^ 4 * ((l 1 3 + W * h 1 3) + (l 2 2 + W * h 2 2) + (l 3 1 + W * h 3 1)) +
    W ^ 5 * ((l 2 3 + W * h 2 3) + (l 3 2 + W * h 3 2)) + W ^ 6 * (a 3 * b 3)"
    by (simp only: assms)
  finally show ?thesis by (simp add: algebra_simps power_numeral_reduce)
qed

lemma Multiply32_32_val:
  assumes "length n1 = 4" "length n2 = 4"
  shows "val64 (Multiply32_32 n1 n2) = val64 n1 * val64 n2" "length (Multiply32_32 n1 n2) = 8"
proof -
  define m where "m i j = mul64 (n1 ! i) (n2 ! j)" for i j
  define l where "l i j = lo64 (m i j)" for i j
  define h where "h i j = hi64 (m i j)" for i j
  define rows where "rows = [h 0 0 + l 0 1 + l 1 0, h 0 1 + h 1 0 + l 0 2 + l 1 1 + l 2 0,
    h 0 2 + h 1 1 + h 2 0 + l 0 3 + l 1 2 + l 2 1 + l 3 0, h 0 3 + h 1 2 + h 2 1 + h 3 0 + l 1 3 + l 2 2 + l 3 1,
    h 1 3 + h 2 2 + h 3 1 + l 2 3 + l 3 2]"
  define p where "p = Zero64[0 := ucast (m 0 0)]"
  define x where "x = h 2 3 + h 3 2 + m 3 3"
  have b: "blank 0 p" "blank 1 p" using blank_start[of "ucast (m 0 0)"] by (auto simp: p_def blank_def)
  have r: "Multiply32_32 n1 n2 = add128 6 x (add_rows 1 rows p)"
    using put128_blank[OF b(1)]
    by (simp add: Multiply32_32_def Let_def m_def[symmetric] l_def[symmetric] h_def[symmetric] rows_def x_def p_def[symmetric] eval_nat_numeral)
  have sl: "small 1 (l i j)" and sh: "small 1 (h i j)" for i j unfolding l_def h_def by (rule lo_hi_small)+
  have len: "even LENGTH(128)" "8 \<le> LENGTH(128)" by simp_all
  note r1 = small3[OF len sh sl sl, of 0 0 0 1 1 0] note r2 = small5[OF len sh sh sl sl sl, of 0 1 1 0 0 2 1 1 2 0]
  note r3 = small7[OF len sh sh sh sl sl sl sl, of 0 2 1 1 2 0 0 3 1 2 2 1 3 0]
  note r4 = small7[OF len sh sh sh sh sl sl sl, of 0 3 1 2 2 1 3 0 1 3 2 2 3 1]
  note r5 = small5[OF len sh sh sh sl sl, of 1 3 2 2 3 1 2 3 3 2]
  have s: "list_all (small 7) rows" unfolding rows_def using r1 r2 r3 r4 r5 by (auto intro: small_mono)
  have "length rows = 5" "val64 p = unat (l 0 0)"
    using blank_start(2)[of "ucast (m 0 0)"] by (simp_all only: rows_def p_def l_def lo64_def unat_up list.size)
  then have q: "blank 6 (add_rows 1 rows p)" "val64 (add_rows 1 rows p) = unat (l 0 0) + 2 ^ 64 * val_rows (2 ^ 64) rows"
    using add_rows_val[OF _ _ b(2) s] by simp_all
  define y where "y = unat (h 2 3) + unat (h 3 2) + unat (m 3 3)"
  have x: "unat x mod 2 ^ 128 = y mod 2 ^ 128"
    by (simp add: x_def y_def unat_word_ariths mod_simps)
  have P: "val64 n1 * val64 n2 = unat (l 0 0) + 2 ^ 64 * (val_rows (2 ^ 64) rows + 2 ^ 320 * y)"
  proof -
    have "unat (l i j) + 2 ^ 64 * unat (h i j) = unat (n1 ! i) * unat (n2 ! j)" for i j
      by (simp only: l_def h_def unat_lo_hi) (simp add: m_def unat_mul64)
    note sb = schoolbook[of "\<lambda>i j. unat (l i j)" "2 ^ 64" "\<lambda>i j. unat (h i j)", OF this, folded power_mult]
    have v: "unat (p ! 0) + 2 ^ 64 * unat (p ! 1) + 2 ^ (64 * 2) * unat (p ! 2) + 2 ^ (64 * 3) * unat (p ! 3) = val64 p" if "length p = 4" for p :: buf
      using val64_4[OF that] by simp
    have "unat (m 3 3) = unat (n1 ! 3) * unat (n2 ! 3)" by (simp add: m_def unat_mul64)
    then show ?thesis using sb unfolding v[OF assms(1)] v[OF assms(2)] rows_def val_rows.simps y_def
      r1[THEN conjunct2] r2[THEN conjunct2] r3[THEN conjunct2] r4[THEN conjunct2] r5[THEN conjunct2] by (simp only:) (simp add: algebra_simps)
  qed
  show "length (Multiply32_32 n1 n2) = 8" using q(1) by (simp add: r add2_def blank_def)
  have "val64 n1 * val64 n2 < 2 ^ 256 * 2 ^ 256"
    using val64_bound[of n1] val64_bound[of n2] assms by (intro mult_strict_mono) auto
  then show "val64 (Multiply32_32 n1 n2) = val64 n1 * val64 n2"
    using add128_top[OF _ x, of "add_rows 1 rows p"] q P by (simp add: r blank_def distrib_left)
qed

section \<open>Shifts and small products\<close>

lemma unat_push: "unat (push_bit b (x :: u128)) = unat x * 2 ^ b mod 2 ^ 128"
  by (simp only: unsigned_push_bit_eq) (simp add: push_bit_eq_mult take_bit_eq_mod)

lemma unat_drop: "unat (drop_bit b (x :: u128)) = unat x div 2 ^ b"
  using u128_less[of x] by (simp only: unsigned_drop_bit_eq) (simp add: drop_bit_eq_div take_bit_nat_eq_self)

lemma unat_push_or:
  assumes "0 < b" "b < 128"
  shows "unat (push_bit b x OR drop_bit (128 - b) (y :: u128)) = unat x * 2 ^ b mod 2 ^ 128 + unat y div 2 ^ (128 - b)"
proof -
  have 1: "unat x * 2 ^ b mod 2 ^ 128 = 2 ^ b * (unat x mod 2 ^ (128 - b))"
    using mult_mod_right[of "2 ^ b" "unat x" "2 ^ (128 - b)"] assms by (simp add: mult.commute flip: power_add)
  have "unat y div 2 ^ (128 - b) < 2 ^ b"
    using u128_less[of y] assms by (intro less_mult_imp_div_less) (simp flip: power_add)
  then have "push_bit b (unat x mod 2 ^ (128 - b)) OR unat y div 2 ^ (128 - b) = unat y div 2 ^ (128 - b) + 2 ^ b * (unat x mod 2 ^ (128 - b))"
    by (rule or_add_nat)
  moreover have "push_bit b (unat x mod 2 ^ (128 - b)) = unat x * 2 ^ b mod 2 ^ 128" unfolding 1 by (simp add: push_bit_eq_mult mult.commute)
  ultimately show ?thesis unfolding unsigned_or_eq unat_push unat_drop by (simp only: 1)
qed

lemma val64_put_halves: "val64 (put128 0 d0 (put128 2 d1 Zero32)) = unat d0 + 2 ^ 128 * unat d1"
  using unat_lohi[of d0] unat_lohi[of d1] by (simp add: put2_def Zero32_def distrib_left)

lemma ShiftLeft32_val:
  assumes "length n = 4" "b < 128"
  shows "val64 (ShiftLeft32 n b) = val64 n * 2 ^ b mod 2 ^ 256" "length (ShiftLeft32 n b) = 4"
proof -
  show "length (ShiftLeft32 n b) = 4" by (simp add: ShiftLeft32_def Copy32_def Zero32_def Let_def split: prod.split)
  show "val64 (ShiftLeft32 n b) = val64 n * 2 ^ b mod 2 ^ 256"
  proof (cases "b = 0")
    case True
    then show ?thesis using assms(1) val64_bound[of n] by (auto dest!: buf4 simp: ShiftLeft32_def Copy32_def)
  next
    case False
    let ?x = "unat (get128 0 n)" let ?y = "unat (get128 2 n)"
    have "?x div 2 ^ (128 - b) = ?x * 2 ^ b div 2 ^ 128"
      using div_mult_mult2[of "2 ^ b" ?x "2 ^ (128 - b)"] assms(2) by (simp flip: power_add)
    then have "val64 (ShiftLeft32 n b) = ?x * 2 ^ b + 2 ^ 128 * (?y * 2 ^ b mod 2 ^ 128)"
      using False assms(2) mod_mult_div_eq[of "?x * 2 ^ b" "2 ^ 128"]
      by (simp add: ShiftLeft32_def Let_def val64_put_halves unat_push unat_push_or distrib_left)
    moreover have "2 ^ 128 * (?y * 2 ^ b mod 2 ^ 128) = 2 ^ 128 * (?y * 2 ^ b) mod 2 ^ 256" 
      using mult_mod_right[of "2 ^ 128" "?y * 2 ^ b" "2 ^ 128"] by simp
    ultimately have "val64 (ShiftLeft32 n b) mod 2 ^ 256 = (?x * 2 ^ b + 2 ^ 128 * (?y * 2 ^ b)) mod 2 ^ 256"
      by (simp only: mod_add_right_eq)
    also have "?x * 2 ^ b + 2 ^ 128 * (?y * 2 ^ b) = val64 n * 2 ^ b" by (simp only: val64_halves[OF assms(1)] distrib_right mult.assoc)
    finally have "val64 (ShiftLeft32 n b) mod 2 ^ 256 = val64 n * 2 ^ b mod 2 ^ 256" .
    then show ?thesis using val64_bound[of "ShiftLeft32 n b"] \<open>length (ShiftLeft32 n b) = 4\<close> by simp
  qed
qed

lemma Multiply8_8_val: "val64 (Multiply8_8 a b) = unat a * unat b" "length (Multiply8_8 a b) = 2"
  using unat_lohi[of "mul64 a b"] by (simp_all add: Multiply8_8_def put2_def unat_mul64)

lemma Multiply16_8_val:
  assumes "length n = 2"
  shows "val64 (Multiply16_8 n b) = val64 n * unat b" "length (Multiply16_8 n b) = 4"
proof -
  obtain x y where n: "n = [x, y]" using assms by (auto simp: numeral_2_eq_2 length_Suc_conv)
  define q0 q1 where "q0 = mul64 x b" and "q1 = mul64 y b"
  have "unat y \<le> 2 ^ 64 - 1" "unat b \<le> 2 ^ 64 - 1" using u64_less[of y] u64_less[of b] by simp_all
  then have "unat q1 \<le> (2 ^ 64 - 1) * (2 ^ 64 - 1)" unfolding q1_def unat_mul64 by (rule mult_le_mono)
  then have "unat (hi64 q0) + unat q1 < 2 ^ LENGTH(128)" using lo_hi_small(2)[of q0] by (simp add: small_def)
  then have "unat (hi64 q0 + q1) = unat (hi64 q0) + unat q1" by (rule unat_add_lem[THEN iffD1])
  moreover have "val64 (Multiply16_8 n b) = unat (ucast q0 :: u64) + 2 ^ 64 * unat (hi64 q0 + q1)"
    using unat_lohi[of "hi64 q0 + q1"]
    by (simp add: Multiply16_8_def Let_def n q0_def[symmetric] q1_def[symmetric] put2_def Zero32_def)
  moreover have "unat (ucast q0 :: u64) = unat (lo64 q0)" by (simp only: lo64_def unat_up)
  ultimately have "val64 (Multiply16_8 n b) = unat q0 + 2 ^ 64 * unat q1" using unat_lo_hi[of q0] by (simp only: distrib_left add.assoc[symmetric])
  then show "val64 (Multiply16_8 n b) = val64 n * unat b" by (simp add: n q0_def q1_def unat_mul64 distrib_right)
  show "length (Multiply16_8 n b) = 4" by (simp add: Multiply16_8_def Let_def Zero32_def)
qed

text \<open>Addition and subtraction when they do not wrap, and subtraction when it does.\<close>

lemma carry_none: "s + N * c = t \<Longrightarrow> t < N \<Longrightarrow> c = (0 :: nat)"
  by (cases c) auto

lemma borrow_none: "d + y = x + N * b \<Longrightarrow> y \<le> x \<Longrightarrow> d < N \<Longrightarrow> b = (0 :: nat)"
  by (cases b) auto

lemma Add32_exact:
  assumes "length n1 = 4" "length n2 = 4" "val64 n1 + val64 n2 < 2 ^ 256"
  shows "val64 (fst (Add32 n1 n2)) = val64 n1 + val64 n2" "length (fst (Add32 n1 n2)) = 4" "snd (Add32 n1 n2) = 0"
proof -
  obtain s c where e: "Add32 n1 n2 = (s, c)" by fastforce
  note a = Add32_val[OF assms(1,2) e]
  have "unat c = 0" by (rule carry_none[OF a(1) assms(3)])
  then show "val64 (fst (Add32 n1 n2)) = val64 n1 + val64 n2" "length (fst (Add32 n1 n2)) = 4" "snd (Add32 n1 n2) = 0"
    using a e by (simp_all add: unsigned_eq_0_iff)
qed

lemma Add32_wrap:
  assumes "length n1 = 4" "length n2 = 4"
  shows "val64 (fst (Add32 n1 n2)) = (val64 n1 + val64 n2) mod 2 ^ 256" "length (fst (Add32 n1 n2)) = 4"
proof -
  obtain s c where e: "Add32 n1 n2 = (s, c)" by fastforce
  note a = Add32_val[OF assms(1,2) e]
  have "val64 s < 2 ^ 256" using val64_bound[of s] a(3) by simp
  then show "val64 (fst (Add32 n1 n2)) = (val64 n1 + val64 n2) mod 2 ^ 256" "length (fst (Add32 n1 n2)) = 4"
    using a(3) unfolding a(1)[symmetric] e by simp_all
qed

lemma Sub32_exact:
  assumes "length n1 = 4" "length n2 = 4" "val64 n2 \<le> val64 n1"
  shows "val64 (fst (Sub32 n1 n2)) = val64 n1 - val64 n2" "length (fst (Sub32 n1 n2)) = 4" "snd (Sub32 n1 n2) = 0"
proof -
  obtain d b where e: "Sub32 n1 n2 = (d, b)" by fastforce
  note a = Sub32_val[OF assms(1,2) e]
  have "val64 d < 2 ^ 256" using val64_bound[of d] a(3) by simp
  then have "unat b = 0" using a(1) assms(3) by (intro borrow_none)
  then show "val64 (fst (Sub32 n1 n2)) = val64 n1 - val64 n2" "length (fst (Sub32 n1 n2)) = 4" "snd (Sub32 n1 n2) = 0"
    using a e by (simp_all add: unsigned_eq_0_iff)
qed

lemma Sub32_wrap:
  assumes "length n1 = 4" "length n2 = 4" "val64 n1 < val64 n2"
  shows "val64 (fst (Sub32 n1 n2)) = val64 n1 + 2 ^ 256 - val64 n2" "length (fst (Sub32 n1 n2)) = 4" "snd (Sub32 n1 n2) = 1"
proof -
  obtain d b where e: "Sub32 n1 n2 = (d, b)" by fastforce
  note a = Sub32_val[OF assms(1,2) e]
  have "b = 1" using bit_word[OF a(2)] a(1) assms(3) by auto
  then show "val64 (fst (Sub32 n1 n2)) = val64 n1 + 2 ^ 256 - val64 n2" "length (fst (Sub32 n1 n2)) = 4" "snd (Sub32 n1 n2) = 1"
    using a e by simp_all
qed

end
