(* ===== verification/SC25519.thy ===== *)
theory SC25519
  imports Base25519
begin

text \<open>
  \<^verbatim>\<open>src/src/crypto/curve25519/sc25519.cpp\<close>: the scalars of curve 25519, the integers modulo its group order
  \<open>sc_order = 2^252 + 27742317777372353535851937790883648493\<close>. A \<^verbatim>\<open>CSC25519\<close> is its \<^verbatim>\<open>value\<close>, four words; every operation is the
  code's, on words, and the lemmas give the number it leaves.
\<close>

unbundle bit_operations_syntax

type_synonym csc25519 = buf

definition sc_prime :: buf where
  "sc_prime = [0x5812631a5cf5d3ed, 0x14def9dea2f79cd6, 0, 0x1000000000000000]"

definition sc_reminder :: buf where
  "sc_reminder = [0x5812631a5cf5d3ed, 0x14def9dea2f79cd6]"

definition sc_reminders :: "buf list" where
  "sc_reminders =
    [[0, 0, 0, 0],
     [0x0000000000000000, 0x0000000000000000, 0x0000000000000000, 0x1000000000000000],
     [0xa7ed9ce5a30a2c13, 0xeb2106215d086329, 0xffffffffffffffff, 0x0fffffffffffffff],
     [0x4fdb39cb46145826, 0xd6420c42ba10c653, 0xffffffffffffffff, 0x0fffffffffffffff],
     [0xf7c8d6b0e91e8439, 0xc16312641719297c, 0xffffffffffffffff, 0x0fffffffffffffff],
     [0x9fb673968c28b04c, 0xac84188574218ca6, 0xffffffffffffffff, 0x0fffffffffffffff],
     [0x47a4107c2f32dc5f, 0x97a51ea6d129efd0, 0xffffffffffffffff, 0x0fffffffffffffff],
     [0xef91ad61d23d0872, 0x82c624c82e3252f9, 0xffffffffffffffff, 0x0fffffffffffffff],
     [0x977f4a4775473485, 0x6de72ae98b3ab623, 0xffffffffffffffff, 0x0fffffffffffffff],
     [0x3f6ce72d18516098, 0x5908310ae843194d, 0xffffffffffffffff, 0x0fffffffffffffff],
     [0xe75a8412bb5b8cab, 0x4429372c454b7c76, 0xffffffffffffffff, 0x0fffffffffffffff],
     [0x8f4820f85e65b8be, 0x2f4a3d4da253dfa0, 0xffffffffffffffff, 0x0fffffffffffffff],
     [0x3735bdde016fe4d1, 0x1a6b436eff5c42ca, 0xffffffffffffffff, 0x0fffffffffffffff],
     [0xdf235ac3a47a10e4, 0x058c49905c64a5f3, 0xffffffffffffffff, 0x0fffffffffffffff],
     [0x8710f7a947843cf7, 0xf0ad4fb1b96d091d, 0xfffffffffffffffe, 0x0fffffffffffffff],
     [0x2efe948eea8e690a, 0xdbce55d316756c47, 0xfffffffffffffffe, 0x0fffffffffffffff]]"

definition sc_mu :: buf where
  "sc_mu = [0x9fb673968c28b04c, 0xac84188574218ca6, 0xffffffffffffffff, 0x3fffffffffffffff]"

definition sc_Reduce :: "csc25519 \<Rightarrow> csc25519" where
  "sc_Reduce v = (if Compare32 v sc_prime \<ge> 0 then fst (Sub32 v sc_prime) else v)"

text \<open>\<^verbatim>\<open>Reduce(carry)\<close>: the number is the value and \<open>carry\<close> times \<open>2^256\<close>. The top byte of the buffer is the top byte of word
  3; \<open>carry << 4\<close> is computed in 32 bits.\<close>

definition sc_Reduce_carry :: "u32 \<Rightarrow> csc25519 \<Rightarrow> csc25519" where
  "sc_Reduce_carry carry v =
     (if carry = 0 then
        if Compare32 v sc_prime \<ge> 0 then
          let t = drop_bit 4 (byte_at 31 v)
          in if t = 1 then fst (Sub32 v sc_prime)
             else let v1 = v[3 := v ! 3 AND 0x0fffffffffffffff];
                      v2 = fst (Add32 v1 (sc_reminders ! unat t))
                  in if Compare32 v2 sc_prime \<ge> 0 then fst (Sub32 v2 sc_prime) else v2
        else v
      else
        let c = ucast (push_bit 4 carry) + drop_bit 60 (v ! 3);
            product = Multiply16_8 sc_reminder c;
            product' = fst (Sub32 sc_prime product);
            v1 = v[3 := v ! 3 AND 0x0fffffffffffffff]
        in sc_Reduce (fst (Add32 product' v1)))"

text \<open>The words of half the width, in memory order.\<close>

definition words32 :: "buf \<Rightarrow> u32 list" where
  "words32 p = concat (map (\<lambda>x. [ucast x, ucast (drop_bit 32 x)]) p)"

definition words64 :: "u32 list \<Rightarrow> buf" where
  "words64 p = map (\<lambda>i. get2 (2 * i) p) [0..<length p div 2]"

text \<open>\<open>r2 = q3 * prime\<close> modulo \<open>2^256\<close>, accumulated over the 32-bit words of the ten products.\<close>

definition barrett_acc :: "u32 list list \<Rightarrow> u32 list" where
  "barrett_acc tmp =
     (let u = (\<lambda>k i. ucast (tmp ! k ! i) :: u64);
          p0 = [tmp ! 0 ! 0, tmp ! 0 ! 1, 0, 0, 0, 0, 0, 0];
          p2 = add2 2 (u 0 2 + u 1 0 + u 2 0) p0;
          p3 = add2 3 (u 0 3 + u 1 1 + u 2 1) p2;
          p4 = add2 4 (u 1 2 + u 2 2 + u 3 0 + u 4 0 + u 5 0) p3;
          p5 = add2 5 (u 1 3 + u 2 3 + u 3 1 + u 4 1 + u 5 1) p4;
          p6 = add2 6 (u 3 2 + u 4 2 + u 5 2 + u 6 0 + u 7 0 + u 8 0 + u 9 0) p5
      in p6[7 := p6 ! 7 + (tmp ! 3 ! 3 + tmp ! 4 ! 3 + tmp ! 5 ! 3 + tmp ! 6 ! 1 + tmp ! 7 ! 1 + tmp ! 8 ! 1 + tmp ! 9 ! 1)])"

definition barrett_r2 :: "buf \<Rightarrow> buf" where
  "barrett_r2 q3 =
     (let t = (\<lambda>i j. words32 (Multiply8_8 (q3 ! i) (sc_prime ! j)))
      in words64 (barrett_acc [t 0 0, t 0 1, t 1 0, t 0 2, t 1 1, t 2 0, t 0 3, t 1 2, t 2 1, t 3 0]))"

definition BarrettReduce :: "buf \<Rightarrow> csc25519" where
  "BarrettReduce m =
     (let r1 = (Copy32 m)[3 := m ! 3 AND 0x3fffffffffffffff];
          s = ShiftLeft32 (drop 4 m) 4;
          q1 = s[0 := s ! 0 OR drop_bit 60 (m ! 3)];
          q2 = Multiply32_32 q1 sc_mu;
          q3 = map (\<lambda>i. push_bit 2 (q2 ! (i + 4)) OR drop_bit 62 (q2 ! (i + 3))) [0..<4];
          r2 = barrett_r2 q3;
          r2' = r2[3 := r2 ! 3 AND 0x3fffffffffffffff];
          r1' = (if Compare32 r1 r2' < 0 then r1[3 := r1 ! 3 OR 0x4000000000000000] else r1)
      in sc_Reduce_carry 0 (fst (Sub32 r1' r2')))"

text \<open>Construction, packing and the operators.\<close>

definition sc_zero :: csc25519 where
  "sc_zero = Zero32"

definition sc_of_u64 :: "u64 \<Rightarrow> csc25519" where
  "sc_of_u64 u = Copy32_u64 u"

definition sc_Unpack :: "buf \<Rightarrow> csc25519" where
  "sc_Unpack md32 = sc_Reduce_carry 0 (Copy32 md32)"

definition sc_of_list :: "u64 list \<Rightarrow> csc25519" where
  "sc_of_list l = take 4 l @ replicate (4 - length l) 0"

definition sc_Pack :: "csc25519 \<Rightarrow> buf" where
  "sc_Pack v = Copy32 v"

definition sc_Negative :: "csc25519 \<Rightarrow> csc25519" where
  "sc_Negative v = fst (Sub32 sc_prime v)"

definition sc_add :: "csc25519 \<Rightarrow> csc25519 \<Rightarrow> csc25519" where
  "sc_add a b = sc_Reduce (fst (Add32 a b))"

definition sc_sub :: "csc25519 \<Rightarrow> csc25519 \<Rightarrow> csc25519" where
  "sc_sub a b = (case Sub32 a b of (d, borrow) \<Rightarrow> if borrow > 0 then fst (Add32 d sc_prime) else d)"

definition sc_neg :: "csc25519 \<Rightarrow> csc25519" where
  "sc_neg a = sc_sub sc_zero a"

definition sc_mul :: "csc25519 \<Rightarrow> csc25519 \<Rightarrow> csc25519" where
  "sc_mul a b = BarrettReduce (Multiply32_32 a b)"

text \<open>\<open>operator*=(uint32)\<close>: the loop over the four words, carry in 32 bits.\<close>

fun sc_mul32_loop :: "u32 \<Rightarrow> u64 list \<Rightarrow> u32 \<Rightarrow> u64 list \<times> u32" where
  "sc_mul32_loop b [] carry = ([], carry)"
| "sc_mul32_loop b (x # xs) carry =
     (let m = mul64 x (ucast b) + ucast carry;
          (ys, c) = sc_mul32_loop b xs (ucast (drop_bit 64 m))
      in (ucast m # ys, c))"

definition sc_mul32 :: "csc25519 \<Rightarrow> u32 \<Rightarrow> csc25519" where
  "sc_mul32 a b = (case sc_mul32_loop b a 0 of (v, carry) \<Rightarrow> sc_Reduce_carry carry v)"

definition sc_eq :: "csc25519 \<Rightarrow> csc25519 \<Rightarrow> bool" where
  "sc_eq a b \<longleftrightarrow> Compare32 a b = 0"

definition sc_Reduce64 :: "buf \<Rightarrow> csc25519" where
  "sc_Reduce64 m =
     (if (byte_at 63 m AND 0xFC) \<noteq> 0 then BarrettReduce (take 4 m @ sc_Pack (sc_Unpack (drop 4 m)))
      else BarrettReduce m)"

section \<open>The numbers\<close>

definition sc_order :: nat where
  "sc_order = 2 ^ 252 + 27742317777372353535851937790883648493"

lemma sc_prime_val: "val64 sc_prime = sc_order" "length sc_prime = 4"
  by (simp_all add: sc_prime_def sc_order_def)

lemma sc_mu_val: "val64 sc_mu = 2 ^ 506 div sc_order" "length sc_mu = 4"
proof -
  have "2 ^ 506 div sc_order = val64 sc_mu" by (rule div_nat_eqI) (simp_all add: sc_mu_def sc_order_def)
  then show "val64 sc_mu = 2 ^ 506 div sc_order" by simp
  show "length sc_mu = 4" by (simp add: sc_mu_def)
qed

lemma sc_mu_bound: "2 ^ 506 div sc_order < 2 ^ 254"
  unfolding sc_mu_val(1)[symmetric] by (simp add: sc_mu_def)

lemma sc_reminder_val: "val64 sc_reminder = sc_order - 2 ^ 252" "length sc_reminder = 2"
  by (simp_all add: sc_reminder_def sc_order_def)

lemma sc_reminders_val:
  "0 < t \<Longrightarrow> t < 16 \<Longrightarrow> val64 (sc_reminders ! t) + t * (sc_order - 2 ^ 252) = sc_order \<and> length (sc_reminders ! t) = 4"
proof -
  have "list_all (\<lambda>t. val64 (sc_reminders ! t) + t * (sc_order - 2 ^ 252) = sc_order \<and> length (sc_reminders ! t) = 4) [1..<16]"
    by (simp add: sc_reminders_def sc_order_def upt_rec)
  then show "0 < t \<Longrightarrow> t < 16 \<Longrightarrow> ?thesis" by (simp add: list_all_iff)
qed

lemma sc_order_bounds: "2 ^ 252 < sc_order" "sc_order < 2 ^ 253" "4 * sc_order < 2 ^ 255" "0 < sc_order"
  by (simp_all add: sc_order_def)

lemma Sub_prime_val:
  assumes "length v = 4" "sc_order \<le> val64 v"
  shows "val64 (fst (Sub32 v sc_prime)) = val64 v - sc_order" "length (fst (Sub32 v sc_prime)) = 4"
  using Sub32_exact[OF assms(1) sc_prime_val(2)] assms(2) by (simp_all add: sc_prime_val)

lemma Compare_prime: "length v = 4 \<Longrightarrow> Compare32 v sc_prime \<ge> 0 \<longleftrightarrow> sc_order \<le> val64 v"
  by (simp add: Compare32_val sc_prime_val)

lemma sc_Reduce_val:
  assumes "length v = 4" "val64 v < 2 * sc_order"
  shows "val64 (sc_Reduce v) = val64 v mod sc_order \<and> length (sc_Reduce v) = 4"
  using assms by (simp add: sc_Reduce_def Compare_prime Sub_prime_val mod_if)

text \<open>The word that holds the top bits, split at bit 252 or 254.\<close>

lemma mask_words: "(0x0fffffffffffffff :: u64) = mask 60" "(0x3fffffffffffffff :: u64) = mask 62"
  by (simp_all add: mask_eq_exp_minus_1)

lemma unat_low: "unat (d AND mask n :: u64) = unat d mod 2 ^ n"
  by (simp only: take_bit_eq_mask[symmetric] unsigned_take_bit_eq) (simp add: take_bit_eq_mod)

lemma unat_high: "unat (drop_bit n d :: u64) = unat d div 2 ^ n"
  using u64_less[of d] by (simp only: unsigned_drop_bit_eq) (simp add: drop_bit_eq_div take_bit_nat_eq_self)

lemma low_high_arith:
  fixes x y z d N M :: nat
  assumes "r < 2 ^ 192"
  shows "(r + 2 ^ 192 * d) mod 2 ^ (192 + n) = r + 2 ^ 192 * (d mod 2 ^ n)" "(r + 2 ^ 192 * d) div 2 ^ (192 + n) = d div 2 ^ n"
proof -
  have "(r + 2 ^ 192 * d) div 2 ^ 192 = d" "(r + 2 ^ 192 * d) mod 2 ^ 192 = r" using assms by simp_all
  then show "(r + 2 ^ 192 * d) div 2 ^ (192 + n) = d div 2 ^ n" "(r + 2 ^ 192 * d) mod 2 ^ (192 + n) = r + 2 ^ 192 * (d mod 2 ^ n)"
    by (simp_all only: power_add div_mult2_eq mod_mult2_eq)
qed

lemma split_top:
  assumes "length v = 4"
  shows "val64 (v[3 := v ! 3 AND mask n]) = val64 v mod 2 ^ (192 + n)" "unat (drop_bit n (v ! 3)) = val64 v div 2 ^ (192 + n)"
proof -
  obtain a b c d where v: "v = [a, b, c, d]" using buf4[OF assms] by blast
  define r where "r = val64 [a, b, c]"
  have e: "val64 v = r + 2 ^ 192 * unat d" "val64 (v[3 := v ! 3 AND mask n]) = r + 2 ^ 192 * unat (d AND mask n)" "v ! 3 = d"
    by (simp_all add: v r_def)
  have "r < 2 ^ 192" using val64_bound[of "[a, b, c]"] by (simp add: r_def)
  note A = low_high_arith[OF this, of "unat d" n]
  show "val64 (v[3 := v ! 3 AND mask n]) = val64 v mod 2 ^ (192 + n)" unfolding e(1) e(2) A unat_low ..
  show "unat (drop_bit n (v ! 3)) = val64 v div 2 ^ (192 + n)" unfolding e(1) e(3) A unat_high ..
qed

lemma top_nibble:
  assumes "length v = 4"
  shows "unat (drop_bit 4 (byte_at 31 v)) = val64 v div 2 ^ 252"
proof -
  have "drop_bit 56 (v ! 3) < 2 ^ 8" by (simp add: word_less_nat_alt unat_high less_mult_imp_div_less u64_less[simplified])
  then have "unat (byte_at 31 v) = unat (v ! 3) div 2 ^ 56"
    by (simp add: byte_at_def unsigned_ucast_eq unat_high take_bit_nat_eq_self word_less_nat_alt)
  moreover have "unat (drop_bit 4 (byte_at 31 v)) = unat (byte_at 31 v) div 2 ^ 4"
    using unsigned_less[of "byte_at 31 v", where ?'a = nat] by (simp only: unsigned_drop_bit_eq) (simp add: drop_bit_eq_div take_bit_nat_eq_self)
  ultimately have "unat (drop_bit 4 (byte_at 31 v)) = unat (v ! 3) div 2 ^ 60" by (simp flip: div_mult2_eq)
  then show ?thesis using split_top(2)[OF assms, of 60] unat_high[of 60 "v ! 3"] by simp
qed

text \<open>\<open>2^252\<close> is congruent to \<open>2^252 - sc_order\<close>, a small negative number.\<close>

lemma fold_top:
  assumes "x = l + t * 2 ^ 252"  "k + t * (sc_order - 2 ^ 252) = sc_order"
  shows "(l + k) mod sc_order = x mod sc_order"
proof -
  have "t * sc_order = t * (sc_order - 2 ^ 252) + t * 2 ^ 252" using sc_order_bounds(1) by (simp flip: distrib_left)
  then have "l + k + t * sc_order = l + (k + t * (sc_order - 2 ^ 252)) + t * 2 ^ 252" by simp
  also have "\<dots> = x + sc_order" using assms by simp
  finally have "(l + k + t * sc_order) mod sc_order = (x + sc_order) mod sc_order" by simp
  then show ?thesis by simp
qed

lemma sc_Reduce_0_val:
  assumes v: "length v = 4"
  shows "val64 (sc_Reduce_carry 0 v) = val64 v mod sc_order \<and> length (sc_Reduce_carry 0 v) = 4"
proof (cases "sc_order \<le> val64 v")
  case True
  define t where "t = val64 v div 2 ^ 252"
  have t: "unat (drop_bit 4 (byte_at 31 v)) = t" using top_nibble[OF v] by (simp add: t_def)
  have "t < 16" using val64_bound[of v] v unfolding t_def by (intro less_mult_imp_div_less) simp
  have "2 ^ 252 div 2 ^ 252 \<le> t" unfolding t_def using True sc_order_bounds(1) by (intro div_le_mono) simp
  then have "0 < t" by simp
  show ?thesis
  proof (cases "t = 1")
    case True
    then have "drop_bit 4 (byte_at 31 v) = 1" using t by (simp add: word_unat_eq_iff)
    moreover have "val64 v < 2 * 2 ^ 252" using True div_less_iff_less_mult[of "2 ^ 252" "val64 v" 2] by (simp add: t_def)
    then have "val64 v - sc_order = val64 v mod sc_order" using \<open>sc_order \<le> val64 v\<close> sc_order_bounds(1) by (simp add: mod_if)
    ultimately show ?thesis using \<open>sc_order \<le> val64 v\<close> v by (simp add: sc_Reduce_carry_def Compare_prime Sub_prime_val)
  next
    case False
    then have "drop_bit 4 (byte_at 31 v) \<noteq> 1" using t by auto
    define w where "w = v[3 := v ! 3 AND 0x0fffffffffffffff]"
    define r where "r = sc_reminders ! t"
    have w: "val64 w = val64 v mod 2 ^ 252" "length w = 4" using split_top(1)[OF v, of 60] v unfolding w_def mask_words by simp_all
    have r: "val64 r + t * (sc_order - 2 ^ 252) = sc_order" "length r = 4" using sc_reminders_val[OF \<open>0 < t\<close> \<open>t < 16\<close>] by (simp_all add: r_def)
    have "val64 w < 2 ^ 252" by (simp add: w(1))
    moreover have "val64 r \<le> sc_order" by (subst r(1)[symmetric]) simp
    ultimately have s: "val64 w + val64 r < 2 * sc_order" using sc_order_bounds(1) by simp
    then have a: "val64 (fst (Add32 w r)) = val64 w + val64 r" "length (fst (Add32 w r)) = 4"
      using Add32_exact[OF w(2) r(2)] sc_order_bounds by simp_all
    have "(val64 w + val64 r) mod sc_order = val64 v mod sc_order"
      by (rule fold_top[OF _ r(1)]) (simp add: w(1) t_def)
    moreover have "sc_Reduce_carry 0 v = sc_Reduce (fst (Add32 w r))"
      using \<open>sc_order \<le> val64 v\<close> v \<open>drop_bit 4 (byte_at 31 v) \<noteq> 1\<close>
      by (simp add: sc_Reduce_carry_def Compare_prime Let_def t w_def[symmetric] r_def[symmetric] sc_Reduce_def)
    ultimately show ?thesis using sc_Reduce_val[OF a(2)] a(1) s by simp
  qed
next
  case False
  then show ?thesis using v by (simp add: sc_Reduce_carry_def Compare_prime)
qed

lemma carry_shift:
  assumes "unat (carry :: u32) < 2 ^ 28"
  shows "unat (ucast (push_bit 4 carry) :: u64) = 16 * unat carry"
proof -
  have "unat (push_bit 4 carry) = 16 * unat carry"
    using assms by (simp only: unsigned_push_bit_eq) (simp add: push_bit_eq_mult take_bit_nat_eq_self)
  then show ?thesis using assms by (simp add: unsigned_ucast_eq take_bit_nat_eq_self)
qed

lemma sc_Reduce_carry_val:
  assumes v: "length v = 4" and c: "unat carry < 2 ^ 28"
  shows "val64 (sc_Reduce_carry carry v) = (val64 v + 2 ^ 256 * unat carry) mod sc_order \<and> length (sc_Reduce_carry carry v) = 4"
proof (cases "carry = 0")
  case True
  then show ?thesis using sc_Reduce_0_val[OF v] by simp
next
  case False
  define h where "h = val64 v div 2 ^ 252"
  define k where "k = ucast (push_bit 4 carry) + drop_bit 60 (v ! 3)"
  define w where "w = v[3 := v ! 3 AND 0x0fffffffffffffff]"
  define p where "p = Multiply16_8 sc_reminder k"
  have w: "val64 w = val64 v mod 2 ^ 252" "length w = 4" using split_top(1)[OF v, of 60] v unfolding w_def mask_words by simp_all
  have h: "unat (drop_bit 60 (v ! 3)) = h" using split_top(2)[OF v, of 60] by (simp add: h_def)
  have h16: "h < 16" using val64_bound[of v] v unfolding h_def by (intro less_mult_imp_div_less) simp
  have "unat (ucast (push_bit 4 carry) :: u64) + unat (drop_bit 60 (v ! 3)) < 2 ^ LENGTH(64)"
    using c h16 unfolding h carry_shift[OF c] by simp
  then have k: "unat k = 16 * unat carry + h" unfolding k_def by (simp only: unat_add_lem[THEN iffD1] h carry_shift[OF c])
  have p: "val64 p = (sc_order - 2 ^ 252) * unat k" "length p = 4"
    using Multiply16_8_val[OF sc_reminder_val(2), of k] by (simp_all add: p_def sc_reminder_val)
  have "val64 p \<le> (sc_order - 2 ^ 252) * 2 ^ 32" unfolding p(1) using k c h16 by (intro mult_left_mono) auto
  also have "\<dots> < 2 ^ 252" by (simp add: sc_order_def)
  finally have pb: "val64 p < sc_order" using sc_order_bounds(1) by linarith
  then have q: "val64 (fst (Sub32 sc_prime p)) = sc_order - val64 p" "length (fst (Sub32 sc_prime p)) = 4"
    using Sub32_exact[OF sc_prime_val(2) p(2)] by (simp_all add: sc_prime_val)
  have s: "sc_order - val64 p + val64 w < 2 * sc_order" using sc_order_bounds(1) unfolding w(1) by (simp add: add_le_less_mono mult_2 less_trans[OF mod_less_divisor])
  then have a: "val64 (fst (Add32 (fst (Sub32 sc_prime p)) w)) = sc_order - val64 p + val64 w" "length (fst (Add32 (fst (Sub32 sc_prime p)) w)) = 4"
    using Add32_exact[OF q(2) w(2)] sc_order_bounds by (simp_all add: q(1))
  have "(val64 w + (sc_order - val64 p)) mod sc_order = (val64 v + 2 ^ 256 * unat carry) mod sc_order"
  proof (rule fold_top)
    show "val64 v + 2 ^ 256 * unat carry = val64 w + unat k * 2 ^ 252" unfolding w(1) k h_def by (simp add: algebra_simps)
    show "sc_order - val64 p + unat k * (sc_order - 2 ^ 252) = sc_order" using pb p(1) by (simp add: mult.commute)
  qed
  then show ?thesis using sc_Reduce_val[OF a(2)] a(1) s False
    by (simp add: sc_Reduce_carry_def Let_def k_def[symmetric] p_def[symmetric] w_def[symmetric] add.commute)
qed

section \<open>Barrett reduction\<close>

lemma valw_words32: "valw (words32 p) = valw p" "length (words32 p) = 2 * length p"
proof -
  have "unat (ucast x :: u32) + 2 ^ 32 * unat (ucast (drop_bit 32 x) :: u32) = unat x" for x :: u64
    using unat_lohi_gen[where 'a = 32 and 'b = 64, of x] by (simp only: len_num0 len_of_numeral_defs) simp
  then show "valw (words32 p) = valw p" by (induction p) (simp_all add: words32_def distrib_left flip: add.assoc)
  show "length (words32 p) = 2 * length p" by (induction p) (simp_all add: words32_def)
qed

lemma buf8: "length p = 8 \<Longrightarrow> \<exists>a b c d e f g h. p = [a, b, c, d, e, f, g, h]"
  by (auto simp: numeral_eq_Suc length_Suc_conv)

lemma valw_words64: "length p = 8 \<Longrightarrow> valw (words64 p) = valw p \<and> length (words64 p) = 4"
  using unat_get2[where 'a = 32 and 'b = 64]
  by (auto dest!: buf8 simp: words64_def upt_rec distrib_left)

lemma column_sums:
  fixes V :: nat and T :: "nat \<Rightarrow> nat" and t :: "nat \<Rightarrow> nat \<Rightarrow> nat"
  assumes "\<And>i. T i = t i 0 + V * t i 1 + V ^ 2 * t i 2 + V ^ 3 * t i 3"
  shows "(t 0 0 + V * t 0 1 + V ^ 2 * ((t 0 2 + t 1 0 + t 2 0) + V * ((t 0 3 + t 1 1 + t 2 1) +
    V * ((t 1 2 + t 2 2 + t 3 0 + t 4 0 + t 5 0) + V * ((t 1 3 + t 2 3 + t 3 1 + t 4 1 + t 5 1) +
    V * (t 3 2 + t 4 2 + t 5 2 + t 6 0 + t 7 0 + t 8 0 + t 9 0))))) + V ^ 7 * (t 3 3 + t 4 3 + t 5 3 + t 6 1 + t 7 1 + t 8 1 + t 9 1)) mod V ^ 8 =
    (T 0 + V ^ 2 * (T 1 + T 2) + V ^ 4 * (T 3 + T 4 + T 5) + V ^ 6 * (T 6 + T 7 + T 8 + T 9)) mod V ^ 8" (is "?E mod _ = ?S mod _")
proof -
  have "?S = ?E + V ^ 8 * (t 6 2 + V * t 6 3 + t 7 2 + V * t 7 3 + t 8 2 + V * t 8 3 + t 9 2 + V * t 9 3)"
    unfolding assms by (simp add: algebra_simps power_numeral_reduce)
  then show ?thesis by simp
qed

lemma update_mod:
  fixes p :: "u32 list"
  assumes "length p = 8"
  shows "valw (p[7 := p ! 7 + x]) mod 2 ^ 256 = (valw p + 2 ^ 224 * unat x) mod 2 ^ 256"
proof -
  let ?s = "unat (p ! 7) + unat x"
  have "unat (p ! 7 + x) = ?s mod 2 ^ 32" using unat_word_ariths(1)[of "p ! 7" x] by simp
  moreover have "2 ^ 224 * (?s mod 2 ^ 32) + 2 ^ 224 * 2 ^ 32 * (?s div 2 ^ 32) = 2 ^ 224 * ?s"
    by (simp only: mult.assoc distrib_left[symmetric] mod_mult_div_eq)
  ultimately have "2 ^ 224 * unat (p ! 7 + x) + 2 ^ 256 * (?s div 2 ^ 32) = 2 ^ 224 * unat (p ! 7) + 2 ^ 224 * unat x"
    by (simp add: distrib_left)
  moreover have "valw (p[7 := p ! 7 + x]) + 2 ^ 224 * unat (p ! 7) = valw p + 2 ^ 224 * unat (p ! 7 + x)"
    using valw_update[of 7 p "p ! 7 + x"] assms by simp
  ultimately have "valw p + 2 ^ 224 * unat x = valw (p[7 := p ! 7 + x]) + 2 ^ 256 * (?s div 2 ^ 32)" by linarith
  then show ?thesis by simp
qed

lemma words32_product:
  assumes "t = words32 (Multiply8_8 a b)"
  shows "unat a * unat b = unat (t ! 0) + 2 ^ 32 * unat (t ! 1) + (2 ^ 32) ^ 2 * unat (t ! 2) + (2 ^ 32) ^ 3 * unat (t ! 3)"
proof -
  have "length t = 4" "valw t = unat a * unat b" by (simp_all add: assms valw_words32 Multiply8_8_val)
  moreover obtain x y z w where "t = [x, y, z, w]" using \<open>length t = 4\<close> by (auto simp: numeral_eq_Suc length_Suc_conv)
  ultimately show ?thesis by (simp add: distrib_left)
qed

lemma small_u32: "small 1 (ucast (x :: u32) :: u64)" "unat (ucast x :: u64) = unat x"
proof -
  have l: "unat x < 2 ^ 32" using unsigned_less[of x, where ?'a = nat] by simp
  then show e: "unat (ucast x :: u64) = unat x" by (simp add: unsigned_ucast_eq take_bit_nat_eq_self)
  show "small 1 (ucast (x :: u32) :: u64)" using l unfolding small_def e by simp
qed

lemma barrett_acc_val:
  fixes tmp :: "u32 list list"
  assumes T: "\<And>k. T k = unat (tmp ! k ! 0) + 2 ^ 32 * unat (tmp ! k ! 1) + (2 ^ 32) ^ 2 * unat (tmp ! k ! 2) + (2 ^ 32) ^ 3 * unat (tmp ! k ! 3)"
  shows "valw (barrett_acc tmp) mod 2 ^ 256 =
      (T 0 + (2 ^ 32) ^ 2 * (T 1 + T 2) + (2 ^ 32) ^ 4 * (T 3 + T 4 + T 5) + (2 ^ 32) ^ 6 * (T 6 + T 7 + T 8 + T 9)) mod 2 ^ 256"
    "length (barrett_acc tmp) = 8"
proof -
  define u where "u k i = (ucast (tmp ! k ! i) :: u64)" for k i
  define p0 :: "u32 list" where "p0 = [tmp ! 0 ! 0, tmp ! 0 ! 1, 0, 0, 0, 0, 0, 0]"
  define rows where "rows = [u 0 2 + u 1 0 + u 2 0, u 0 3 + u 1 1 + u 2 1, u 1 2 + u 2 2 + u 3 0 + u 4 0 + u 5 0,
    u 1 3 + u 2 3 + u 3 1 + u 4 1 + u 5 1, u 3 2 + u 4 2 + u 5 2 + u 6 0 + u 7 0 + u 8 0 + u 9 0]"
  define p6 where "p6 = add_rows 2 rows p0"
  define x where "x = tmp ! 3 ! 3 + tmp ! 4 ! 3 + tmp ! 5 ! 3 + tmp ! 6 ! 1 + tmp ! 7 ! 1 + tmp ! 8 ! 1 + tmp ! 9 ! 1"
  define y where "y = unat (tmp ! 3 ! 3) + unat (tmp ! 4 ! 3) + unat (tmp ! 5 ! 3) + unat (tmp ! 6 ! 1) + unat (tmp ! 7 ! 1) + unat (tmp ! 8 ! 1) + unat (tmp ! 9 ! 1)"
  have r: "barrett_acc tmp = p6[7 := p6 ! 7 + x]"
    by (simp add: barrett_acc_def Let_def u_def p0_def rows_def p6_def x_def)
  have su: "small 1 (u k i)" and uu: "unat (u k i) = unat (tmp ! k ! i)" for k i unfolding u_def by (rule small_u32)+
  have V8: "(2 :: nat) ^ 256 = (2 ^ 32) ^ 8" by simp
  have len: "even LENGTH(64)" "8 \<le> LENGTH(64)" by simp_all
  note rs = small3[OF len su su su, of 0 2 1 0 2 0] small3[OF len su su su, of 0 3 1 1 2 1]
    small5[OF len su su su su su, of 1 2 2 2 3 0 4 0 5 0] small5[OF len su su su su su, of 1 3 2 3 3 1 4 1 5 1]
    small7[OF len su su su su su su su, of 3 2 4 2 5 2 6 0 7 0 8 0 9 0]
  have s: "list_all (small 7) rows" unfolding rows_def using rs by (auto intro: small_mono)
  have b: "blank 2 p0" unfolding p0_def blank_def by (simp add: less_Suc_eq numeral_eq_Suc)
  have v0: "valw p0 = unat (tmp ! 0 ! 0) + 2 ^ 32 * unat (tmp ! 0 ! 1)" by (simp add: p0_def)
  have "length rows = 5" by (simp add: rows_def)
  have p6: "blank 7 p6" "valw p6 = valw p0 + 2 ^ 64 * val_rows (2 ^ 32) rows"
    using add_rows_val[OF _ _ b s] \<open>length rows = 5\<close> by (simp_all add: p6_def)
  show "length (barrett_acc tmp) = 8" using p6(1) by (simp add: r blank_def)
  have "unat x mod 2 ^ 32 = y mod 2 ^ 32" by (simp add: x_def y_def unat_word_ariths mod_simps)
  then have "2 ^ 224 * unat x mod (2 ^ 224 * 2 ^ 32) = 2 ^ 224 * y mod (2 ^ 224 * 2 ^ 32)" by (simp only: mult_mod_right[symmetric])
  then have x: "2 ^ 224 * unat x mod 2 ^ 256 = 2 ^ 224 * y mod 2 ^ 256" by (simp flip: power_add)
  have "valw (barrett_acc tmp) mod 2 ^ 256 = (valw p6 + 2 ^ 224 * y) mod 2 ^ 256"
    using update_mod[of p6 x] p6(1) mod_add_cong[OF refl x] by (simp add: r blank_def)
  also have "valw p6 + 2 ^ 224 * y = valw p0 + (2 ^ 32) ^ 2 * val_rows (2 ^ 32) rows + (2 ^ 32) ^ 7 * y" unfolding p6(2) by (simp add: power_mult[symmetric])
  also have "\<dots> mod 2 ^ 256 = (T 0 + (2 ^ 32) ^ 2 * (T 1 + T 2) + (2 ^ 32) ^ 4 * (T 3 + T 4 + T 5) + (2 ^ 32) ^ 6 * (T 6 + T 7 + T 8 + T 9)) mod 2 ^ 256"
    using column_sums[of T "\<lambda>k i. unat (tmp ! k ! i)" "2 ^ 32", OF T]
    unfolding V8 v0 y_def rows_def val_rows.simps rs[THEN conjunct2] uu mult_0_right add_0_right .
  finally show "valw (barrett_acc tmp) mod 2 ^ 256 =
      (T 0 + (2 ^ 32) ^ 2 * (T 1 + T 2) + (2 ^ 32) ^ 4 * (T 3 + T 4 + T 5) + (2 ^ 32) ^ 6 * (T 6 + T 7 + T 8 + T 9)) mod 2 ^ 256" .
qed

lemma low_product:
  fixes X :: nat
  shows "(a0 + X * a1 + X ^ 2 * a2 + X ^ 3 * a3) * (b0 + X * b1 + X ^ 2 * b2 + X ^ 3 * b3) mod X ^ 4 =
    (a0 * b0 + X * (a0 * b1 + a1 * b0) + X ^ 2 * (a0 * b2 + a1 * b1 + a2 * b0) + X ^ 3 * (a0 * b3 + a1 * b2 + a2 * b1 + a3 * b0)) mod X ^ 4"
    (is "?P mod _ = ?S mod _")
proof -
  have "?P = ?S + X ^ 4 * (a1 * b3 + a2 * b2 + a3 * b1 + X * (a2 * b3 + a3 * b2 + X * (a3 * b3)))"
    by (simp add: algebra_simps power_numeral_reduce)
  then show ?thesis by simp
qed

lemma barrett_r2_val:
  assumes "length q3 = 4"
  shows "val64 (barrett_r2 q3) = val64 q3 * sc_order mod 2 ^ 256" "length (barrett_r2 q3) = 4"
proof -
  define t where "t i j = words32 (Multiply8_8 (q3 ! i) (sc_prime ! j))" for i j
  define tmp where "tmp = [t 0 0, t 0 1, t 1 0, t 0 2, t 1 1, t 2 0, t 0 3, t 1 2, t 2 1, t 3 0]"
  define T where "T k = unat (tmp ! k ! 0) + 2 ^ 32 * unat (tmp ! k ! 1) + (2 ^ 32) ^ 2 * unat (tmp ! k ! 2) + (2 ^ 32) ^ 3 * unat (tmp ! k ! 3)" for k
  define a where "a i = unat (q3 ! i)" for i
  define b where "b j = unat (sc_prime ! j)" for j
  have p: "a i * b j = unat (t i j ! 0) + 2 ^ 32 * unat (t i j ! 1) + (2 ^ 32) ^ 2 * unat (t i j ! 2) + (2 ^ 32) ^ 3 * unat (t i j ! 3)" for i j
    unfolding a_def b_def by (rule words32_product) (simp add: t_def)
  have T: "T 0 = a 0 * b 0" "T 1 = a 0 * b 1" "T 2 = a 1 * b 0" "T 3 = a 0 * b 2" "T 4 = a 1 * b 1" "T 5 = a 2 * b 0"
    "T 6 = a 0 * b 3" "T 7 = a 1 * b 2" "T 8 = a 2 * b 1" "T 9 = a 3 * b 0"
    unfolding p T_def tmp_def by simp_all
  have r: "barrett_r2 q3 = words64 (barrett_acc tmp)" by (simp add: barrett_r2_def Let_def t_def tmp_def)
  note acc = barrett_acc_val[of T tmp, OF T_def]
  have X: "(2 :: nat) ^ 64 = (2 ^ 32) ^ 2" "(2 :: nat) ^ 128 = (2 ^ 64) ^ 2" "(2 :: nat) ^ 192 = (2 ^ 64) ^ 3" "(2 :: nat) ^ 256 = (2 ^ 64) ^ 4"
    "(2 :: nat) ^ 128 = (2 ^ 32) ^ 4" "(2 :: nat) ^ 192 = (2 ^ 32) ^ 6" by simp_all
  show l: "length (barrett_r2 q3) = 4" using valw_words64[OF acc(2)] by (simp add: r)
  have "val64 q3 * sc_order mod 2 ^ 256 = (T 0 + 2 ^ 64 * (T 1 + T 2) + 2 ^ 128 * (T 3 + T 4 + T 5) + 2 ^ 192 * (T 6 + T 7 + T 8 + T 9)) mod 2 ^ 256"
    unfolding sc_prime_val(1)[symmetric] val64_4[OF assms] val64_4[OF sc_prime_val(2)] X(2-4) T a_def b_def by (rule low_product)
  also have "\<dots> = val64 (barrett_r2 q3) mod 2 ^ 256" using acc(1) valw_words64[OF acc(2)] unfolding r X(1,5,6) by simp
  finally show "val64 (barrett_r2 q3) = val64 q3 * sc_order mod 2 ^ 256" using val64_bound[of "barrett_r2 q3"] l by simp
qed

text \<open>Barrett's bound: the quotient estimate is never too large, and at most short by what \<open>2^254\<close> holds.\<close>

lemma barrett_bound:
  fixes m :: nat
  assumes m: "m < 2 ^ 508"
  defines "q \<equiv> m div 2 ^ 252 * (2 ^ 506 div sc_order) div 2 ^ 254"
  shows "q * sc_order \<le> m" "m - q * sc_order < 2 ^ 254"
proof -
  define q1 m0 mu e f where "q1 = m div 2 ^ 252" and "m0 = m mod 2 ^ 252" and "mu = (2 ^ 506 :: nat) div sc_order"
    and "e = (2 ^ 506 :: nat) mod sc_order" and "f = q1 * mu mod 2 ^ 254"
  have q1: "q1 \<le> 2 ^ 256" using m unfolding q1_def by (intro less_imp_le less_mult_imp_div_less) simp
  have m0: "m0 \<le> 2 ^ 252" "m = 2 ^ 252 * q1 + m0" unfolding m0_def q1_def by simp_all
  have f: "f \<le> 2 ^ 254" "q1 * mu = 2 ^ 254 * q + f" unfolding f_def q_def q1_def mu_def by simp_all
  have e: "2 ^ 506 = sc_order * mu + e" unfolding mu_def e_def by simp
  have "2 ^ 254 * m = q1 * 2 ^ 506 + 2 ^ 254 * m0" unfolding m0(2) by (simp add: distrib_left)
  also have "q1 * 2 ^ 506 = sc_order * (q1 * mu) + q1 * e" unfolding e by (simp add: distrib_left)
  finally have d: "2 ^ 254 * m = 2 ^ 254 * (q * sc_order) + (sc_order * f + q1 * e + 2 ^ 254 * m0)" unfolding f(2) by (simp add: distrib_left)
  have "sc_order * f + q1 * e + 2 ^ 254 * m0 \<le> sc_order * 2 ^ 254 + 2 ^ 256 * e + 2 ^ 254 * 2 ^ 252"
    using f(1) q1 m0(1) by (intro add_mono mult_left_mono mult_right_mono) auto
  also have "\<dots> < 2 ^ 254 * 2 ^ 254" unfolding e_def minus_div_mult_eq_mod[symmetric] sc_mu_val(1)[symmetric] by (simp add: sc_order_def sc_mu_def)
  finally have b: "sc_order * f + q1 * e + 2 ^ 254 * m0 < 2 ^ 254 * 2 ^ 254" .
  have "2 ^ 254 * (q * sc_order) \<le> 2 ^ 254 * m" unfolding d by simp
  then show le: "q * sc_order \<le> m" by simp
  have "2 ^ 254 * (m - q * sc_order) < 2 ^ 254 * 2 ^ 254" using d b by (simp only: diff_mult_distrib2)
  then show "m - q * sc_order < 2 ^ 254" by simp
qed

lemma mod_difference:
  fixes x y N :: nat
  assumes "y \<le> x" "x - y < N"
  shows "(if x mod N < y mod N then x mod N + N else x mod N) - y mod N = x - y"
proof -
  define d where "d = x - y"
  have x: "x = y + d" and d: "d < N" using assms by (simp_all add: d_def)
  define r where "r = y mod N"
  have r: "r < N" using d by (simp add: r_def)
  have "x mod N = (r + d) mod N" unfolding x r_def by (simp only: mod_add_left_eq)
  also have "\<dots> = (if r + d < N then r + d else r + d - N)" using r d by (simp add: mod_if)
  finally have "x mod N = (if r + d < N then r + d else r + d - N)" .
  then show ?thesis using r d unfolding d_def[symmetric] r_def[symmetric] by auto
qed

text \<open>The words of a number shifted right by 62 bits.\<close>

fun shr62 :: "buf \<Rightarrow> buf" where
  "shr62 (x # y # ys) = (push_bit 2 y OR drop_bit 62 x) # shr62 (y # ys)"
| "shr62 _ = []"

lemma shr62_word: "unat (push_bit 2 y OR drop_bit 62 x :: u64) + 2 ^ 64 * (unat y div 2 ^ 62) = unat x div 2 ^ 62 + 4 * unat y"
proof -
  have l: "unat x div 2 ^ 62 < 2 ^ 2" using u64_less[of x] by (intro less_mult_imp_div_less) simp
  have "unat (push_bit 2 y) = take_bit 64 (push_bit 2 (unat y))" by (simp only: unsigned_push_bit_eq) simp
  also have "\<dots> = push_bit 2 (take_bit 62 (unat y))" by (simp add: take_bit_push_bit)
  finally have "unat (push_bit 2 y OR drop_bit 62 x) = push_bit 2 (take_bit 62 (unat y)) OR unat x div 2 ^ 62"
    by (simp only: unsigned_or_eq unat_high)
  also have "\<dots> = unat x div 2 ^ 62 + 4 * (unat y mod 2 ^ 62)" unfolding or_add_nat[OF l] by (simp add: take_bit_eq_mod)
  finally have "unat (push_bit 2 y OR drop_bit 62 x) = unat x div 2 ^ 62 + 4 * (unat y mod 2 ^ 62)" .
  moreover have "4 * (unat y mod 2 ^ 62) + 4 * 2 ^ 62 * (unat y div 2 ^ 62) = 4 * unat y"
    by (simp only: mult.assoc distrib_left[symmetric] mod_mult_div_eq)
  moreover have "(2 :: nat) ^ 64 = 4 * 2 ^ 62" by simp
  ultimately show ?thesis by (simp only: add.assoc)
qed

lemma shr62_val: "val64 (shr62 (x # ys)) + 2 ^ (64 * length ys) * (unat (last (x # ys)) div 2 ^ 62) = unat x div 2 ^ 62 + 4 * val64 ys"
proof (induction ys arbitrary: x)
  case (Cons y ys)
  have "2 ^ 64 * val64 (shr62 (y # ys)) + 2 ^ 64 * (2 ^ (64 * length ys) * (unat (last (y # ys)) div 2 ^ 62)) = 2 ^ 64 * (unat y div 2 ^ 62) + 2 ^ 64 * (4 * val64 ys)"
    unfolding distrib_left[symmetric] Cons.IH ..
  then show ?case using shr62_word[of y x] by (simp add: power_add)
qed simp

lemma valw_append: "valw (xs @ ys) = valw xs + 2 ^ (LENGTH('a) * length xs) * valw (ys :: 'a::len word list)"
  by (induction xs) (simp_all add: power_add distrib_left mult.assoc)

lemma val64_split:
  assumes "length m = 8"
  shows "val64 m = val64 (take 4 m) + 2 ^ 256 * val64 (drop 4 m)" "Copy32 m = take 4 m"
  using valw_append[of "take 4 m" "drop 4 m"] assms by (auto dest!: buf8 simp: Copy32_def)

text \<open>The quotient \<open>q1\<close>: the high half shifted left by four bits, filled from the top of the low half.\<close>

lemma barrett_q1:
  assumes "length m = 8" "val64 m < 2 ^ 508"
  defines "s \<equiv> ShiftLeft32 (drop 4 m) 4"
  shows "val64 (s[0 := s ! 0 OR drop_bit 60 (m ! 3)]) = val64 m div 2 ^ 252" "length s = 4"
proof -
  define hi where "hi = val64 (drop 4 m)" define lo where "lo = val64 (take 4 m)"
  have m: "val64 m = lo + 2 ^ 256 * hi" using val64_split(1)[OF assms(1)] by (simp add: hi_def lo_def)
  then have "2 ^ 256 * hi < 2 ^ 256 * 2 ^ 252" using assms(2) by simp
  then have h: "hi < 2 ^ 252" by simp
  have s: "val64 s = hi * 16" "length s = 4"
    using ShiftLeft32_val[of "drop 4 m" 4] assms(1) h by (simp_all add: s_def hi_def)
  show "length s = 4" by (rule s)
  obtain b where b: "unat (s ! 0) = 16 * b"
  proof -
    obtain x y z w where "s = [x, y, z, w]" using buf4[OF s(2)] by blast
    then have "unat (s ! 0) + 16 * (2 ^ 60 * val64 [y, z, w]) = 16 * hi" using s(1) by simp
    then have "unat (s ! 0) = 16 * (hi - 2 ^ 60 * val64 [y, z, w])" by (simp add: diff_mult_distrib2)
    then show thesis by (rule that)
  qed
  have t: "unat (drop_bit 60 (m ! 3)) = lo div 2 ^ 252"
    using split_top(2)[of "take 4 m" 60] assms(1) by (simp add: lo_def)
  have "unat (drop_bit 60 (m ! 3)) < 2 ^ 4" unfolding unat_high using u64_less[of "m ! 3"] by (intro less_mult_imp_div_less) simp
  then have o: "unat (s ! 0 OR drop_bit 60 (m ! 3)) = lo div 2 ^ 252 + unat (s ! 0)"
    unfolding unsigned_or_eq t b using or_add_nat[of "lo div 2 ^ 252" 4 b] by (simp add: push_bit_eq_mult mult.commute)
  have "val64 (s[0 := s ! 0 OR drop_bit 60 (m ! 3)]) = lo div 2 ^ 252 + hi * 16"
    using valw_update[of 0 s "s ! 0 OR drop_bit 60 (m ! 3)"] s o by simp
  also have "\<dots> = val64 m div 2 ^ 252" unfolding m by (simp add: div_add1_eq)
  finally show "val64 (s[0 := s ! 0 OR drop_bit 60 (m ! 3)]) = val64 m div 2 ^ 252" .
qed

text \<open>The quotient \<open>q3\<close>: a 512-bit number shifted right by 254 bits.\<close>

lemma barrett_q3:
  assumes "length q = 8" "val64 q < 2 ^ 510"
  defines "q3 \<equiv> map (\<lambda>i. push_bit 2 (q ! (i + 4)) OR drop_bit 62 (q ! (i + 3))) [0..<4]"
  shows "val64 q3 = val64 q div 2 ^ 254" "length q3 = 4"
proof -
  obtain a b c x d e f g where q: "q = [a, b, c, x, d, e, f, g]" using buf8[OF assms(1)] by blast
  have l: "val64 q = val64 [a, b, c] + 2 ^ 192 * val64 [x, d, e, f, g]" using valw_append[of "[a, b, c]" "[x, d, e, f, g]"] by (simp add: q)
  have "val64 [a, b, c] < 2 ^ 192" using val64_bound[of "[a, b, c]"] by simp
  then have q192: "val64 q div 2 ^ 192 = unat x + 2 ^ 64 * val64 [d, e, f, g]" unfolding l by simp
  have "val64 q div 2 ^ 254 = (unat x + 2 ^ 62 * (4 * val64 [d, e, f, g])) div 2 ^ 62"
    using q192 div_mult2_eq[of "val64 q" "2 ^ 192" "2 ^ 62"] by simp
  also have "\<dots> = unat x div 2 ^ 62 + 4 * val64 [d, e, f, g]" by simp
  finally have r: "val64 q div 2 ^ 254 = unat x div 2 ^ 62 + 4 * val64 [d, e, f, g]" .
  have "2 ^ 448 * unat g \<le> val64 q" by (simp add: q)
  then have "2 ^ 448 * unat g < 2 ^ 448 * 2 ^ 62" using assms(2) by simp
  then have g: "unat g div 2 ^ 62 = 0" by simp
  have "q3 = shr62 [x, d, e, f, g]" by (simp add: q3_def q upt_rec)
  then show "val64 q3 = val64 q div 2 ^ 254" using shr62_val[of x "[d, e, f, g]"] r g by (simp only: last.simps) simp
  show "length q3 = 4" by (simp add: q3_def)
qed

lemma mod_difference_le: "0 < N \<Longrightarrow> y mod N \<le> (if x mod N < y mod N then x mod N + N else x mod N :: nat)"
  by (auto intro: order_trans[OF less_imp_le[OF mod_less_divisor]])

lemma barrett_r1:
  assumes "length m = 8"
  defines "r1 \<equiv> (Copy32 m)[3 := m ! 3 AND 0x3fffffffffffffff]"
  shows "val64 r1 = val64 m mod 2 ^ 254" "length r1 = 4" "val64 (r1[3 := r1 ! 3 OR 0x4000000000000000]) = val64 m mod 2 ^ 254 + 2 ^ 254"
proof -
  have r1: "r1 = (take 4 m)[3 := take 4 m ! 3 AND mask 62]" unfolding r1_def val64_split(2)[OF assms(1)] mask_words by simp
  have "val64 (take 4 m) mod 2 ^ 254 = val64 m mod 2 ^ 254" 
    unfolding val64_split(1)[OF assms(1)] by (simp add: mod_add_eq[symmetric, of "val64 (take 4 m)"] mod_eq_0_iff_dvd)
  then show v: "val64 r1 = val64 m mod 2 ^ 254" using split_top(1)[of "take 4 m" 62] assms(1) unfolding r1 by simp
  show l: "length r1 = 4" using assms(1) by (simp add: r1)
  have "unat (r1 ! 3) < 2 ^ 62" using assms(1) by (simp add: r1 unat_low)
  then have "unat (r1 ! 3 OR 0x4000000000000000) = unat (r1 ! 3) + 2 ^ 62"
    using or_add_nat[of "unat (r1 ! 3)" 62 1] by (simp add: unsigned_or_eq or.commute)
  then show "val64 (r1[3 := r1 ! 3 OR 0x4000000000000000]) = val64 m mod 2 ^ 254 + 2 ^ 254"
    using valw_update[of 3 r1 "r1 ! 3 OR 0x4000000000000000"] l v by simp
qed

lemma BarrettReduce_val:
  assumes m: "length m = 8" "val64 m < 2 ^ 508"
  shows "val64 (BarrettReduce m) = val64 m mod sc_order \<and> length (BarrettReduce m) = 4"
proof -
  define s q1 q2 where "s = ShiftLeft32 (drop 4 m) 4" and "q1 = s[0 := s ! 0 OR drop_bit 60 (m ! 3)]" and "q2 = Multiply32_32 q1 sc_mu"
  define q3 where "q3 = map (\<lambda>i. push_bit 2 (q2 ! (i + 4)) OR drop_bit 62 (q2 ! (i + 3))) [0..<4]"
  define r1 r2 where "r1 = (Copy32 m)[3 := m ! 3 AND 0x3fffffffffffffff]" and "r2 = (barrett_r2 q3)[3 := barrett_r2 q3 ! 3 AND 0x3fffffffffffffff]"
  define r where "r = (if Compare32 r1 r2 < 0 then r1[3 := r1 ! 3 OR 0x4000000000000000] else r1)"
  define q where "q = val64 m div 2 ^ 252 * (2 ^ 506 div sc_order) div 2 ^ 254"
  have B: "BarrettReduce m = sc_Reduce_carry 0 (fst (Sub32 r r2))"
    by (simp add: BarrettReduce_def Let_def s_def q1_def q2_def q3_def r1_def r2_def r_def)
  have q1: "val64 q1 = val64 m div 2 ^ 252" "length q1 = 4" using barrett_q1[OF m] by (simp_all add: q1_def s_def)
  have q2: "val64 q2 = val64 q1 * (2 ^ 506 div sc_order)" "length q2 = 8"
    using Multiply32_32_val[OF q1(2) sc_mu_val(2)] by (simp_all add: q2_def sc_mu_val)
  have "val64 q2 < 2 ^ 256 * 2 ^ 254" unfolding q2(1) using val64_bound[of q1] q1(2) by (intro mult_strict_mono sc_mu_bound) simp_all
  then have q3: "val64 q3 = q" "length q3 = 4" using barrett_q3[OF q2(2)] q1 q2 by (simp_all add: q3_def q_def)
  note b = barrett_r2_val[OF q3(2)]
  have r2: "val64 r2 = q * sc_order mod 2 ^ 254" "length r2 = 4"
    using split_top(1)[OF b(2), of 62] b(2) unfolding r2_def mask_words b(1) q3(1) by (simp_all add: mod_mod_cancel)
  have r1: "val64 r1 = val64 m mod 2 ^ 254" "length r1 = 4"
    "val64 (r1[3 := r1 ! 3 OR 0x4000000000000000]) = val64 m mod 2 ^ 254 + 2 ^ 254" unfolding r1_def by (rule barrett_r1[OF m(1)])+
  have r: "val64 r = (if val64 m mod 2 ^ 254 < q * sc_order mod 2 ^ 254 then val64 m mod 2 ^ 254 + 2 ^ 254 else val64 m mod 2 ^ 254)" "length r = 4"
    using r1 r2 by (simp_all add: r_def Compare32_val)
  note bb = barrett_bound[OF m(2), folded q_def]
  have "val64 r2 \<le> val64 r" unfolding r(1) r2(1) by (rule mod_difference_le) simp
  then have d: "val64 (fst (Sub32 r r2)) = val64 m - q * sc_order" "length (fst (Sub32 r r2)) = 4"
    using Sub32_exact[OF r(2) r2(2)] mod_difference[OF bb] unfolding r(1) r2(1) by simp_all
  have "(val64 m - q * sc_order) mod sc_order = val64 m mod sc_order" using bb(1) by (metis mod_mult_self1 add_diff_inverse_nat not_le add.commute)
  then show ?thesis using sc_Reduce_0_val[OF d(2)] d(1) by (simp add: B)
qed

section \<open>The operators\<close>

text \<open>A reduced scalar, and one that may also be the order itself, which \<^verbatim>\<open>Negative\<close> makes of zero.\<close>

definition sc_ok :: "csc25519 \<Rightarrow> bool" where
  "sc_ok a \<longleftrightarrow> length a = 4 \<and> val64 a < sc_order"

definition sc_fit :: "csc25519 \<Rightarrow> bool" where
  "sc_fit a \<longleftrightarrow> length a = 4 \<and> val64 a \<le> sc_order"

lemma sc_ok_fit: "sc_ok a \<Longrightarrow> sc_fit a"
  by (simp add: sc_ok_def sc_fit_def)

lemma sc_zero_val: "sc_ok sc_zero" "val64 sc_zero = 0"
  using sc_order_bounds by (simp_all add: sc_ok_def sc_zero_def Zero32_def)

lemma sc_of_u64_val: "sc_ok (sc_of_u64 u)" "val64 (sc_of_u64 u) = unat u"
  using u64_less[of u] sc_order_bounds(1) by (simp_all add: sc_ok_def sc_of_u64_def Copy32_u64_def)

lemma sc_Unpack_val: "length b = 4 \<Longrightarrow> sc_ok (sc_Unpack b) \<and> val64 (sc_Unpack b) = val64 b mod sc_order"
  using sc_Reduce_0_val[of "Copy32 b"] sc_order_bounds(4) by (auto dest!: buf4 simp: sc_Unpack_def sc_ok_def Copy32_def)

lemma sc_add_val:
  assumes "sc_ok a" "sc_ok b"
  shows "sc_ok (sc_add a b) \<and> val64 (sc_add a b) = (val64 a + val64 b) mod sc_order"
proof -
  have l: "length a = 4" "length b = 4" and s: "val64 a + val64 b < 2 * sc_order" using assms by (simp_all add: sc_ok_def)
  have e: "val64 (fst (Add32 a b)) = val64 a + val64 b" "length (fst (Add32 a b)) = 4"
    using Add32_exact[OF l] s sc_order_bounds(2) by simp_all
  show ?thesis using sc_Reduce_val[OF e(2)] e(1) s sc_order_bounds(4) by (simp add: sc_add_def sc_ok_def)
qed

lemma sc_sub_val:
  assumes "sc_ok a" "sc_ok b"
  shows "sc_ok (sc_sub a b) \<and> int (val64 (sc_sub a b)) = (int (val64 a) - int (val64 b)) mod int sc_order"
proof -
  have l: "length a = 4" "length b = 4" and s: "val64 a < sc_order" "val64 b < sc_order" using assms by (simp_all add: sc_ok_def)
  show ?thesis
  proof (cases "val64 b \<le> val64 a")
    case True
    then have "sc_sub a b = fst (Sub32 a b)" using Sub32_exact(3)[OF l True] by (simp add: sc_sub_def case_prod_beta)
    moreover have "(int (val64 a) - int (val64 b)) mod int sc_order = int (val64 a) - int (val64 b)" using True s by (intro mod_pos_pos_trivial) auto
    ultimately show ?thesis using Sub32_exact(1,2)[OF l True] True s by (simp add: sc_ok_def of_nat_diff)
  next
    case False
    define d where "d = fst (Sub32 a b)"
    have d: "val64 d = val64 a + 2 ^ 256 - val64 b" "length d = 4" "sc_sub a b = fst (Add32 d sc_prime)"
      using Sub32_wrap[OF l] False by (simp_all add: d_def sc_sub_def case_prod_beta)
    have "val64 d + sc_order = val64 a + sc_order - val64 b + 2 ^ 256" unfolding d(1) using s False val64_bound[of b] l by simp
    moreover have "val64 a + sc_order - val64 b < 2 ^ 256" using s False sc_order_bounds(2) by simp
    ultimately have e: "val64 (sc_sub a b) = val64 a + sc_order - val64 b" "length (sc_sub a b) = 4"
      using Add32_wrap[OF d(2) sc_prime_val(2)] by (simp_all add: d(3) sc_prime_val)
    have "(int (val64 a) - int (val64 b)) mod int sc_order = (int (val64 a) - int (val64 b) + int sc_order) mod int sc_order" by simp
    also have "\<dots> = int (val64 a) - int (val64 b) + int sc_order" using False s by (intro mod_pos_pos_trivial) auto
    finally show ?thesis using e False s by (simp add: sc_ok_def of_nat_diff)
  qed
qed

lemma sc_neg_val: "sc_ok a \<Longrightarrow> sc_ok (sc_neg a) \<and> int (val64 (sc_neg a)) = (- int (val64 a)) mod int sc_order"
  using sc_sub_val[OF sc_zero_val(1), of a] by (simp add: sc_neg_def sc_zero_val)

lemma sc_Negative_val: "sc_fit a \<Longrightarrow> sc_fit (sc_Negative a) \<and> val64 (sc_Negative a) = sc_order - val64 a"
  using Sub32_exact[OF sc_prime_val(2), of a] by (simp add: sc_fit_def sc_Negative_def sc_prime_val)

lemma sc_mul_val:
  assumes "sc_fit a" "sc_fit b"
  shows "sc_ok (sc_mul a b) \<and> val64 (sc_mul a b) = val64 a * val64 b mod sc_order"
proof -
  have l: "length a = 4" "length b = 4" using assms by (simp_all add: sc_fit_def)
  have "val64 a * val64 b \<le> sc_order * sc_order" using assms by (intro mult_mono) (simp_all add: sc_fit_def)
  also have "\<dots> < 2 ^ 508" by (simp add: sc_order_def)
  finally show ?thesis using BarrettReduce_val[of "Multiply32_32 a b"] Multiply32_32_val[OF l] sc_order_bounds(4)
    by (simp add: sc_mul_def sc_ok_def)
qed

lemma sc_eq_val: "length a = 4 \<Longrightarrow> length b = 4 \<Longrightarrow> sc_eq a b \<longleftrightarrow> val64 a = val64 b"
  by (auto simp: sc_eq_def Compare32_val)

text \<open>The product with a 32-bit number. The carry out of the loop is below \<open>2^28\<close> for every scalar up to the order, so
  the 32-bit shift of the reduction does not overflow.\<close>

lemma u32_less: "unat (b :: u32) < 2 ^ 32"
  using unsigned_less[of b, where ?'a = nat] by simp

lemma unat_u32_up: "unat (ucast (b :: u32) :: u64) = unat b" "unat (ucast b :: u128) = unat b"
  using u32_less[of b] by (simp_all add: unsigned_ucast_eq take_bit_nat_eq_self)

lemma sc_mul32_step:
  fixes x :: u64 and b c :: u32
  defines "m \<equiv> mul64 x (ucast b) + ucast c"
  shows "unat (ucast m :: u64) + 2 ^ 64 * unat (ucast (drop_bit 64 m) :: u32) = unat x * unat b + unat c"
proof -
  have "unat x \<le> 2 ^ 64 - 1" "unat b \<le> 2 ^ 32 - 1" "unat c \<le> 2 ^ 32 - 1" using u64_less[of x] u32_less[of b] u32_less[of c] by simp_all
  then have "unat x * unat b + unat c \<le> (2 ^ 64 - 1) * (2 ^ 32 - 1) + (2 ^ 32 - 1)" by (intro add_mono mult_mono) simp_all
  also have "\<dots> < 2 ^ 96" by simp
  finally have l: "unat x * unat b + unat c < 2 ^ 96" .
  then have m: "unat m = unat x * unat b + unat c"
    unfolding m_def using unat_add_lem[of "mul64 x (ucast b)" "ucast c :: u128"] by (simp add: unat_mul64 unat_u32_up)
  have h: "unat m div 2 ^ 64 < 2 ^ 32" unfolding m using l by (intro less_mult_imp_div_less) simp
  have "unat (ucast (drop_bit 64 m) :: u32) = take_bit 32 (unat m div 2 ^ 64)" by (simp only: unsigned_ucast_eq unat_drop) simp
  also have "\<dots> = unat m div 2 ^ 64" using h by (rule take_bit_nat_eq_self)
  finally have u: "unat (ucast (drop_bit 64 m) :: u32) = unat m div 2 ^ 64" .
  have "unat (ucast m :: u64) = unat m mod 2 ^ 64" by (simp add: unsigned_ucast_eq take_bit_eq_mod)
  then show ?thesis unfolding u by (simp only: m mod_mult_div_eq)
qed

lemma sc_mul32_loop_val:
  "sc_mul32_loop b xs c = (ys, d) \<Longrightarrow> val64 ys + 2 ^ (64 * length xs) * unat d = val64 xs * unat b + unat c \<and> length ys = length xs"
proof (induction xs arbitrary: c ys)
  case (Cons x xs)
  define m where "m = mul64 x (ucast b) + ucast c"
  obtain zs where zs: "sc_mul32_loop b xs (ucast (drop_bit 64 m)) = (zs, d)" "ys = ucast m # zs"
    using Cons.prems by (auto simp: m_def Let_def split: prod.splits)
  note IH = Cons.IH[OF zs(1)]
  have "2 ^ 64 * (val64 zs + 2 ^ (64 * length xs) * unat d) = 2 ^ 64 * (val64 xs * unat b + unat (ucast (drop_bit 64 m) :: u32))" using IH by simp
  then show ?case using sc_mul32_step[of x b c, folded m_def] IH by (simp add: zs(2) power_add distrib_left distrib_right)
qed simp

lemma sc_mul32_val:
  assumes "sc_fit a"
  shows "sc_ok (sc_mul32 a b) \<and> val64 (sc_mul32 a b) = val64 a * unat b mod sc_order"
proof -
  obtain v c where v: "sc_mul32_loop b a 0 = (v, c)" by fastforce
  have e: "val64 v + 2 ^ 256 * unat c = val64 a * unat b" "length v = 4"
    using sc_mul32_loop_val[OF v] assms by (simp_all add: sc_fit_def)
  have "val64 a * unat b \<le> sc_order * (2 ^ 32 - 1)" using assms u32_less[of b] by (intro mult_mono) (simp_all add: sc_fit_def)
  also have "\<dots> < 2 ^ 256 * 2 ^ 28" by (simp add: sc_order_def)
  finally have "2 ^ 256 * unat c < 2 ^ 256 * 2 ^ 28" unfolding e(1)[symmetric] by linarith
  then have "unat c < 2 ^ 28" by simp
  from sc_Reduce_carry_val[OF e(2) this] show ?thesis using e(1) sc_order_bounds(4) by (simp add: sc_mul32_def v sc_ok_def)
qed

text \<open>\<^verbatim>\<open>Reduce64\<close> reduces 512 bits. It is right except when the high half is congruent to a number from \<open>2^252\<close> up: there the
  quotient of the Barrett reduction needs 257 bits.\<close>

lemma and_fc: "(b AND 0xFC) = 0 \<longleftrightarrow> drop_bit 2 b = (0 :: u8)"
proof -
  have m: "(0xFC :: u8) = NOT (mask 2)" by (simp add: mask_eq_exp_minus_1)
  show ?thesis unfolding m
  proof
    assume a: "b AND NOT (mask 2) = 0"
    have "\<not> bit (drop_bit 2 b) n" for n
    proof
      assume "bit (drop_bit 2 b) n"
      then have "bit (b AND NOT (mask 2)) (2 + n)" using bit_imp_le_length[of b "2 + n"] by (simp add: bit_simps)
      then show False using a by simp
    qed
    then show "drop_bit 2 b = 0" by (simp add: bit_eq_iff)
  next
    assume a: "drop_bit 2 b = 0"
    have "\<not> bit (b AND NOT (mask 2)) n" for n
    proof
      assume "bit (b AND NOT (mask 2)) n"
      then have "bit b n" "2 \<le> n" by (auto simp: bit_simps)
      then have "bit (drop_bit 2 b) (n - 2)" by (simp only: bit_drop_bit_eq o_apply le_add_diff_inverse)
      then show False using a by simp
    qed
    then show "b AND NOT (mask 2) = 0" by (simp add: bit_eq_iff)
  qed
qed

lemma byte63:
  assumes "length m = 8"
  shows "(byte_at 63 m AND 0xFC) \<noteq> 0 \<longleftrightarrow> 2 ^ 506 \<le> val64 m"
proof -
  obtain a b c d e f g h where m: "m = [a, b, c, d, e, f, g, h]" using buf8[OF assms] by blast
  have v: "val64 m = val64 [a, b, c, d, e, f, g] + 2 ^ 448 * unat h" using valw_append[of "[a, b, c, d, e, f, g]" "[h]"] by (simp add: m)
  have l: "val64 [a, b, c, d, e, f, g] < 2 ^ 448" using val64_bound[of "[a, b, c, d, e, f, g]"] by simp
  have "unat h div 2 ^ 56 < 2 ^ 8" using u64_less[of h] by (intro less_mult_imp_div_less) simp
  then have b: "unat (byte_at 63 m) = unat h div 2 ^ 56"
    by (simp add: byte_at_def m unsigned_ucast_eq unat_high take_bit_nat_eq_self)
  have "drop_bit 2 (byte_at 63 m) = 0 \<longleftrightarrow> unat (drop_bit 2 (byte_at 63 m)) = 0" by (simp add: unsigned_eq_0_iff)
  also have "unat (drop_bit 2 (byte_at 63 m)) = unat h div 2 ^ 58"
    using unsigned_less[of "byte_at 63 m", where ?'a = nat] b by (simp only: unsigned_drop_bit_eq) (simp add: drop_bit_eq_div take_bit_nat_eq_self flip: div_mult2_eq)
  also have "unat h div 2 ^ 58 = 0 \<longleftrightarrow> \<not> 2 ^ 58 \<le> unat h" by (simp add: div_eq_0_iff not_le)
  also have "2 ^ 58 \<le> unat h \<longleftrightarrow> 2 ^ 448 * 2 ^ 58 \<le> val64 m"
  proof
    assume "2 ^ 448 * 2 ^ 58 \<le> val64 m"
    then have "2 ^ 448 * 2 ^ 58 < 2 ^ 448 * Suc (unat h)" using l v by simp
    then show "2 ^ 58 \<le> unat h" by simp
  qed (simp add: v)
  finally have "drop_bit 2 (byte_at 63 m) = 0 \<longleftrightarrow> \<not> 2 ^ 506 \<le> val64 m" by simp
  then show ?thesis using and_fc[of "byte_at 63 m"] by simp
qed

lemma sc_Reduce64_val:
  assumes "length m = 8" "val64 m < 2 ^ 506 \<or> val64 (drop 4 m) mod sc_order < 2 ^ 252"
  shows "sc_ok (sc_Reduce64 m) \<and> val64 (sc_Reduce64 m) = val64 m mod sc_order"
proof (cases "2 ^ 506 \<le> val64 m")
  case True
  define h where "h = sc_Unpack (drop 4 m)"
  have h: "val64 h = val64 (drop 4 m) mod sc_order" "length h = 4" using sc_Unpack_val[of "drop 4 m"] assms(1) by (simp_all add: h_def sc_ok_def)
  then have r: "sc_Reduce64 m = BarrettReduce (take 4 m @ h)"
    using True byte63[OF assms(1)] by (auto dest!: buf4 simp: sc_Reduce64_def sc_Pack_def Copy32_def h_def[symmetric])
  have n: "val64 (take 4 m @ h) = val64 (take 4 m) + 2 ^ 256 * val64 h" using valw_append[of "take 4 m" h] assms(1) by simp
  have "val64 (take 4 m) < 2 ^ 256" using val64_bound[of "take 4 m"] assms(1) by simp
  moreover have "val64 h + 1 \<le> 2 ^ 252" using assms(2) True h(1) by simp
  then have "2 ^ 256 * (val64 h + 1) \<le> 2 ^ 256 * 2 ^ 252" by (rule mult_le_mono2)
  ultimately have b: "val64 (take 4 m @ h) < 2 ^ 508" unfolding n by simp
  have "val64 (take 4 m @ h) mod sc_order = (val64 (take 4 m) + 2 ^ 256 * val64 (drop 4 m)) mod sc_order"
    unfolding n h(1) by (metis mod_add_right_eq mod_mult_right_eq)
  then show ?thesis using BarrettReduce_val[OF _ b] h(2) assms(1) sc_order_bounds(4) unfolding val64_split(1)[OF assms(1)] by (simp add: r sc_ok_def)
next
  case False
  then show ?thesis using BarrettReduce_val[OF assms(1)] byte63[OF assms(1)] sc_order_bounds(4) by (simp add: sc_Reduce64_def sc_ok_def)
qed

lemma val64_zero: "length p = 4 \<Longrightarrow> val64 p = 0 \<Longrightarrow> p = [0, 0, 0, 0]"
  by (auto dest!: buf4 simp: unsigned_eq_0_iff)

lemma sc_Reduce64_wrong: "sc_Reduce64 [0, 0, 0, 0, 0, 0, 0, 0x1000000000000000] = [0, 0, 0, 0]"
proof -
  let ?h = "[0, 0, 0, 0x1000000000000000] :: buf"
  have "sc_Unpack ?h = ?h"
    by (simp add: sc_Unpack_def sc_Reduce_carry_def Copy32_def Compare_prime sc_order_def)
  then have "sc_Reduce64 [0, 0, 0, 0, 0, 0, 0, 0x1000000000000000] = BarrettReduce ([0, 0, 0, 0] @ ?h)"
    by (simp add: sc_Reduce64_def sc_Pack_def Copy32_def byte_at_def)
  moreover have "ShiftLeft32 ?h 4 = [0, 0, 0, 0]" by code_simp
  moreover have "Multiply32_32 [0, 0, 0, 0] sc_mu = [0, 0, 0, 0, 0, 0, 0, 0]" by code_simp
  moreover have "barrett_r2 [0, 0, 0, 0] = [0, 0, 0, 0]"
    using barrett_r2_val[of "[0, 0, 0, 0]"] by (intro val64_zero) simp_all
  moreover have "sc_Reduce_carry 0 (fst (Sub32 [0, 0, 0, 0] [0, 0, 0, 0])) = [0, 0, 0, 0]"
    using sc_Reduce_0_val[of "fst (Sub32 [0, 0, 0, 0] [0, 0, 0, 0])"] Sub32_exact[of "[0, 0, 0, 0]" "[0, 0, 0, 0]"] by (intro val64_zero) simp_all
  ultimately show ?thesis by (simp add: BarrettReduce_def Let_def Copy32_def upt_rec Compare32_def)
qed

section \<open>The properties\<close>

text \<open>(C7) The operators of the scalars compute modulo the group order and leave reduced values: sum, difference, negation,
  product (schoolbook multiplication and Barrett reduction) and the product with a 32-bit number, which may also be applied
  to the order itself, the value \<^verbatim>\<open>Negative\<close> makes of zero.\<close>

theorem sc25519_ring:
  assumes "sc_ok a" "sc_ok b" "sc_fit n"
  shows "(sc_ok (sc_add a b) \<and> val64 (sc_add a b) = (val64 a + val64 b) mod sc_order) \<and>
    (sc_ok (sc_sub a b) \<and> int (val64 (sc_sub a b)) = (int (val64 a) - int (val64 b)) mod int sc_order) \<and>
    (sc_ok (sc_neg a) \<and> int (val64 (sc_neg a)) = (- int (val64 a)) mod int sc_order) \<and>
    (sc_ok (sc_mul n b) \<and> val64 (sc_mul n b) = val64 n * val64 b mod sc_order) \<and>
    (sc_ok (sc_mul32 n k) \<and> val64 (sc_mul32 n k) = val64 n * unat k mod sc_order) \<and>
    (sc_fit (sc_Negative n) \<and> val64 (sc_Negative n) = sc_order - val64 n) \<and>
    (sc_eq a b \<longleftrightarrow> val64 a = val64 b)"
  using sc_add_val[OF assms(1,2)] sc_sub_val[OF assms(1,2)] sc_neg_val[OF assms(1)] sc_mul_val[OF assms(3) sc_ok_fit[OF assms(2)]]
    sc_mul32_val[OF assms(3)] sc_Negative_val[OF assms(3)] sc_eq_val[of a b] assms(1,2) by (simp_all add: sc_ok_def)

lemma sc_of_u64_ok: "sc_ok [u, 0, 0, 0]"
  using sc_of_u64_val(1)[of u] by (simp add: sc_of_u64_def Copy32_u64_def)

theorem sc25519_ring_witness:
  "val64 (sc_add [5, 0, 0, 0] [7, 0, 0, 0]) = 12 \<and> val64 (sc_mul [6, 0, 0, 0] [7, 0, 0, 0]) = 42 \<and>
   val64 (sc_sub [5, 0, 0, 0] [7, 0, 0, 0]) = sc_order - 2"
  using sc25519_ring[OF sc_of_u64_ok[of 5] sc_of_u64_ok[of 7] sc_ok_fit[OF sc_of_u64_ok[of 6]], of 0]
  by (simp add: sc_order_def)

lemma sc_508: "(2 ^ 508 :: nat) mod sc_order \<noteq> 0"
  by (simp add: sc_order_def)

text \<open>(C40) Reduction. \<^verbatim>\<open>Reduce(carry)\<close> and \<^verbatim>\<open>Unpack\<close> are right on every input with a carry below \<open>2^28\<close>, Barrett reduction below
  \<open>2^508\<close>, so \<^verbatim>\<open>Reduce64\<close> is right when its input is below \<open>2^506\<close> or its high half is congruent to a number below
  \<open>2^252\<close>; for \<open>2^508\<close> it returns zero.\<close>

theorem sc25519_reduction:
  assumes "length v = 4" "unat c < 2 ^ 28" "length m = 8"
  shows "(sc_ok (sc_Reduce_carry c v) \<and> val64 (sc_Reduce_carry c v) = (val64 v + 2 ^ 256 * unat c) mod sc_order) \<and>
    (sc_ok (sc_Unpack v) \<and> val64 (sc_Unpack v) = val64 v mod sc_order) \<and>
    (val64 m < 2 ^ 508 \<longrightarrow> sc_ok (BarrettReduce m) \<and> val64 (BarrettReduce m) = val64 m mod sc_order) \<and>
    (val64 m < 2 ^ 506 \<or> val64 (drop 4 m) mod sc_order < 2 ^ 252 \<longrightarrow>
      sc_ok (sc_Reduce64 m) \<and> val64 (sc_Reduce64 m) = val64 m mod sc_order) \<and>
    val64 (sc_Reduce64 [0, 0, 0, 0, 0, 0, 0, 0x1000000000000000]) = 0 \<and> (2 ^ 508 :: nat) mod sc_order \<noteq> 0"
  using sc_Reduce_carry_val[OF assms(1,2)] sc_Unpack_val[OF assms(1)] BarrettReduce_val[OF assms(3)] sc_Reduce64_val[OF assms(3)]
    sc_order_bounds(4) sc_Reduce64_wrong sc_508 by (simp add: sc_ok_def)

theorem sc25519_reduction_witness:
  "val64 (sc_Reduce_carry 1 [0, 0, 0, 0]) = 2 ^ 256 mod sc_order \<and> val64 (BarrettReduce [9, 0, 0, 0, 0, 0, 0, 0]) = 9"
  using sc25519_reduction[of "[0, 0, 0, 0]" 1 "[9, 0, 0, 0, 0, 0, 0, 0]"]
  by (simp add: sc_order_def)

end
