(* ===== verification/MPInterpolation.thy ===== *)
theory MPInterpolation
  imports MPTables
begin

text \<open>
  \<^verbatim>\<open>src/src/mpvss/mpinterpolation.cpp\<close>: the value at zero of the polynomial through a list of shares \<open>(x, f x)\<close>, by Newton's
  divided differences and by Lagrange's formula, in the scalars of curve 25519. The reference is an integer polynomial
  \<open>poly_at cs\<close>; its divided differences \<open>ddiff cs as\<close> are complete homogeneous sums, so they exist without division. An
  inverse outside the table has no value, and then neither has the interpolation.
\<close>

unbundle bit_operations_syntax

text \<open>A 256-bit number and the four words of its memory.\<close>

definition u256_words :: "u256 \<Rightarrow> buf" where
  "u256_words u = [ucast u, ucast (drop_bit 64 u), ucast (drop_bit 128 u), ucast (drop_bit 192 u)]"

definition words_u256 :: "buf \<Rightarrow> u256" where
  "words_u256 v = word_of_nat (val64 v)"

abbreviation sc_of_u256 :: "u256 \<Rightarrow> csc25519" where
  "sc_of_u256 u \<equiv> sc_Unpack (u256_words u)"

type_synonym mp_share = "u32 \<times> u256"

text \<open>The inner loop of \<^verbatim>\<open>MPNewton\<close>, over \<open>j\<close>, and the outer one, over \<open>i\<close>.\<close>

fun newton_diff :: "nat list \<Rightarrow> nat \<Rightarrow> mp_share list \<Rightarrow> csc25519 list list \<Rightarrow> csc25519 list \<Rightarrow> csc25519 list option" where
  "newton_diff [] i vShare vDiffSet vDiff = Some vDiff"
| "newton_diff (j # js) i vShare vDiffSet vDiff =
     (case inverse_at (fst (vShare ! i)) (fst (vShare ! (i - j - 1))) of
        None \<Rightarrow> None
      | Some iv \<Rightarrow> newton_diff js i vShare vDiffSet (vDiff @ [sc_mul (sc_sub (vDiff ! j) (vDiffSet ! (i - 1) ! j)) iv]))"

fun newton_loop :: "nat list \<Rightarrow> mp_share list \<Rightarrow> csc25519 list list \<Rightarrow> csc25519 \<Rightarrow> csc25519 \<Rightarrow> csc25519 option" where
  "newton_loop [] vShare vDiffSet basis s0 = Some s0"
| "newton_loop (i # is) vShare vDiffSet basis s0 =
     (case newton_diff [0..<i] i vShare vDiffSet [sc_of_u256 (snd (vShare ! i))] of
        None \<Rightarrow> None
      | Some vDiff \<Rightarrow>
          newton_loop is vShare (vDiffSet @ [vDiff]) (sc_Negative (sc_mul32 basis (fst (vShare ! i))))
            (sc_add s0 (sc_mul basis (last vDiff))))"

definition MPNewton :: "mp_share list \<Rightarrow> u256 option" where
  "MPNewton vShare = map_option words_u256 (newton_loop [0..<length vShare] vShare [] (sc_of_u64 1) sc_zero)"

fun lagrange_basis :: "nat list \<Rightarrow> nat \<Rightarrow> mp_share list \<Rightarrow> csc25519 \<Rightarrow> csc25519 option" where
  "lagrange_basis [] i vShare l = Some l"
| "lagrange_basis (j # js) i vShare l =
     (if i \<noteq> j then
        case inverse_at (fst (vShare ! j)) (fst (vShare ! i)) of
          None \<Rightarrow> None
        | Some iv \<Rightarrow> lagrange_basis js i vShare (sc_mul l (sc_mul32 iv (fst (vShare ! j))))
      else lagrange_basis js i vShare l)"

fun lagrange_loop :: "nat list \<Rightarrow> mp_share list \<Rightarrow> csc25519 \<Rightarrow> csc25519 option" where
  "lagrange_loop [] vShare s0 = Some s0"
| "lagrange_loop (i # is) vShare s0 =
     (case lagrange_basis [0..<length vShare] i vShare (sc_of_u64 1) of
        None \<Rightarrow> None
      | Some l \<Rightarrow> lagrange_loop is vShare (sc_add s0 (sc_mul l (sc_of_u256 (snd (vShare ! i))))))"

definition MPLagrange :: "mp_share list \<Rightarrow> u256 option" where
  "MPLagrange vShare = map_option words_u256 (lagrange_loop [0..<length vShare] vShare sc_zero)"

section \<open>Numbers\<close>

lemma unat_u256_word: "unat (ucast (drop_bit n (u :: u256)) :: u64) = unat u div 2 ^ n mod 2 ^ 64"
proof -
  have "unat (drop_bit n u) = unat u div 2 ^ n"
    using unsigned_less[of u, where ?'a = nat] by (simp only: unsigned_drop_bit_eq) (simp add: drop_bit_eq_div take_bit_nat_eq_self)
  then show ?thesis by (simp only: unsigned_ucast_eq) (simp add: take_bit_eq_mod)
qed

lemma u256_words_val: "val64 (u256_words u) = unat u" "length (u256_words u) = 4"
proof -
  define n where "n = unat u"
  have n: "n < 2 ^ 256" using unsigned_less[of u, where ?'a = nat] by (simp add: n_def)
  have d: "n div 2 ^ a = n div 2 ^ a mod 2 ^ 64 + 2 ^ 64 * (n div 2 ^ (a + 64))" for a
    by (simp add: power_add div_mult2_eq)
  have "n div 2 ^ 192 < 2 ^ 64" using n by (intro less_mult_imp_div_less) simp
  then have t: "n div 2 ^ 192 mod 2 ^ 64 = n div 2 ^ 192" by simp
  have "n mod 2 ^ 64 + 2 ^ 64 * (n div 2 ^ 64 mod 2 ^ 64 + 2 ^ 64 * (n div 2 ^ 128 mod 2 ^ 64 + 2 ^ 64 * (n div 2 ^ 192))) = n"
    using d[of 0] d[of 64] d[of 128] by simp
  moreover have "unat (ucast u :: u64) = n mod 2 ^ 64" using unat_u256_word[of 0 u] by (simp add: n_def)
  moreover have "unat (ucast (drop_bit 192 u) :: u64) = n div 2 ^ 192" by (simp only: unat_u256_word t flip: n_def)
  ultimately have "unat (ucast u :: u64) + 2 ^ 64 * (unat (ucast (drop_bit 64 u) :: u64) + 2 ^ 64 * (unat (ucast (drop_bit 128 u) :: u64) +
    2 ^ 64 * unat (ucast (drop_bit 192 u) :: u64))) = unat u" by (simp only: unat_u256_word flip: n_def)
  then show "val64 (u256_words u) = unat u" by (simp add: u256_words_def)
  show "length (u256_words u) = 4" by (simp add: u256_words_def)
qed

lemma sc_of_u256_val: "sc_ok (sc_of_u256 u)" "val64 (sc_of_u256 u) = unat u mod sc_order"
  using sc_Unpack_val[OF u256_words_val(2), of u] by (simp_all add: u256_words_val)

lemma words_u256_val:
  assumes "sc_ok v"
  shows "unat (words_u256 v) = val64 v"
proof -
  have "val64 v < 2 ^ 256" using assms sc_order_bounds(2) by (simp add: sc_ok_def)
  then show ?thesis by (simp add: words_u256_def unat_of_nat)
qed

section \<open>Divided differences of an integer polynomial\<close>

definition poly_at :: "int list \<Rightarrow> int \<Rightarrow> int" where
  "poly_at cs x = (\<Sum>k<length cs. cs ! k * x ^ k)"

text \<open>\<open>hom r as\<close> is the sum of all products of \<open>r\<close> factors from \<open>as\<close>.\<close>

fun hom :: "nat \<Rightarrow> int list \<Rightarrow> int" where
  "hom 0 as = 1"
| "hom (Suc r) [] = 0"
| "hom (Suc r) (a # as) = a * hom r (a # as) + hom (Suc r) as"

lemma hom_single: "hom r [a] = a ^ r"
  by (induction r) auto

lemma hom_snoc: "hom (Suc r) (as @ [b]) = b * hom r (as @ [b]) + hom (Suc r) as"
proof (induction r arbitrary: as)
  case 0
  show ?case by (induction as) auto
next
  case (Suc r)
  show ?case
  proof (induction as)
    case (Cons a as)
    have "F = b * R + H1 \<Longrightarrow> F = a * R + H2 \<Longrightarrow> a * F + (b * H2 + H3) = b * F + (a * H1 + H3)" for F R H1 H2 H3 :: int
      by algebra
    from this[OF Suc.IH[of "a # as", unfolded append_Cons] hom.simps(3)] show ?case using Cons by simp
  qed simp
qed

lemma hom_step: "(b - a) * hom r (a # as @ [b]) = hom (Suc r) (as @ [b]) - hom (Suc r) (a # as)"
  using hom_snoc[of r "a # as" b] by (simp add: algebra_simps)

definition ddiff :: "int list \<Rightarrow> int list \<Rightarrow> int" where
  "ddiff cs as = (\<Sum>k<length cs. cs ! k * (if length as \<le> Suc k then hom (Suc k - length as) as else 0))"

lemma ddiff_single: "ddiff cs [a] = poly_at cs a"
  by (simp add: ddiff_def poly_at_def hom_single)

lemma ddiff_zero: "length cs < length as \<Longrightarrow> ddiff cs as = 0"
  by (auto simp: ddiff_def intro!: sum.neutral)

lemma ddiff_step: "(b - a) * ddiff cs (a # as @ [b]) = ddiff cs (as @ [b]) - ddiff cs (a # as)"
proof -
  have "(b - a) * (c * (if length (a # as @ [b]) \<le> Suc k then hom (Suc k - length (a # as @ [b])) (a # as @ [b]) else 0)) =
    c * (if length (as @ [b]) \<le> Suc k then hom (Suc k - length (as @ [b])) (as @ [b]) else 0) -
    c * (if length (a # as) \<le> Suc k then hom (Suc k - length (a # as)) (a # as) else 0)" for c k
  proof (cases "length as < k")
    case True
    then have "k - length as = Suc (k - Suc (length as))" by simp
    then show ?thesis using True arg_cong[OF hom_step[of b a "k - Suc (length as)" as], of "\<lambda>h. c * h"] by (simp add: algebra_simps)
  qed (auto simp: not_less)
  then show ?thesis by (simp only: ddiff_def sum_distrib_left sum_subtractf[symmetric])
qed

text \<open>Newton's form, with its remainder.\<close>

lemma newton_form:
  "m \<le> length xs \<Longrightarrow> poly_at cs z =
    (\<Sum>i<m. ddiff cs (take (Suc i) xs) * (\<Prod>k<i. z - xs ! k)) + (\<Prod>k<m. z - xs ! k) * ddiff cs (z # take m xs)"
proof (induction m)
  case 0
  show ?case by (simp add: ddiff_single)
next
  case (Suc m)
  have t: "take (Suc m) xs = take m xs @ [xs ! m]" using Suc.prems by (simp add: take_Suc_conv_app_nth)
  have "ddiff cs (z # take m xs) = ddiff cs (take (Suc m) xs) + (z - xs ! m) * ddiff cs (z # take (Suc m) xs)"
    using ddiff_step[of "xs ! m" z cs "take m xs"] by (simp add: t algebra_simps)
  with Suc show ?case by (simp add: algebra_simps)
qed

lemma newton_at_zero:
  assumes "length cs \<le> length xs"
  shows "poly_at cs 0 = (\<Sum>i<length xs. ddiff cs (take (Suc i) xs) * (\<Prod>k<i. - xs ! k))"
  using newton_form[of "length xs" xs cs 0] ddiff_zero[of cs "0 # xs"] assms by simp

section \<open>Newton interpolation\<close>

abbreviation sc_mod :: "int \<Rightarrow> int" where
  "sc_mod a \<equiv> a mod int sc_order"

text \<open>\<open>sc_is v a\<close>: the reduced scalar \<open>v\<close> is congruent to \<open>a\<close>.\<close>

definition sc_is :: "csc25519 \<Rightarrow> int \<Rightarrow> bool" where
  "sc_is v a \<longleftrightarrow> sc_ok v \<and> sc_mod (int (val64 v)) = sc_mod a"

named_theorems sc_is_intros

lemma sc_is_zero [sc_is_intros]: "sc_is sc_zero 0"
  by (simp add: sc_is_def sc_zero_val)

lemma sc_is_one [sc_is_intros]: "sc_is (sc_of_u64 1) 1"
  using sc_of_u64_val[of 1] by (simp add: sc_is_def)

lemma sc_is_u256 [sc_is_intros]: "sc_is (sc_of_u256 u) (int (unat u))"
  using sc_of_u256_val[of u] by (simp add: sc_is_def zmod_int del: of_nat_unat)

lemma sc_is_add [sc_is_intros]: "sc_is v a \<Longrightarrow> sc_is w b \<Longrightarrow> sc_is (sc_add v w) (a + b)"
  using sc_add_val[of v w] by (auto simp: sc_is_def zmod_int intro: mod_add_cong)

lemma sc_is_sub [sc_is_intros]: "sc_is v a \<Longrightarrow> sc_is w b \<Longrightarrow> sc_is (sc_sub v w) (a - b)"
  using sc_sub_val[of v w] by (auto simp: sc_is_def intro: mod_diff_cong)

lemma sc_is_mul [sc_is_intros]: "sc_is v a \<Longrightarrow> sc_is w b \<Longrightarrow> sc_is (sc_mul v w) (a * b)"
  using sc_mul_val[of v w] by (auto simp: sc_is_def sc_ok_fit zmod_int intro: mod_mult_cong)

lemma sc_is_mul32 [sc_is_intros]: "sc_is v a \<Longrightarrow> sc_is (sc_mul32 v k) (a * int (unat k))"
  using sc_mul32_val[of v k] by (auto simp: sc_is_def sc_ok_fit zmod_int simp del: of_nat_unat intro: mod_mult_cong)

lemma sc_is_cong: "sc_is v a \<Longrightarrow> sc_mod a = sc_mod b \<Longrightarrow> sc_is v b"
  by (simp add: sc_is_def)

text \<open>The same up to the order itself, for the value \<^verbatim>\<open>Negative\<close> leaves.\<close>

definition sc_is' :: "csc25519 \<Rightarrow> int \<Rightarrow> bool" where
  "sc_is' v a \<longleftrightarrow> sc_fit v \<and> sc_mod (int (val64 v)) = sc_mod a"

lemma sc_is_weak: "sc_is v a \<Longrightarrow> sc_is' v a"
  by (simp add: sc_is_def sc_is'_def sc_ok_fit)

lemma sc_is_mul': "sc_is' v a \<Longrightarrow> sc_is w b \<Longrightarrow> sc_is (sc_mul v w) (a * b)"
  using sc_mul_val[of v w] by (auto simp: sc_is_def sc_is'_def sc_ok_fit zmod_int intro: mod_mult_cong)

lemma sc_is_step: "sc_is' v a \<Longrightarrow> sc_is' (sc_Negative (sc_mul32 v k)) (a * - int (unat k))"
proof -
  assume v: "sc_is' v a"
  let ?m = "sc_mul32 v k"
  have m: "sc_ok ?m" "val64 ?m = val64 v * unat k mod sc_order" using sc_mul32_val[of v k] v by (simp_all add: sc_is'_def)
  have n: "sc_fit (sc_Negative ?m)" "val64 (sc_Negative ?m) = sc_order - val64 ?m" using sc_Negative_val[OF sc_ok_fit[OF m(1)]] by simp_all
  have "int (val64 (sc_Negative ?m)) = int sc_order - int (val64 ?m)" using m(1) n(2) by (simp add: sc_ok_def of_nat_diff)
  then have "sc_mod (int (val64 (sc_Negative ?m))) = sc_mod (- int (val64 ?m))"
    using mod_add_self1[of "int sc_order" "- int (val64 ?m)"] by (simp only: add_uminus_conv_diff)
  also have "sc_mod (int (val64 ?m)) = sc_mod (a * int (unat k))"
    using v unfolding m(2) by (simp add: sc_is'_def zmod_int del: of_nat_unat) (rule mod_mult_cong; simp)
  then have "sc_mod (- int (val64 ?m)) = sc_mod (- (a * int (unat k)))" by (metis mod_minus_eq)
  finally show "sc_is' (sc_Negative ?m) (a * - int (unat k))" using n(1) by (simp add: sc_is'_def)
qed

text \<open>Dividing by an inverse of the table.\<close>

lemma sc_is_divide:
  assumes "sc_is v c" "c = d * h" "sc_ok iv" "sc_mod (int (val64 iv) * d) = 1"
  shows "sc_is (sc_mul v iv) h"
proof -
  have "sc_is (sc_mul v iv) (c * int (val64 iv))" using assms(1,3) by (intro sc_is_mul) (simp_all add: sc_is_def)
  moreover have "sc_mod (c * int (val64 iv)) = sc_mod (h * (int (val64 iv) * d))" by (simp add: assms(2) ac_simps)
  moreover have "sc_mod (h * (int (val64 iv) * d)) = sc_mod (h * 1)" using assms(4) by (intro mod_mult_cong) (simp_all add: sc_order_def)
  ultimately show ?thesis by (simp add: sc_is_def)
qed

text \<open>Shares of the polynomial \<open>cs\<close>: the values are congruent to its values, at different places no more than 50 apart.\<close>

definition share_x :: "mp_share list \<Rightarrow> int list" where
  "share_x vs = map (\<lambda>s. int (unat (fst s))) vs"

definition shares_of :: "int list \<Rightarrow> mp_share list \<Rightarrow> bool" where
  "shares_of cs vs \<longleftrightarrow> distinct (map fst vs) \<and>
     list_all (\<lambda>s. sc_mod (int (unat (snd s))) = sc_mod (poly_at cs (int (unat (fst s))))) vs \<and>
     list_all (\<lambda>s. list_all (\<lambda>t. unat (fst s) \<le> unat (fst t) + 50) vs) vs"

lemma shares_ofD:
  assumes "shares_of cs vs" "i < length vs"
  shows "sc_is (sc_of_u256 (snd (vs ! i))) (poly_at cs (share_x vs ! i))"
    "j < length vs \<Longrightarrow> unat (fst (vs ! i)) \<le> unat (fst (vs ! j)) + 50" "j < length vs \<Longrightarrow> i \<noteq> j \<Longrightarrow> fst (vs ! i) \<noteq> fst (vs ! j)"
proof -
  have i: "vs ! i \<in> set vs" using assms(2) by simp
  show "sc_is (sc_of_u256 (snd (vs ! i))) (poly_at cs (share_x vs ! i))"
    using assms i by (intro sc_is_cong[OF sc_is_u256]) (auto simp: shares_of_def list_all_iff share_x_def simp del: of_nat_unat)
  show "unat (fst (vs ! i)) \<le> unat (fst (vs ! j)) + 50" if "j < length vs"
    using assms(1) i that by (auto simp: shares_of_def list_all_iff)
  show "fst (vs ! i) \<noteq> fst (vs ! j)" if "j < length vs" "i \<noteq> j"
    using assms that by (auto simp: shares_of_def distinct_conv_nth)
qed

lemma shares_inverse:
  assumes "shares_of cs vs" "i < length vs" "j < length vs" "i \<noteq> j"
  obtains iv where "inverse_at (fst (vs ! i)) (fst (vs ! j)) = Some iv" "sc_ok iv" "sc_mod (int (val64 iv) * (share_x vs ! i - share_x vs ! j)) = 1"
proof -
  obtain iv where iv: "inverse_at (fst (vs ! i)) (fst (vs ! j)) = Some iv" "sc_ok iv"
    "sc_mod (int (val64 iv) * (int (unat (fst (vs ! i))) - int (unat (fst (vs ! j))))) = 1"
    using inverse_at_val[OF shares_ofD(2)[OF assms(1-3)] shares_ofD(2)[OF assms(1,3,2)]] shares_ofD(3)[OF assms] by metis
  moreover have "share_x vs ! i = int (unat (fst (vs ! i)))" "share_x vs ! j = int (unat (fst (vs ! j)))"
    using assms(2,3) by (simp_all add: share_x_def)
  ultimately show thesis using that[of iv] by (simp only:)
qed

text \<open>Row \<open>i\<close> of the table: entry \<open>j\<close> is the divided difference at \<open>x\<^sub>i\<^sub>-\<^sub>j, \<dots>, x\<^sub>i\<close>.\<close>

definition dd :: "int list \<Rightarrow> int list \<Rightarrow> nat \<Rightarrow> nat \<Rightarrow> int" where
  "dd cs xs i j = ddiff cs (map ((!) xs) [i - j..<Suc i])"

definition row_is :: "int list \<Rightarrow> int list \<Rightarrow> nat \<Rightarrow> csc25519 list \<Rightarrow> bool" where
  "row_is cs xs i row \<longleftrightarrow> (\<forall>j<length row. sc_is (row ! j) (dd cs xs i j))"

lemma dd_step:
  assumes "j < i"
  shows "dd cs xs i j - dd cs xs (i - 1) j = (xs ! i - xs ! (i - j - 1)) * dd cs xs i (Suc j)"
proof -
  obtain k where i: "i = Suc (k + j)" using assms less_imp_Suc_add[of j i] by (auto simp: add.commute)
  have "[k..<Suc i] = k # [Suc k..<i] @ [i]" "[Suc k..<Suc i] = [Suc k..<i] @ [i]" "[k..<i] = k # [Suc k..<i]"
    unfolding i by (simp_all add: upt_conv_Cons)
  then show ?thesis using ddiff_step[of "xs ! i" "xs ! k" cs "map ((!) xs) [Suc k..<i]"] unfolding dd_def i by simp
qed

lemma newton_diff_is:
  assumes vs: "shares_of cs vs" and i: "i < length vs"
    and prev: "0 < i \<Longrightarrow> row_is cs (share_x vs) (i - 1) (vDiffSet ! (i - 1)) \<and> length (vDiffSet ! (i - 1)) = i"
  shows "row_is cs (share_x vs) i row \<Longrightarrow> length row = Suc j \<Longrightarrow> j \<le> i \<Longrightarrow>
    \<exists>r. newton_diff [j..<i] i vs vDiffSet row = Some r \<and> row_is cs (share_x vs) i r \<and> length r = Suc i"
proof (induction "i - j" arbitrary: j row)
  case (Suc n)
  then have j: "j < i" by simp
  have d: "i \<noteq> i - j - 1" "i - j - 1 < length vs" using j i by simp_all
  obtain iv where iv: "inverse_at (fst (vs ! i)) (fst (vs ! (i - j - 1))) = Some iv" "sc_ok iv"
    "sc_mod (int (val64 iv) * (share_x vs ! i - share_x vs ! (i - j - 1))) = 1" by (rule shares_inverse[OF vs i d(2,1)])
  let ?e = "sc_mul (sc_sub (row ! j) (vDiffSet ! (i - 1) ! j)) iv"
  have "sc_is (row ! j) (dd cs (share_x vs) i j)" "sc_is (vDiffSet ! (i - 1) ! j) (dd cs (share_x vs) (i - 1) j)"
    using Suc.prems prev j by (auto simp: row_is_def)
  then have "sc_is (sc_sub (row ! j) (vDiffSet ! (i - 1) ! j)) (dd cs (share_x vs) i j - dd cs (share_x vs) (i - 1) j)" by (rule sc_is_sub)
  then have "sc_is ?e (dd cs (share_x vs) i (Suc j))" by (rule sc_is_divide[OF _ dd_step[OF j] iv(2,3)])
  then have "row_is cs (share_x vs) i (row @ [?e])" using Suc.prems by (auto simp: row_is_def nth_append less_Suc_eq)
  then show ?case using Suc.hyps(1)[of "Suc j" "row @ [?e]"] Suc.hyps(2) Suc.prems j iv(1) by (simp add: upt_conv_Cons)
qed auto

abbreviation newton_sum :: "int list \<Rightarrow> int list \<Rightarrow> nat \<Rightarrow> int" where
  "newton_sum cs xs m \<equiv> \<Sum>k<m. ddiff cs (take (Suc k) xs) * (\<Prod>l<k. - xs ! l)"

lemma dd_whole: "i < length xs \<Longrightarrow> dd cs xs i i = ddiff cs (take (Suc i) xs)"
proof -
  assume "i < length xs"
  then have "map ((!) xs) [0..<Suc i] = take (Suc i) xs" by (intro nth_equalityI) (simp_all del: upt_Suc)
  then show ?thesis unfolding dd_def by (simp del: upt_Suc)
qed

lemma newton_loop_is:
  assumes vs: "shares_of cs vs"
  shows "i \<le> length vs \<Longrightarrow> length vDiffSet = i \<Longrightarrow> (\<forall>k<i. row_is cs (share_x vs) k (vDiffSet ! k) \<and> length (vDiffSet ! k) = Suc k) \<Longrightarrow>
    sc_is' basis (\<Prod>l<i. - share_x vs ! l) \<Longrightarrow> sc_is s0 (newton_sum cs (share_x vs) i) \<Longrightarrow>
    \<exists>s. newton_loop [i..<length vs] vs vDiffSet basis s0 = Some s \<and> sc_is s (newton_sum cs (share_x vs) (length vs))"
proof (induction "length vs - i" arbitrary: i vDiffSet basis s0)
  case (Suc n)
  then have i: "i < length vs" by simp
  have x: "i < length (share_x vs)" "int (unat (fst (vs ! i))) = share_x vs ! i" using i by (simp_all add: share_x_def)
  have "row_is cs (share_x vs) i [sc_of_u256 (snd (vs ! i))]"
    using shares_ofD(1)[OF vs i] by (simp add: row_is_def dd_def ddiff_single)
  then obtain r where r: "newton_diff [0..<i] i vs vDiffSet [sc_of_u256 (snd (vs ! i))] = Some r" "row_is cs (share_x vs) i r" "length r = Suc i"
    using newton_diff_is[OF vs i, of vDiffSet "[sc_of_u256 (snd (vs ! i))]" 0] Suc.prems(3) by auto
  have "last r = r ! i" using r(3) by (cases r rule: rev_cases) auto
  then have l: "sc_is (last r) (ddiff cs (take (Suc i) (share_x vs)))" using r(2,3) dd_whole[OF x(1)] by (auto simp: row_is_def)
  let ?b = "sc_Negative (sc_mul32 basis (fst (vs ! i)))" and ?s = "sc_add s0 (sc_mul basis (last r))"
  have "sc_is' ?b (\<Prod>l<Suc i. - share_x vs ! l)" using sc_is_step[OF Suc.prems(4), of "fst (vs ! i)"] unfolding x(2) by simp
  moreover have "sc_is ?s (newton_sum cs (share_x vs) (Suc i))"
    using sc_is_add[OF Suc.prems(5) sc_is_mul'[OF Suc.prems(4) l]] by (simp add: mult.commute)
  moreover have "\<forall>k<Suc i. row_is cs (share_x vs) k ((vDiffSet @ [r]) ! k) \<and> length ((vDiffSet @ [r]) ! k) = Suc k"
    using Suc.prems(2,3) r(2,3) by (auto simp: nth_append less_Suc_eq)
  ultimately show ?case using Suc.hyps(1)[of "Suc i" "vDiffSet @ [r]" ?b ?s] Suc.hyps(2) Suc.prems(2) i r(1) by (simp add: upt_conv_Cons)
qed auto

lemma MPNewton_shares:
  assumes "shares_of cs vs" "length cs \<le> length vs"
  shows "\<exists>u. MPNewton vs = Some u \<and> int (unat u) = sc_mod (poly_at cs 0)"
proof -
  obtain s where s: "newton_loop [0..<length vs] vs [] (sc_of_u64 1) sc_zero = Some s" "sc_is s (newton_sum cs (share_x vs) (length vs))"
    using newton_loop_is[OF assms(1), of 0 "[]" "sc_of_u64 1" sc_zero] sc_is_weak[OF sc_is_one] sc_is_zero by auto
  have "newton_sum cs (share_x vs) (length vs) = poly_at cs 0"
    using newton_at_zero[of cs "share_x vs"] assms(2) by (simp add: share_x_def)
  then have "int (val64 s) = sc_mod (poly_at cs 0)" using s(2) mod_pos_pos_trivial[of "int (val64 s)" "int sc_order"] by (simp add: sc_is_def sc_ok_def)
  then show ?thesis using s words_u256_val[of s] by (auto simp: MPNewton_def sc_is_def simp del: of_nat_unat)
qed

lemma poly_at_zero: "poly_at (c # cs) 0 = c"
  unfolding poly_at_def length_Cons sum.lessThan_Suc_shift by simp

text \<open>(C8) Newton's scheme over the scalar field finds the constant coefficient of the polynomial from any shares of it, at
  different places no more than 50 apart and at least as many as it has coefficients; which shares they are does not matter.\<close>

theorem newton_secret:
  assumes "shares_of cs vs" "shares_of cs ws" "cs \<noteq> []" "length cs \<le> length vs" "length cs \<le> length ws"
  shows "\<exists>u. MPNewton vs = Some u \<and> MPNewton ws = Some u \<and> int (unat u) = sc_mod (cs ! 0)"
proof -
  obtain u where u: "MPNewton vs = Some u" "int (unat u) = sc_mod (poly_at cs 0)" using MPNewton_shares[OF assms(1,4)] by blast
  obtain v where v: "MPNewton ws = Some v" "int (unat v) = sc_mod (poly_at cs 0)" using MPNewton_shares[OF assms(2,5)] by blast
  have "int (unat u) = int (unat v)" using u(2) v(2) by simp
  then have "u = v" by (simp only: of_nat_eq_iff unsigned_word_eqI)
  then show ?thesis using u v assms(3) by (cases cs) (simp_all add: poly_at_zero del: of_nat_unat)
qed

theorem newton_secret_witness:
  "\<exists>u. MPNewton [(1, 12), (2, 19)] = Some u \<and> MPNewton [(3, 26), (2, 19)] = Some u \<and> int (unat u) = 5"
proof -
  have "shares_of [5, 7] [(1, 12), (2, 19)]" "shares_of [5, 7] [(3, 26), (2, 19)]" by (simp_all add: shares_of_def poly_at_def)
  from newton_secret[OF this] have "\<exists>u. MPNewton [(1, 12), (2, 19)] = Some u \<and> MPNewton [(3, 26), (2, 19)] = Some u \<and> int (unat u) = sc_mod 5" by simp
  moreover have "sc_mod 5 = 5" by (simp add: sc_order_def)
  ultimately show ?thesis by (simp only:)
qed

end
