(* ===== verification/MPBox.thy ===== *)
theory MPBox
  imports MPInterpolation
begin

text \<open>
  \<^verbatim>\<open>src/src/mpvss/mpbox.cpp\<close>: the opened box of a dealer (the coefficients of its polynomial and its key), the sealed box
  the others see (the coefficients as curve points, then the points of the shares), and the Schnorr-like signature over
  it. The curve itself is an argument, \<open>ed_ops\<close>: the operations of \<^verbatim>\<open>CEdwards25519\<close> the code calls and the base point
  multiplication of libsodium. What the properties rely on is \<open>ed_laws\<close>, that they compute in a group in which the
  multiples of the base point have the order of the scalars.
\<close>

unbundle bit_operations_syntax

datatype mp_error = Box_Null | Out_Of_Range | Bad_Delete

record 'p ed_ops =
  MPEccPubkey :: "u256 \<Rightarrow> u256"
  ed_Unpack :: "u256 \<Rightarrow> bool \<times> 'p"
  ed_Pack :: "'p \<Rightarrow> u256"
  ed_add :: "'p \<Rightarrow> 'p \<Rightarrow> 'p"
  ed_ScalarMult :: "'p \<Rightarrow> u256 \<Rightarrow> 'p"
  ed_Generate :: "u256 \<Rightarrow> 'p"
  ed_eq :: "'p \<Rightarrow> 'p \<Rightarrow> bool"
  ed_zero :: 'p

definition MPEccPubkeyValidate :: "'p ed_ops \<Rightarrow> u256 \<Rightarrow> bool" where
  "MPEccPubkeyValidate E pubkey \<longleftrightarrow>
     pubkey \<noteq> 0 \<and> fst (ed_Unpack E pubkey) \<and> \<not> ed_eq E (snd (ed_Unpack E pubkey)) (ed_zero E)"

definition MPEccSign :: "u256 \<Rightarrow> u256 \<Rightarrow> u256 \<Rightarrow> u256" where
  "MPEccSign key r hash = words_u256 (sc_add (sc_of_u256 key) (sc_mul (sc_of_u256 r) (sc_of_u256 hash)))"

definition MPEccVerify :: "'p ed_ops \<Rightarrow> u256 \<Rightarrow> u256 \<Rightarrow> u256 \<Rightarrow> u256 \<Rightarrow> bool" where
  "MPEccVerify E pubkey rG signature hash =
     (if fst (ed_Unpack E pubkey) \<and> fst (ed_Unpack E rG) then
        ed_eq E (ed_Generate E signature) (ed_add E (snd (ed_Unpack E pubkey)) (ed_ScalarMult E (snd (ed_Unpack E rG)) hash))
      else False)"

definition MPEccSharedKey :: "'p ed_ops \<Rightarrow> u256 \<Rightarrow> u256 \<Rightarrow> u256" where
  "MPEccSharedKey E key other =
     (if fst (ed_Unpack E other) then ed_Pack E (ed_ScalarMult E (snd (ed_Unpack E other)) key) else 0)"

record opened_box =
  vCoeff :: "u256 list"
  nPrivKey :: u256

record sealed_box =
  vEncryptedCoeff :: "u256 list"
  vEncryptedShare :: "u256 list"
  sb_nPubKey :: u256
  sb_nR :: u256
  sb_nS :: u256

definition ob_IsNull :: "opened_box \<Rightarrow> bool" where
  "ob_IsNull b \<longleftrightarrow> vCoeff b = [] \<or> nPrivKey b = 0"

definition ob_Validate :: "opened_box \<Rightarrow> bool" where
  "ob_Validate b \<longleftrightarrow> list_all (\<lambda>c. c \<noteq> 0) (vCoeff b) \<and> vCoeff b \<noteq> []"

definition ob_PubKey :: "'p ed_ops \<Rightarrow> opened_box \<Rightarrow> u256" where
  "ob_PubKey E b = MPEccPubkey E (nPrivKey b)"

definition ob_SharedKey :: "'p ed_ops \<Rightarrow> opened_box \<Rightarrow> u256 \<Rightarrow> u256" where
  "ob_SharedKey E b pubkey = MPEccSharedKey E (nPrivKey b) pubkey"

fun poly_loop :: "nat list \<Rightarrow> u256 list \<Rightarrow> u32 \<Rightarrow> csc25519 \<Rightarrow> mp_error + csc25519" where
  "poly_loop [] cs nX f = Inr f"
| "poly_loop (i # is) cs nX f =
     (case pow_at nX (i - 1) of
        None \<Rightarrow> Inl Out_Of_Range
      | Some p \<Rightarrow> poly_loop is cs nX (sc_add f (sc_mul (sc_of_u256 (cs ! i)) p)))"

definition ob_Polynomial :: "opened_box \<Rightarrow> nat \<Rightarrow> u32 \<Rightarrow> mp_error + u256" where
  "ob_Polynomial b nThresh nX =
     (if ob_IsNull b \<or> nThresh > length (vCoeff b) then Inl Box_Null
      else res_bind (poly_loop [1..<nThresh] (vCoeff b) nX (sc_of_u256 (vCoeff b ! 0))) (\<lambda>f. Inr (words_u256 f)))"

definition ob_Signature :: "'p ed_ops \<Rightarrow> opened_box \<Rightarrow> u256 \<Rightarrow> u256 \<Rightarrow> u256 \<times> u256" where
  "ob_Signature E b hash r = (MPEccPubkey E r, MPEccSign (nPrivKey b) r hash)"

definition ob_VerifySignature :: "'p ed_ops \<Rightarrow> opened_box \<Rightarrow> u256 \<Rightarrow> u256 \<Rightarrow> u256 \<Rightarrow> bool" where
  "ob_VerifySignature E b hash nR nS = MPEccVerify E (ob_PubKey E b) nR nS hash"

definition MakeSealedBox :: "'p ed_ops \<Rightarrow> opened_box \<Rightarrow> sealed_box \<Rightarrow> u256 \<Rightarrow> u256 \<Rightarrow> bool \<times> sealed_box" where
  "MakeSealedBox E b sealed nIdent r =
     (if \<not> ob_Validate b \<or> r = 0 then (False, sealed)
      else let (nR, nS) = ob_Signature E b nIdent r
           in (True, sealed\<lparr>vEncryptedCoeff := map (MPEccPubkey E) (vCoeff b), sb_nPubKey := ob_PubKey E b, sb_nR := nR, sb_nS := nS\<rparr>))"

definition sb_IsNull :: "sealed_box \<Rightarrow> bool" where
  "sb_IsNull s \<longleftrightarrow> vEncryptedCoeff s = [] \<or> sb_nPubKey s = 0"

definition sb_PubKey :: "sealed_box \<Rightarrow> mp_error + u256" where
  "sb_PubKey s = (if sb_IsNull s then Inl Box_Null else Inr (sb_nPubKey s))"

definition sb_VerifyIdent :: "'p ed_ops \<Rightarrow> sealed_box \<Rightarrow> u256 \<Rightarrow> bool" where
  "sb_VerifyIdent E s nIdent \<longleftrightarrow>
     \<not> sb_IsNull s \<and> list_all (MPEccPubkeyValidate E) (vEncryptedCoeff s) \<and> MPEccVerify E (sb_nPubKey s) (sb_nR s) (sb_nS s) nIdent"

definition sb_VerifySignature :: "'p ed_ops \<Rightarrow> sealed_box \<Rightarrow> u256 \<Rightarrow> u256 \<Rightarrow> u256 \<Rightarrow> bool" where
  "sb_VerifySignature E s hash nSignR nSignS \<longleftrightarrow> \<not> sb_IsNull s \<and> MPEccVerify E (sb_nPubKey s) nSignR nSignS hash"

definition VerifyPolynomial :: "'p ed_ops \<Rightarrow> sealed_box \<Rightarrow> u32 \<Rightarrow> u256 \<Rightarrow> bool" where
  "VerifyPolynomial E s nX v =
     (if unat nX \<ge> length (vEncryptedShare s) then False else vEncryptedShare s ! unat nX = MPEccPubkey E v)"

text \<open>\<^verbatim>\<open>std::vector::resize\<close>, and the loops of \<^verbatim>\<open>PrecalcPolynomial\<close>. An index past \<^verbatim>\<open>vEncryptedCoeff\<close> or past the table of
  powers is an access out of range.\<close>

definition vresize :: "nat \<Rightarrow> 'a \<Rightarrow> 'a list \<Rightarrow> 'a list" where
  "vresize n d xs = take n xs @ replicate (n - length xs) d"

fun precalc_point :: "'p ed_ops \<Rightarrow> nat list \<Rightarrow> 'p list \<Rightarrow> u32 \<Rightarrow> 'p \<Rightarrow> mp_error + 'p" where
  "precalc_point E [] vP nX P = Inr P"
| "precalc_point E (i # is) vP nX P =
     (case pow_at nX (i - 1) of
        None \<Rightarrow> Inl Out_Of_Range
      | Some p \<Rightarrow> precalc_point E is vP nX (ed_add E P (ed_ScalarMult E (vP ! i) (words_u256 p))))"

fun precalc_loop :: "'p ed_ops \<Rightarrow> nat list \<Rightarrow> nat \<Rightarrow> 'p list \<Rightarrow> u256 list \<Rightarrow> mp_error + u256 list" where
  "precalc_loop E [] nThresh vP shares = Inr shares"
| "precalc_loop E (x # xs) nThresh vP shares =
     res_bind (precalc_point E [1..<nThresh] vP (word_of_nat x) (vP ! 0))
       (\<lambda>P. precalc_loop E xs nThresh vP (shares[x := ed_Pack E P]))"

definition PrecalcPolynomial :: "'p ed_ops \<Rightarrow> nat \<Rightarrow> nat \<Rightarrow> sealed_box \<Rightarrow> mp_error + sealed_box" where
  "PrecalcPolynomial E nThresh nLastIndex s =
     (if nThresh > length (vEncryptedCoeff s) \<or> (nThresh = 0 \<and> 1 < nLastIndex) then Inl Out_Of_Range
      else res_bind (precalc_loop E [1..<nLastIndex] nThresh (map (\<lambda>c. snd (ed_Unpack E c)) (take nThresh (vEncryptedCoeff s)))
                       (vresize nLastIndex 0 (vEncryptedShare s)))
             (\<lambda>shares. Inr (s\<lparr>vEncryptedShare := shares\<rparr>)))"

section \<open>The group\<close>

text \<open>\<open>rep P a\<close>: the point \<open>P\<close>, in whatever coordinates, is \<open>a\<close> times the base point. The laws cover the scalars below \<open>2^255\<close>. For the
  others there is \<open>top_bit_ignored\<close>, a hypothesis of its own: the base point multiplication of libsodium clears bit 255 of the scalar
  before it multiplies, while \<^verbatim>\<open>CSC25519\<close> reads all 256 bits.\<close>

definition ed_laws :: "'p ed_ops \<Rightarrow> ('p \<Rightarrow> int \<Rightarrow> bool) \<Rightarrow> bool" where
  "ed_laws E rep \<longleftrightarrow>
     (\<forall>s. unat s < 2 ^ 255 \<longrightarrow> MPEccPubkey E s \<noteq> 0 \<and> fst (ed_Unpack E (MPEccPubkey E s)) \<and> rep (snd (ed_Unpack E (MPEccPubkey E s))) (int (unat s))) \<and>
     (\<forall>P Q a b. rep P a \<longrightarrow> rep Q b \<longrightarrow> rep (ed_add E P Q) (a + b) \<and> (ed_eq E P Q \<longleftrightarrow> sc_mod a = sc_mod b)) \<and>
     (\<forall>P a k. rep P a \<longrightarrow> rep (ed_ScalarMult E P k) (a * int (unat k))) \<and>
     (\<forall>P a s. rep P a \<longrightarrow> unat s < 2 ^ 255 \<longrightarrow> sc_mod a = sc_mod (int (unat s)) \<longrightarrow> ed_Pack E P = MPEccPubkey E s) \<and>
     (\<forall>s t. unat s < 2 ^ 255 \<longrightarrow> unat t < 2 ^ 255 \<longrightarrow> MPEccPubkey E s = MPEccPubkey E t \<longrightarrow> sc_mod (int (unat s)) = sc_mod (int (unat t))) \<and>
     (\<forall>s. rep (ed_Generate E s) (int (unat s))) \<and> rep (ed_zero E) 0"

definition top_bit_ignored :: "'p ed_ops \<Rightarrow> bool" where
  "top_bit_ignored E \<longleftrightarrow> (\<forall>s. MPEccPubkey E s = MPEccPubkey E (take_bit 255 s))"

lemma ed_lawsD:
  assumes "ed_laws E rep"
  shows "unat s < 2 ^ 255 \<Longrightarrow> MPEccPubkey E s \<noteq> 0" "unat s < 2 ^ 255 \<Longrightarrow> fst (ed_Unpack E (MPEccPubkey E s))"
    "unat s < 2 ^ 255 \<Longrightarrow> rep (snd (ed_Unpack E (MPEccPubkey E s))) (int (unat s))"
    "rep P a \<Longrightarrow> rep Q b \<Longrightarrow> rep (ed_add E P Q) (a + b)" "rep P a \<Longrightarrow> rep Q b \<Longrightarrow> ed_eq E P Q \<longleftrightarrow> sc_mod a = sc_mod b"
    "rep P a \<Longrightarrow> rep (ed_ScalarMult E P k) (a * int (unat k))"
    "rep P a \<Longrightarrow> unat s < 2 ^ 255 \<Longrightarrow> sc_mod a = sc_mod (int (unat s)) \<Longrightarrow> ed_Pack E P = MPEccPubkey E s"
    "unat s < 2 ^ 255 \<Longrightarrow> unat t < 2 ^ 255 \<Longrightarrow> MPEccPubkey E s = MPEccPubkey E t \<Longrightarrow> sc_mod (int (unat s)) = sc_mod (int (unat t))"
    "rep (ed_Generate E s) (int (unat s))" "rep (ed_zero E) 0"
  using assms unfolding ed_laws_def by blast+

section \<open>The dealer's polynomial\<close>

definition box_poly :: "opened_box \<Rightarrow> nat \<Rightarrow> int list" where
  "box_poly b t = map (\<lambda>c. int (unat c)) (take t (vCoeff b))"

lemma poly_at_take_Suc:
  "i < length cs \<Longrightarrow> poly_at (map f (take (Suc i) cs)) x = poly_at (map f (take i cs)) x + f (cs ! i) * x ^ i"
  by (simp add: poly_at_def take_Suc_conv_app_nth nth_append min_def)

lemma pow_term:
  assumes "1 \<le> unat nX" "unat nX \<le> 51" "1 \<le> i" "i \<le> 26"
  obtains p where "pow_at nX (i - 1) = Some p" "sc_is p (int (unat nX) ^ i)"
proof -
  obtain p where p: "pow_at nX (i - 1) = Some p" "sc_ok p" "val64 p = unat nX ^ Suc (i - 1)"
    by (rule pow_at_val[of nX "i - 1"]) (use assms in simp_all)
  then have "sc_is p (int (unat nX) ^ i)" using assms(3) by (simp add: sc_is_def del: of_nat_unat)
  with p(1) that show thesis by blast
qed

lemma poly_loop_is:
  assumes "1 \<le> unat nX" "unat nX \<le> 51" "t \<le> length cs" "t \<le> 27"
  shows "1 \<le> i \<Longrightarrow> i \<le> t \<Longrightarrow> sc_is f (poly_at (map (\<lambda>c. int (unat c)) (take i cs)) (int (unat nX))) \<Longrightarrow>
    \<exists>g. poly_loop [i..<t] cs nX f = Inr g \<and> sc_is g (poly_at (map (\<lambda>c. int (unat c)) (take t cs)) (int (unat nX)))"
proof (induction "t - i" arbitrary: i f)
  case (Suc n)
  then have i: "i < t" "i < length cs" using assms(3) by simp_all
  obtain p where p: "pow_at nX (i - 1) = Some p" "sc_is p (int (unat nX) ^ i)"
    by (rule pow_term[OF assms(1,2), of i]) (use Suc.prems i assms(4) in simp_all)
  let ?f = "sc_add f (sc_mul (sc_of_u256 (cs ! i)) p)"
  have "sc_is ?f (poly_at (map (\<lambda>c. int (unat c)) (take (Suc i) cs)) (int (unat nX)))"
    unfolding poly_at_take_Suc[OF i(2)] by (intro sc_is_intros Suc.prems(3) p(2))
  then show ?case using Suc.hyps(1)[of "Suc i" ?f] Suc.hyps(2) Suc.prems i(1) p(1) by (simp add: upt_conv_Cons del: of_nat_unat)
qed auto

lemma ob_Polynomial_val:
  assumes "\<not> ob_IsNull b" "1 \<le> t" "t \<le> length (vCoeff b)" "t \<le> 27" "1 \<le> unat nX" "unat nX \<le> 51"
  shows "\<exists>u. ob_Polynomial b t nX = Inr u \<and> int (unat u) = sc_mod (poly_at (box_poly b t) (int (unat nX)))"
proof -
  have "sc_is (sc_of_u256 (vCoeff b ! 0)) (poly_at (map (\<lambda>c. int (unat c)) (take 1 (vCoeff b))) (int (unat nX)))"
    using assms(2,3) sc_is_u256[of "vCoeff b ! 0"] by (simp add: poly_at_def take_Suc_conv_app_nth del: of_nat_unat)
  then obtain g where g: "poly_loop [1..<t] (vCoeff b) nX (sc_of_u256 (vCoeff b ! 0)) = Inr g" "sc_is g (poly_at (box_poly b t) (int (unat nX)))"
    using poly_loop_is[OF assms(5,6,3,4), of 1] assms(2) by (auto simp: box_poly_def simp del: of_nat_unat)
  then have "int (unat (words_u256 g)) = sc_mod (poly_at (box_poly b t) (int (unat nX)))"
    using words_u256_val[of g] mod_pos_pos_trivial[of "int (val64 g)" "int sc_order"] by (simp add: sc_is_def sc_ok_def del: of_nat_unat)
  then show ?thesis using g(1) assms(1,3) by (simp add: ob_Polynomial_def del: of_nat_unat)
qed

section \<open>Sealing\<close>

lemma MPEccSign_val: "sc_mod (int (unat (MPEccSign key r hash))) = sc_mod (int (unat key) + int (unat r) * int (unat hash))"
proof -
  have s: "sc_is (sc_add (sc_of_u256 key) (sc_mul (sc_of_u256 r) (sc_of_u256 hash))) (int (unat key) + int (unat r) * int (unat hash))"
    by (intro sc_is_intros)
  then show ?thesis unfolding MPEccSign_def using words_u256_val by (simp add: sc_is_def del: of_nat_unat)
qed

text \<open>A signature verifies, whatever is signed.\<close>

lemma MPEccVerify_sign:
  assumes "ed_laws E rep" "unat key < 2 ^ 255" "unat r < 2 ^ 255"
  shows "MPEccVerify E (MPEccPubkey E key) (MPEccPubkey E r) (MPEccSign key r hash) hash"
proof -
  note L = ed_lawsD[OF assms(1)]
  have "rep (ed_add E (snd (ed_Unpack E (MPEccPubkey E key))) (ed_ScalarMult E (snd (ed_Unpack E (MPEccPubkey E r))) hash))
      (int (unat key) + int (unat r) * int (unat hash))"
    by (intro L(4) L(6) L(3) assms(2,3))
  then show ?thesis using L(5)[OF L(9)] L(2)[OF assms(2)] L(2)[OF assms(3)] MPEccSign_val[of key r hash] by (simp add: MPEccVerify_def del: of_nat_unat)
qed

lemma ed_lawsI:
  assumes "\<And>s. unat s < 2 ^ 255 \<Longrightarrow> MPEccPubkey E s \<noteq> 0" "\<And>s. unat s < 2 ^ 255 \<Longrightarrow> fst (ed_Unpack E (MPEccPubkey E s))"
    "\<And>s. unat s < 2 ^ 255 \<Longrightarrow> rep (snd (ed_Unpack E (MPEccPubkey E s))) (int (unat s))"
    "\<And>P Q a b. rep P a \<Longrightarrow> rep Q b \<Longrightarrow> rep (ed_add E P Q) (a + b)" "\<And>P Q a b. rep P a \<Longrightarrow> rep Q b \<Longrightarrow> ed_eq E P Q \<longleftrightarrow> sc_mod a = sc_mod b"
    "\<And>P a k. rep P a \<Longrightarrow> rep (ed_ScalarMult E P k) (a * int (unat k))"
    "\<And>P a s. rep P a \<Longrightarrow> unat s < 2 ^ 255 \<Longrightarrow> sc_mod a = sc_mod (int (unat s)) \<Longrightarrow> ed_Pack E P = MPEccPubkey E s"
    "\<And>s t. unat s < 2 ^ 255 \<Longrightarrow> unat t < 2 ^ 255 \<Longrightarrow> MPEccPubkey E s = MPEccPubkey E t \<Longrightarrow> sc_mod (int (unat s)) = sc_mod (int (unat t))"
    "\<And>s. rep (ed_Generate E s) (int (unat s))" "rep (ed_zero E) 0"
  shows "ed_laws E rep"
  unfolding ed_laws_def by (intro conjI allI impI assms)

lemma MakeSealedBox_fields:
  assumes "MakeSealedBox E b s0 nIdent r = (True, s)"
  shows "vEncryptedCoeff s = map (MPEccPubkey E) (vCoeff b)" "sb_nPubKey s = MPEccPubkey E (nPrivKey b)"
    "sb_nR s = MPEccPubkey E r" "sb_nS s = MPEccSign (nPrivKey b) r nIdent" "ob_Validate b"
  using assms by (auto simp: MakeSealedBox_def ob_Signature_def ob_PubKey_def split: if_splits)

lemma sealed_verifies:
  assumes "ed_laws E rep" "MakeSealedBox E b s0 nIdent r = (True, s)" "unat (nPrivKey b) < 2 ^ 255" "unat r < 2 ^ 255"
    "list_all (\<lambda>c. unat c < 2 ^ 252) (vCoeff b)"
  shows "sb_VerifyIdent E s nIdent"
proof -
  note L = ed_lawsD[OF assms(1)] note f = MakeSealedBox_fields[OF assms(2)]
  have "MPEccPubkeyValidate E (MPEccPubkey E c)" if "c \<in> set (vCoeff b)" for c
  proof -
    have c: "unat c < 2 ^ 252" "c \<noteq> 0" using that assms(5) f(5) by (auto simp: list_all_iff ob_Validate_def)
    then have l: "unat c < 2 ^ 255" by simp
    have "int (unat c) < int sc_order" using c(1) sc_order_bounds(1) by (simp only: of_nat_less_iff)
    then have "sc_mod (int (unat c)) = int (unat c)" by (intro mod_pos_pos_trivial) simp_all
    then have "sc_mod (int (unat c)) \<noteq> sc_mod 0" using c(2) by (simp add: unsigned_eq_0_iff del: of_nat_unat)
    then show ?thesis using L(1,2)[OF l] L(5)[OF L(3)[OF l] L(10)] by (simp add: MPEccPubkeyValidate_def)
  qed
  moreover have "\<not> sb_IsNull s" using f(1,2,5) L(1)[OF assms(3)] by (simp add: sb_IsNull_def ob_Validate_def)
  ultimately show ?thesis using MPEccVerify_sign[OF assms(1,3,4), of nIdent] f by (simp add: sb_VerifyIdent_def list_all_iff)
qed

section \<open>The points of the shares\<close>

lemma precalc_point_is:
  assumes "ed_laws E rep" "1 \<le> unat nX" "unat nX \<le> 51" "t \<le> length cs" "t \<le> 27" "list_all (\<lambda>c. unat c < 2 ^ 255) cs"
    and vP: "vP = map (\<lambda>c. snd (ed_Unpack E c)) (take t (map (MPEccPubkey E) cs))"
  shows "1 \<le> i \<Longrightarrow> i \<le> t \<Longrightarrow> rep P (poly_at (map (\<lambda>c. int (unat c)) (take i cs)) (int (unat nX))) \<Longrightarrow>
    \<exists>Q. precalc_point E [i..<t] vP nX P = Inr Q \<and> rep Q (poly_at (map (\<lambda>c. int (unat c)) (take t cs)) (int (unat nX)))"
proof (induction "t - i" arbitrary: i P)
  case (Suc n)
  note L = ed_lawsD[OF assms(1)]
  have i: "i < t" "i < length cs" using Suc assms(4) by simp_all
  obtain p where p: "pow_at nX (i - 1) = Some p" "sc_ok p" "val64 p = unat nX ^ Suc (i - 1)"
    by (rule pow_at_val[OF assms(2,3), of "i - 1"]) (use Suc.prems i assms(5) in simp_all)
  have pv: "int (unat (words_u256 p)) = int (unat nX) ^ i" using words_u256_val[OF p(2)] p(3) Suc.prems(1) by (simp del: of_nat_unat)
  let ?P = "ed_add E P (ed_ScalarMult E (vP ! i) (words_u256 p))"
  have "rep (vP ! i) (int (unat (cs ! i)))" using L(3)[of "cs ! i"] assms(6) i by (simp add: vP list_all_length)
  from L(4)[OF Suc.prems(3) L(6)[OF this, of "words_u256 p"]]
  have "rep ?P (poly_at (map (\<lambda>c. int (unat c)) (take (Suc i) cs)) (int (unat nX)))" unfolding poly_at_take_Suc[OF i(2)] pv .
  then show ?case using Suc.hyps(1)[of "Suc i" ?P] Suc.hyps(2) Suc.prems i(1) p(1) by (simp add: upt_conv_Cons del: of_nat_unat)
qed auto

lemma precalc_loop_is:
  assumes "ed_laws E rep" "1 \<le> t" "t \<le> length cs" "t \<le> 27" "list_all (\<lambda>c. unat c < 2 ^ 255) cs" "n \<le> 52"
    and vP: "vP = map (\<lambda>c. snd (ed_Unpack E c)) (take t (map (MPEccPubkey E) cs))"
    and good: "good = (\<lambda>x P. \<forall>u. unat u < 2 ^ 255 \<longrightarrow>
      sc_mod (int (unat u)) = sc_mod (poly_at (map (\<lambda>c. int (unat c)) (take t cs)) (int x)) \<longrightarrow> P = MPEccPubkey E u)"
  shows "1 \<le> x \<Longrightarrow> x \<le> n \<Longrightarrow> length shares = n \<Longrightarrow> (\<forall>y. 1 \<le> y \<longrightarrow> y < x \<longrightarrow> good y (shares ! y)) \<Longrightarrow>
    \<exists>r. precalc_loop E [x..<n] t vP shares = Inr r \<and> length r = n \<and> (\<forall>y. 1 \<le> y \<longrightarrow> y < n \<longrightarrow> good y (r ! y))"
proof (induction "n - x" arbitrary: x shares)
  case (Suc k)
  note L = ed_lawsD[OF assms(1)]
  have x: "x < n" "unat (word_of_nat x :: u32) = x" using Suc assms(6) by (simp_all add: unat_of_nat)
  have nonempty: "0 < length cs" using assms(2,3) by linarith
  have "rep (vP ! 0) (poly_at (map (\<lambda>c. int (unat c)) (take 1 cs)) (int (unat (word_of_nat x :: u32))))"
    using L(3)[of "cs ! 0"] assms(2,3,5) nonempty by (simp add: vP list_all_length poly_at_def take_Suc_conv_app_nth del: of_nat_unat)
  then obtain Q where Q: "precalc_point E [1..<t] vP (word_of_nat x) (vP ! 0) = Inr Q" "rep Q (poly_at (map (\<lambda>c. int (unat c)) (take t cs)) (int x))"
    using precalc_point_is[OF assms(1) _ _ assms(3-5) vP, of "word_of_nat x" 1 "vP ! 0"] x Suc.prems(1) assms(2,6) by (auto simp del: of_nat_unat)
  let ?s = "shares[x := ed_Pack E Q]"
  have "good x (ed_Pack E Q)" unfolding good using L(7)[OF Q(2)] by simp
  then have "\<forall>y. 1 \<le> y \<longrightarrow> y < Suc x \<longrightarrow> good y (?s ! y)" using Suc.prems(3,4) x(1) by (auto simp: nth_list_update less_Suc_eq)
  then show ?case using Suc.hyps(1)[of "Suc x" ?s] Suc.hyps(2) Suc.prems x(1) Q(1) by (simp add: upt_conv_Cons)
qed auto

text \<open>\<open>seals b t n s\<close>: the points in the sealed box are those of the shares the dealer computes.\<close>

definition seals :: "'p ed_ops \<Rightarrow> opened_box \<Rightarrow> nat \<Rightarrow> nat \<Rightarrow> sealed_box \<Rightarrow> bool" where
  "seals E b t n s \<longleftrightarrow> length (vEncryptedShare s) = n \<and>
     (\<forall>x u. 1 \<le> x \<longrightarrow> x < n \<longrightarrow> ob_Polynomial b t (word_of_nat x) = Inr u \<longrightarrow> vEncryptedShare s ! x = MPEccPubkey E u)"

lemma reduced_255:
  assumes "int (unat u) = sc_mod a"
  shows "unat u < 2 ^ 255"
proof -
  have "int (unat u) < int sc_order" using assms sc_order_bounds(4) by (simp del: of_nat_unat)
  then have "unat u < sc_order" by (simp only: of_nat_less_iff)
  then show ?thesis using sc_order_bounds(2) by simp
qed

lemma PrecalcPolynomial_seals:
  assumes "ed_laws E rep" "vEncryptedCoeff s = map (MPEccPubkey E) (vCoeff b)" "\<not> ob_IsNull b" "list_all (\<lambda>c. unat c < 2 ^ 255) (vCoeff b)"
    "1 \<le> t" "t \<le> length (vCoeff b)" "t \<le> 27" "1 \<le> n" "n \<le> 52"
  shows "\<exists>shares. PrecalcPolynomial E t n s = Inr (s\<lparr>vEncryptedShare := shares\<rparr>) \<and> seals E b t n (s\<lparr>vEncryptedShare := shares\<rparr>)"
proof -
  define good where "good = (\<lambda>x P. \<forall>u. unat u < 2 ^ 255 \<longrightarrow>
    sc_mod (int (unat u)) = sc_mod (poly_at (map (\<lambda>c. int (unat c)) (take t (vCoeff b))) (int x)) \<longrightarrow> P = MPEccPubkey E u)"
  let ?vP = "map (\<lambda>c. snd (ed_Unpack E c)) (take t (map (MPEccPubkey E) (vCoeff b)))"
  have "length (vresize n 0 (vEncryptedShare s)) = n" by (simp add: vresize_def)
  then obtain r where r: "precalc_loop E [1..<n] t ?vP (vresize n 0 (vEncryptedShare s)) = Inr r" "length r = n" "\<forall>y. 1 \<le> y \<longrightarrow> y < n \<longrightarrow> good y (r ! y)"
    using precalc_loop_is[OF assms(1,5,6,7,4,9) refl good_def, of 1] assms(8) by auto
  have "r ! x = MPEccPubkey E u" if x: "1 \<le> x" "x < n" and u: "ob_Polynomial b t (word_of_nat x) = Inr u" for x u
  proof -
    have "unat (word_of_nat x :: u32) = x" using x assms(9) by (simp add: unat_of_nat)
    then have e: "int (unat u) = sc_mod (poly_at (box_poly b t) (int x))"
      using ob_Polynomial_val[OF assms(3,5,6,7), of "word_of_nat x"] x assms(9) u by (auto simp del: of_nat_unat)
    then have "unat u < 2 ^ 255" by (rule reduced_255)
    then show ?thesis using r(3) x e unfolding good_def by (simp add: box_poly_def del: of_nat_unat)
  qed
  then have "seals E b t n (s\<lparr>vEncryptedShare := r\<rparr>)" using r(2) by (simp add: seals_def)
  moreover have "PrecalcPolynomial E t n s = Inr (s\<lparr>vEncryptedShare := r\<rparr>)"
    using r(1) assms(2,5,6) by (simp add: PrecalcPolynomial_def)
  ultimately show ?thesis by blast
qed

text \<open>What a verified value is.\<close>

lemma VerifyPolynomial_value:
  assumes "ed_laws E rep" "seals E b t n s" "\<not> ob_IsNull b" "1 \<le> t" "t \<le> length (vCoeff b)" "t \<le> 27" "n \<le> 52"
    "1 \<le> unat nX" "unat v < 2 ^ 255" "VerifyPolynomial E s nX v"
  shows "sc_mod (int (unat v)) = sc_mod (poly_at (box_poly b t) (int (unat nX)))" "unat nX < n"
proof -
  have x: "unat nX < n" "vEncryptedShare s ! unat nX = MPEccPubkey E v" using assms(2,10) by (auto simp: VerifyPolynomial_def seals_def split: if_splits)
  then show "unat nX < n" by simp
  obtain u where u: "ob_Polynomial b t nX = Inr u" "int (unat u) = sc_mod (poly_at (box_poly b t) (int (unat nX)))"
    using ob_Polynomial_val[OF assms(3-6,8)] x(1) assms(7) by auto
  have b: "unat u < 2 ^ 255" using u(2) by (rule reduced_255)
  have "MPEccPubkey E v = MPEccPubkey E u" using assms(2,8) x u(1) by (simp add: seals_def)
  then show "sc_mod (int (unat v)) = sc_mod (poly_at (box_poly b t) (int (unat nX)))"
    using ed_lawsD(8)[OF assms(1,9) b] u(2) by (simp del: of_nat_unat)
qed

section \<open>A group for examples\<close>

text \<open>The integers modulo the order satisfy the laws and ignore the top bit, so both can hold.\<close>

definition toy_ed :: "int ed_ops" where
  "toy_ed = \<lparr>MPEccPubkey = (\<lambda>s. word_of_nat (Suc (unat (take_bit 255 s) mod sc_order))),
    ed_Unpack = (\<lambda>u. (u \<noteq> 0, int (unat u) - 1)),
    ed_Pack = (\<lambda>P. word_of_nat (Suc (nat (sc_mod P)))),
    ed_add = (+), ed_ScalarMult = (\<lambda>P k. P * int (unat k)), ed_Generate = (\<lambda>s. int (unat s)),
    ed_eq = (\<lambda>P Q. sc_mod P = sc_mod Q), ed_zero = 0\<rparr>"

lemma toy_point: "n < sc_order \<Longrightarrow> unat (word_of_nat (Suc n) :: u256) = Suc n"
  using sc_order_bounds(2) by (simp add: unat_of_nat del: of_nat_Suc)

lemma take_bit_255: "unat (s :: u256) < 2 ^ 255 \<Longrightarrow> take_bit 255 s = s" "unat (take_bit 255 (s :: u256)) < 2 ^ 255"
proof -
  show "unat (take_bit 255 (s :: u256)) < 2 ^ 255" by (simp only: unsigned_take_bit_eq take_bit_nat_less_exp)
  show "take_bit 255 s = s" if "unat s < 2 ^ 255"
  proof -
    have "unat (take_bit 255 s) = unat s" using that by (simp only: unsigned_take_bit_eq take_bit_nat_eq_self)
    then show ?thesis by (rule unsigned_word_eqI)
  qed
qed

lemma toy_top_bit: "top_bit_ignored toy_ed"
  unfolding top_bit_ignored_def toy_ed_def by simp

lemma toy_pubkey:
  assumes "unat s < 2 ^ 255"
  shows "unat (MPEccPubkey toy_ed s) = Suc (unat s mod sc_order)" "MPEccPubkey toy_ed s \<noteq> 0"
  "ed_Unpack toy_ed (MPEccPubkey toy_ed s) = (True, int (unat s mod sc_order))"
proof -
  have l: "unat s mod sc_order < sc_order" using sc_order_bounds(4) by simp
  show e: "unat (MPEccPubkey toy_ed s) = Suc (unat s mod sc_order)"
    using toy_point[OF l] take_bit_255(1)[OF assms] by (simp add: toy_ed_def del: of_nat_Suc)
  then show n: "MPEccPubkey toy_ed s \<noteq> 0" by (metis nat.distinct(1) unsigned_0)
  show "ed_Unpack toy_ed (MPEccPubkey toy_ed s) = (True, int (unat s mod sc_order))"
    using e n by (simp add: toy_ed_def del: of_nat_Suc of_nat_unat)
qed

lemma toy_laws: "ed_laws toy_ed (\<lambda>P a. sc_mod P = sc_mod a)"
proof -
  have m: "sc_mod (int (unat s mod sc_order)) = sc_mod (int (unat s))" for s :: u256 by (simp add: zmod_int del: of_nat_unat)
  have p: "ed_Pack toy_ed P = MPEccPubkey toy_ed s" if "unat s < 2 ^ 255" "sc_mod P = sc_mod (int (unat s))" for P s
  proof -
    have "nat (sc_mod P) = unat s mod sc_order" unfolding that(2) by (simp add: nat_mod_as_int zmod_int del: of_nat_unat)
    then show ?thesis using take_bit_255(1)[OF that(1)] by (simp add: toy_ed_def)
  qed
  have i: "sc_mod (int (unat s)) = sc_mod (int (unat t))" if "unat s < 2 ^ 255" "unat t < 2 ^ 255" "MPEccPubkey toy_ed s = MPEccPubkey toy_ed t" for s t
    using arg_cong[OF that(3), of unat] unfolding toy_pubkey[OF that(1)] toy_pubkey[OF that(2)] by (simp add: zmod_int[symmetric] del: of_nat_unat)
  show ?thesis
  proof (rule ed_lawsI)
    show "sc_mod (ed_add toy_ed P Q) = sc_mod (a + b)" if "sc_mod P = sc_mod a" "sc_mod Q = sc_mod b" for P Q a b
      using mod_add_cong[OF that] by (simp add: toy_ed_def)
    show "sc_mod (ed_ScalarMult toy_ed P k) = sc_mod (a * int (unat k))" if "sc_mod P = sc_mod a" for P a k
      using mod_mult_cong[OF that refl] by (simp add: toy_ed_def del: of_nat_unat)
    show "ed_Pack toy_ed P = MPEccPubkey toy_ed s" if "sc_mod P = sc_mod a" "unat s < 2 ^ 255" "sc_mod a = sc_mod (int (unat s))" for P a s
      using p[OF that(2)] that by simp
    show "sc_mod (int (unat s)) = sc_mod (int (unat t))" if "unat s < 2 ^ 255" "unat t < 2 ^ 255" "MPEccPubkey toy_ed s = MPEccPubkey toy_ed t" for s t
      using i[OF that] .
    show "MPEccPubkey toy_ed s \<noteq> 0" "fst (ed_Unpack toy_ed (MPEccPubkey toy_ed s))"
      "sc_mod (snd (ed_Unpack toy_ed (MPEccPubkey toy_ed s))) = sc_mod (int (unat s))" if "unat s < 2 ^ 255" for s
      using toy_pubkey[OF that] m by (simp_all del: of_nat_unat)
  qed (simp_all add: toy_ed_def)
qed

text \<open>A scalar with bit 255 set is not congruent to what the library makes of it.\<close>

lemma top_bit_not_congruent:
  assumes "unat (u :: u256) < 2 ^ 255"
  shows "take_bit 255 (u OR 2 ^ 255) = u \<and> sc_mod (int (unat (u OR 2 ^ 255))) \<noteq> sc_mod (int (unat u))"
proof -
  let ?p = "2 ^ 255 :: u256"
  have b: "\<not> bit u 255" using arg_cong[OF take_bit_255(1)[OF assms], of "\<lambda>w. bit w 255"] by (simp add: bit_take_bit_iff)
  have t: "take_bit 255 (u OR ?p) = u"
    unfolding take_bit_or take_bit_255(1)[OF assms] by simp
  have z: "u AND ?p = 0" by (rule bit_word_eqI) (use b in \<open>auto simp only: bit_and_iff bit_exp_iff bit_0_eq bot_apply bot_bool_def\<close>)
  have d: "u OR ?p = u + ?p" using disjunctive_add_eq_or[OF z] by (rule sym)
  have p: "unat ?p = 2 ^ 255" by simp
  have "unat (u + ?p) = unat u + 2 ^ 255" using assms p by (subst unat_add_lem[THEN iffD1]) simp_all
  then have "int (unat (u OR ?p)) = int (unat u) + 2 ^ 255" unfolding d by (simp del: of_nat_unat)
  moreover have "\<not> int sc_order dvd 2 ^ 255" by (simp add: sc_order_def dvd_eq_mod_eq_0)
  ultimately have "sc_mod (int (unat (u OR ?p))) \<noteq> sc_mod (int (unat u))" by (simp add: mod_eq_dvd_iff del: of_nat_unat)
  then show ?thesis using t by blast
qed

text \<open>(C22) The laws of the curve operations, \<open>ed_laws\<close>, are hypotheses. A box sealed for an identity verifies under it. Once the points of the
  shares are computed, the box accepts at every place, among the values below \<open>2^255\<close>, exactly those that are congruent to the one the
  dealer's polynomial has there. If libsodium ignores bit 255 of a scalar, as \<open>top_bit_ignored\<close> says, the box accepts any value by its
  lower 255 bits: at every place it then also accepts one that is not congruent to the dealer's.\<close>

theorem sealed_box_opens:
  assumes "ed_laws E rep" "MakeSealedBox E b s0 ident r = (True, s)" "nPrivKey b \<noteq> 0" "unat (nPrivKey b) < 2 ^ 255" "unat r < 2 ^ 255"
    "list_all (\<lambda>c. unat c < 2 ^ 252) (vCoeff b)" "1 \<le> t" "t \<le> length (vCoeff b)" "t \<le> 27" "1 \<le> n" "n \<le> 52"
  shows "sb_VerifyIdent E s ident \<and> (\<exists>s'. PrecalcPolynomial E t n s = Inr s' \<and>
    (\<forall>x. 1 \<le> x \<longrightarrow> x < n \<longrightarrow> (\<exists>u. ob_Polynomial b t (word_of_nat x) = Inr u \<and>
      (\<forall>v. unat v < 2 ^ 255 \<longrightarrow> (VerifyPolynomial E s' (word_of_nat x) v \<longleftrightarrow> sc_mod (int (unat v)) = sc_mod (int (unat u)))) \<and>
      (top_bit_ignored E \<longrightarrow>
        (\<forall>v. VerifyPolynomial E s' (word_of_nat x) v \<longleftrightarrow> sc_mod (int (unat (take_bit 255 v))) = sc_mod (int (unat u))) \<and>
        (\<exists>v. VerifyPolynomial E s' (word_of_nat x) v \<and> sc_mod (int (unat v)) \<noteq> sc_mod (int (unat u)))))))"
proof -
  note L = ed_lawsD[OF assms(1)] and f = MakeSealedBox_fields[OF assms(2)]
  have b: "\<not> ob_IsNull b" using f(5) assms(3) by (simp add: ob_IsNull_def ob_Validate_def)
  have c: "list_all (\<lambda>c. unat c < 2 ^ 255) (vCoeff b)" using assms(6) by (rule list.pred_mono_strong) simp
  obtain sh where sh: "PrecalcPolynomial E t n s = Inr (s\<lparr>vEncryptedShare := sh\<rparr>)" "seals E b t n (s\<lparr>vEncryptedShare := sh\<rparr>)"
    using PrecalcPolynomial_seals[OF assms(1) f(1) b c assms(7-11)] by blast
  let ?s = "s\<lparr>vEncryptedShare := sh\<rparr>"
  have "\<exists>u. ob_Polynomial b t (word_of_nat x) = Inr u \<and>
      (\<forall>v. unat v < 2 ^ 255 \<longrightarrow> (VerifyPolynomial E ?s (word_of_nat x) v \<longleftrightarrow> sc_mod (int (unat v)) = sc_mod (int (unat u)))) \<and>
      (top_bit_ignored E \<longrightarrow>
        (\<forall>v. VerifyPolynomial E ?s (word_of_nat x) v \<longleftrightarrow> sc_mod (int (unat (take_bit 255 v))) = sc_mod (int (unat u))) \<and>
        (\<exists>v. VerifyPolynomial E ?s (word_of_nat x) v \<and> sc_mod (int (unat v)) \<noteq> sc_mod (int (unat u))))"
    if x: "1 \<le> x" "x < n" for x
  proof -
    have xw: "unat (word_of_nat x :: u32) = x" using x(2) assms(11) by (simp add: unat_of_nat)
    obtain u where u: "ob_Polynomial b t (word_of_nat x) = Inr u" "int (unat u) = sc_mod (poly_at (box_poly b t) (int x))"
      using ob_Polynomial_val[OF b assms(7-9), of "word_of_nat x"] x assms(11) xw by (auto simp del: of_nat_unat)
    have ub: "unat u < 2 ^ 255" using u(2) by (rule reduced_255)
    have V: "VerifyPolynomial E ?s (word_of_nat x) v \<longleftrightarrow> MPEccPubkey E u = MPEccPubkey E v" for v
      using sh(2) x u(1) by (simp add: VerifyPolynomial_def seals_def xw)
    have l: "VerifyPolynomial E ?s (word_of_nat x) v \<longleftrightarrow> sc_mod (int (unat v)) = sc_mod (int (unat u))" if v: "unat v < 2 ^ 255" for v
      unfolding V using L(8)[OF ub v] L(7)[OF L(3)[OF v] ub] L(7)[OF L(3)[OF v] v] by metis
    have a: "VerifyPolynomial E ?s (word_of_nat x) v \<longleftrightarrow> sc_mod (int (unat (take_bit 255 v))) = sc_mod (int (unat u))" if "top_bit_ignored E" for v
      using l[OF take_bit_255(2), of v] that unfolding V top_bit_ignored_def by metis
    have "\<exists>v. VerifyPolynomial E ?s (word_of_nat x) v \<and> sc_mod (int (unat v)) \<noteq> sc_mod (int (unat u))" if "top_bit_ignored E"
      using a[OF that, of "u OR 2 ^ 255"] top_bit_not_congruent[OF ub] by (metis (no_types))
    then show ?thesis using u(1) l a by blast
  qed
  then show ?thesis using sh(1) sealed_verifies[OF assms(1,2,4,5,6)] by blast
qed

definition toy_box :: opened_box where "toy_box = \<lparr>vCoeff = [5, 7], nPrivKey = 3\<rparr>"

definition toy_sealed :: "u256 \<Rightarrow> u256 \<Rightarrow> opened_box \<Rightarrow> sealed_box" where
  "toy_sealed ident r b = snd (MakeSealedBox toy_ed b \<lparr>vEncryptedCoeff = [], vEncryptedShare = [], sb_nPubKey = 0, sb_nR = 0, sb_nS = 0\<rparr> ident r)"

theorem sealed_box_opens_witness:
  "sb_VerifyIdent toy_ed (toy_sealed 9 4 toy_box) 9 \<and> (\<exists>s' u. PrecalcPolynomial toy_ed 2 4 (toy_sealed 9 4 toy_box) = Inr s' \<and>
    ob_Polynomial toy_box 2 (word_of_nat 2) = Inr u \<and> (VerifyPolynomial toy_ed s' (word_of_nat 2) 19 \<longleftrightarrow> sc_mod 19 = sc_mod (int (unat u))) \<and>
    (\<exists>v. VerifyPolynomial toy_ed s' (word_of_nat 2) v \<and> sc_mod (int (unat v)) \<noteq> sc_mod (int (unat u))))"
proof -
  have m: "MakeSealedBox toy_ed toy_box \<lparr>vEncryptedCoeff = [], vEncryptedShare = [], sb_nPubKey = 0, sb_nR = 0, sb_nS = 0\<rparr> 9 4 = (True, toy_sealed 9 4 toy_box)"
    by (simp add: toy_sealed_def MakeSealedBox_def toy_box_def ob_Validate_def split: prod.split)
  have h: "nPrivKey toy_box \<noteq> 0" "unat (nPrivKey toy_box) < 2 ^ 255" "unat (4 :: u256) < 2 ^ 255" "list_all (\<lambda>c. unat c < 2 ^ 252) (vCoeff toy_box)"
    "1 \<le> (2 :: nat)" "2 \<le> length (vCoeff toy_box)" "2 \<le> (27 :: nat)" "1 \<le> (4 :: nat)" "4 \<le> (52 :: nat)" by (simp_all add: toy_box_def)
  from sealed_box_opens[OF toy_laws m h] obtain s' where s': "sb_VerifyIdent toy_ed (toy_sealed 9 4 toy_box) 9"
    "PrecalcPolynomial toy_ed 2 4 (toy_sealed 9 4 toy_box) = Inr s'" "\<forall>x. 1 \<le> x \<longrightarrow> x < 4 \<longrightarrow> (\<exists>u. ob_Polynomial toy_box 2 (word_of_nat x) = Inr u \<and>
      (\<forall>v. unat v < 2 ^ 255 \<longrightarrow> (VerifyPolynomial toy_ed s' (word_of_nat x) v \<longleftrightarrow> sc_mod (int (unat v)) = sc_mod (int (unat u)))) \<and>
      (top_bit_ignored toy_ed \<longrightarrow>
        (\<forall>v. VerifyPolynomial toy_ed s' (word_of_nat x) v \<longleftrightarrow> sc_mod (int (unat (take_bit 255 v))) = sc_mod (int (unat u))) \<and>
        (\<exists>v. VerifyPolynomial toy_ed s' (word_of_nat x) v \<and> sc_mod (int (unat v)) \<noteq> sc_mod (int (unat u)))))" by (elim conjE exE)
  have "1 \<le> (2 :: nat)" "2 < (4 :: nat)" by simp_all
  from s'(3)[rule_format, OF this] obtain u where u: "ob_Polynomial toy_box 2 (word_of_nat 2) = Inr u"
    "\<And>v. unat v < 2 ^ 255 \<Longrightarrow> VerifyPolynomial toy_ed s' (word_of_nat 2) v \<longleftrightarrow> sc_mod (int (unat v)) = sc_mod (int (unat u))"
    "\<exists>v. VerifyPolynomial toy_ed s' (word_of_nat 2) v \<and> sc_mod (int (unat v)) \<noteq> sc_mod (int (unat u))" using toy_top_bit by blast
  have "VerifyPolynomial toy_ed s' (word_of_nat 2) 19 \<longleftrightarrow> sc_mod 19 = sc_mod (int (unat u))" using u(2)[of 19] by simp
  then show ?thesis using s'(1,2) u(1,3) by blast
qed

end
