(* ===== verification/MPSecretShare.thy ===== *)
theory MPSecretShare
  imports MPBox
begin

text \<open>
  \<^verbatim>\<open>src/src/mpvss/mpvss.cpp\<close>: publicly verifiable secret sharing. Every delegate deals a polynomial, its value at zero the
  secret; \<^verbatim>\<open>Enroll\<close> gives every candidate a range of places as wide as its weight, \<^verbatim>\<open>Distribute\<close> and \<^verbatim>\<open>Accept\<close> hand out
  the shares, \<^verbatim>\<open>Publish\<close> and \<^verbatim>\<open>Collect\<close> open them, and \<^verbatim>\<open>Reconstruct\<close> interpolates the secrets of the dealers that have
  enough. The maps are sorted association lists; the loops the code hands to \<^verbatim>\<open>ParallelComputer\<close> work on one element each and
  run here in order. Sizes are natural numbers. Random numbers are arguments.
\<close>

unbundle bit_operations_syntax

record mp_candidate =
  nIdent :: u256
  nWeight :: nat
  sBox :: sealed_box

record mp_participant =
  candidate :: mp_candidate
  nIndex :: nat
  nSharedKey :: u256
  vShare :: "u256 list"

record mp_secret =
  ss_nIdent :: u256
  myBox :: opened_box
  ss_nWeight :: nat
  ss_nIndex :: nat
  nThresh :: nat
  fCollectCompleted :: bool
  mapParticipant :: "(u256 \<times> mp_participant) list"
  mapOpenedShare :: "(u256 \<times> mp_share list) list"

definition cand_Verify :: "'p ed_ops \<Rightarrow> mp_candidate \<Rightarrow> bool" where
  "cand_Verify E c = sb_VerifyIdent E (sBox c) (nIdent c)"

section \<open>Participants\<close>

definition mp_null_box :: sealed_box where
  "mp_null_box = \<lparr>vEncryptedCoeff = [], vEncryptedShare = [], sb_nPubKey = 0, sb_nR = 0, sb_nS = 0\<rparr>"

definition CMPParticipant :: "mp_candidate \<Rightarrow> u256 \<Rightarrow> mp_participant" where
  "CMPParticipant c key = \<lparr>candidate = c, nIndex = 2 ^ 64 - 1, nSharedKey = key, vShare = []\<rparr>"

definition part_Encrypt :: "mp_participant \<Rightarrow> u256 \<Rightarrow> u256" where
  "part_Encrypt p d = nSharedKey p XOR d"

definition part_Decrypt :: "mp_participant \<Rightarrow> u256 \<Rightarrow> u256" where
  "part_Decrypt p cipher = nSharedKey p XOR cipher"

text \<open>The place \<^verbatim>\<open>nIndexIn + i\<close> becomes 32 bits wide in the call.\<close>

fun accept_loop :: "'p ed_ops \<Rightarrow> nat \<Rightarrow> nat \<Rightarrow> u256 list \<Rightarrow> mp_participant \<Rightarrow> u256 list \<Rightarrow> bool \<times> u256 list" where
  "accept_loop E nIndexIn i [] p acc = (True, acc)"
| "accept_loop E nIndexIn i (c # cs) p acc =
     (if VerifyPolynomial E (sBox (candidate p)) (word_of_nat (nIndexIn + i)) (part_Decrypt p c)
      then accept_loop E nIndexIn (Suc i) cs p (acc @ [part_Decrypt p c])
      else (False, []))"

definition AcceptShare :: "'p ed_ops \<Rightarrow> nat \<Rightarrow> u256 list \<Rightarrow> mp_participant \<Rightarrow> bool \<times> mp_participant" where
  "AcceptShare E nIndexIn vEncrypted p =
     (if length (vShare p) = length vEncrypted then (True, p)
      else case accept_loop E nIndexIn 0 vEncrypted p [] of (ok, shares) \<Rightarrow> (ok, p\<lparr>vShare := shares\<rparr>))"

fun verify_loop :: "'p ed_ops \<Rightarrow> nat \<Rightarrow> nat \<Rightarrow> u256 list \<Rightarrow> mp_participant \<Rightarrow> bool" where
  "verify_loop E nIndexIn i [] p = True"
| "verify_loop E nIndexIn i (v # vs) p =
     (if VerifyPolynomial E (sBox (candidate p)) (word_of_nat (nIndexIn + i)) v then verify_loop E nIndexIn (Suc i) vs p else False)"

definition VerifyShare :: "'p ed_ops \<Rightarrow> nat \<Rightarrow> u256 list \<Rightarrow> mp_participant \<Rightarrow> bool" where
  "VerifyShare E nIndexIn shares p = verify_loop E nIndexIn 0 shares p"

definition PrepareVerification :: "'p ed_ops \<Rightarrow> nat \<Rightarrow> nat \<Rightarrow> mp_participant \<Rightarrow> mp_error + mp_participant" where
  "PrepareVerification E t n p =
     res_bind (PrecalcPolynomial E t n (sBox (candidate p))) (\<lambda>b. Inr (p\<lparr>candidate := (candidate p)\<lparr>sBox := b\<rparr>\<rparr>))"

definition part_IsNull :: "mp_participant \<Rightarrow> bool" where
  "part_IsNull p \<longleftrightarrow> nSharedKey p = 0"

section \<open>Setting up\<close>

definition CMPSecretShare :: "u256 \<Rightarrow> mp_secret" where
  "CMPSecretShare ident =
     \<lparr>ss_nIdent = ident, myBox = \<lparr>vCoeff = [], nPrivKey = 0\<rparr>, ss_nWeight = 0, ss_nIndex = 0, nThresh = 0,
      fCollectCompleted = False, mapParticipant = [], mapOpenedShare = []\<rparr>"

text \<open>\<^verbatim>\<open>RandShare\<close> clears the top four bits of what the generator gives.\<close>

definition RandShare :: "u256 \<Rightarrow> u256" where
  "RandShare r = r AND mask 252"

definition GetParticipantRange :: "mp_secret \<Rightarrow> u256 \<Rightarrow> (nat \<times> nat) option" where
  "GetParticipantRange s ident =
     (if ident = ss_nIdent s then Some (ss_nIndex s, ss_nWeight s)
      else case map_of (mapParticipant s) ident of
        None \<Rightarrow> None
      | Some p \<Rightarrow> Some (nIndex p, nWeight (candidate p)))"

definition reset_share :: "mp_secret \<Rightarrow> mp_secret" where
  "reset_share s = s\<lparr>ss_nIndex := 0, nThresh := 0, ss_nWeight := 0, fCollectCompleted := False, mapParticipant := [], mapOpenedShare := []\<rparr>"

text \<open>One round of the loop of \<^verbatim>\<open>Setup\<close> takes the key, the coefficients and the nonce from the generator; \<open>rs\<close> are the numbers
  of the rounds, and no number is left when all of them were refused.\<close>

fun setup_loop :: "'p ed_ops \<Rightarrow> nat \<Rightarrow> u256 \<Rightarrow> (nat \<Rightarrow> u256) list \<Rightarrow> opened_box \<Rightarrow> sealed_box \<Rightarrow> (opened_box \<times> sealed_box) option" where
  "setup_loop E n ident [] b sealed = None"
| "setup_loop E n ident (r # rs) b sealed =
     (let b' = \<lparr>vCoeff = map (\<lambda>i. RandShare (r (Suc i))) [0..<n], nPrivKey = RandShare (r 0)\<rparr>
      in case MakeSealedBox E b' sealed ident (RandShare (r (Suc n))) of
           (True, sealed') \<Rightarrow> Some (b', sealed')
         | (False, sealed') \<Rightarrow> setup_loop E n ident rs b' sealed')"

definition Setup :: "'p ed_ops \<Rightarrow> nat \<Rightarrow> (nat \<Rightarrow> u256) list \<Rightarrow> sealed_box \<Rightarrow> mp_secret \<Rightarrow> (mp_secret \<times> sealed_box) option" where
  "Setup E nMaxThresh rs sealed s =
     map_option (\<lambda>(b, sealed'). (reset_share (s\<lparr>myBox := b\<rparr>), sealed')) (setup_loop E nMaxThresh (ss_nIdent s) rs (myBox s) sealed)"

definition SetupWitness :: "mp_secret \<Rightarrow> mp_secret" where
  "SetupWitness s = reset_share (s\<lparr>myBox := (myBox s)\<lparr>vCoeff := []\<rparr>, ss_nIdent := 0\<rparr>)"

section \<open>Enrolling\<close>

text \<open>An entry of \<^verbatim>\<open>vParticipant\<close>: a null pointer, a participant made for the node itself, or a pointer into the map.\<close>

datatype slot = Null_Slot | Fresh_Slot | Map_Slot u256

fun enroll_insert :: "'p ed_ops \<Rightarrow> mp_candidate list \<Rightarrow> mp_secret \<Rightarrow> slot list \<Rightarrow> mp_secret \<times> slot list" where
  "enroll_insert E [] s slots = (s, slots)"
| "enroll_insert E (c # cs) s slots =
     (if nIdent c = ss_nIdent s then enroll_insert E cs (s\<lparr>ss_nWeight := nWeight c\<rparr>) (slots @ [Fresh_Slot])
      else if map_of (mapParticipant s) (nIdent c) = None then
        case sb_PubKey (sBox c) of
          Inl e \<Rightarrow> enroll_insert E cs s (slots @ [Null_Slot])
        | Inr pk \<Rightarrow>
            enroll_insert E cs (s\<lparr>mapParticipant := mins (nIdent c) (CMPParticipant c (ob_SharedKey E (myBox s) pk)) (mapParticipant s)\<rparr>)
              (slots @ [Map_Slot (nIdent c)])
      else enroll_insert E cs s (slots @ [Null_Slot]))"

definition slot_verify :: "'p ed_ops \<Rightarrow> (u256 \<times> mp_participant) list \<Rightarrow> slot \<Rightarrow> bool" where
  "slot_verify E m sl =
     (case sl of
        Map_Slot k \<Rightarrow> (case map_of m k of Some p \<Rightarrow> \<not> part_IsNull p \<and> cand_Verify E (candidate p) | None \<Rightarrow> False)
      | _ \<Rightarrow> False)"

text \<open>The index loop. A null shared key is taken for the node itself, and the object is deleted: for an object that lives in
  the map that is an error.\<close>

fun enroll_index :: "(mp_candidate \<times> slot \<times> bool) list \<Rightarrow> mp_secret \<Rightarrow> nat \<Rightarrow> u256 list \<Rightarrow> mp_error + (mp_secret \<times> nat \<times> u256 list)" where
  "enroll_index [] s nLastIndex kept = Inr (s, nLastIndex, kept)"
| "enroll_index ((c, sl, ok) # rest) s nLastIndex kept =
     (case sl of
        Null_Slot \<Rightarrow> enroll_index rest s nLastIndex kept
      | Fresh_Slot \<Rightarrow> enroll_index rest (s\<lparr>ss_nIndex := nLastIndex\<rparr>) (nLastIndex + nWeight c) kept
      | Map_Slot k \<Rightarrow>
          (case map_of (mapParticipant s) k of
             None \<Rightarrow> Inl Bad_Delete
           | Some p \<Rightarrow>
               if part_IsNull p then Inl Bad_Delete
               else if \<not> ok then enroll_index rest (s\<lparr>mapParticipant := mdel k (mapParticipant s)\<rparr>) nLastIndex kept
               else enroll_index rest (s\<lparr>mapParticipant := mput k (p\<lparr>nIndex := nLastIndex\<rparr>) (mapParticipant s)\<rparr>)
                      (nLastIndex + nWeight (candidate p)) (kept @ [k])))"

fun enroll_prepare :: "'p ed_ops \<Rightarrow> u256 list \<Rightarrow> nat \<Rightarrow> mp_secret \<Rightarrow> mp_error + mp_secret" where
  "enroll_prepare E [] n s = Inr s"
| "enroll_prepare E (k # ks) n s =
     (case map_of (mapParticipant s) k of
        None \<Rightarrow> Inl Bad_Delete
      | Some p \<Rightarrow> res_bind (PrepareVerification E (nThresh s) n p)
          (\<lambda>p'. enroll_prepare E ks n (s\<lparr>mapParticipant := mput k p' (mapParticipant s)\<rparr>)))"

definition Enroll :: "'p ed_ops \<Rightarrow> mp_candidate list \<Rightarrow> mp_secret \<Rightarrow> mp_error + mp_secret" where
  "Enroll E vCandidate s =
     (case enroll_insert E vCandidate s [] of
        (s1, slots) \<Rightarrow>
          res_bind (enroll_index (zip vCandidate (zip slots (map (slot_verify E (mapParticipant s1)) slots))) s1 1 [])
            (\<lambda>(s2, nLastIndex, kept). enroll_prepare E kept nLastIndex (s2\<lparr>nThresh := (nLastIndex - 1) div 2 + 1\<rparr>)))"

section \<open>Distributing and opening shares\<close>

fun poly_shares :: "opened_box \<Rightarrow> nat \<Rightarrow> nat \<Rightarrow> nat \<Rightarrow> mp_error + u256 list" where
  "poly_shares b t x 0 = Inr []"
| "poly_shares b t x (Suc n) =
     res_bind (ob_Polynomial b t (word_of_nat x)) (\<lambda>v. res_bind (poly_shares b t (Suc x) n) (\<lambda>vs. Inr (v # vs)))"

fun distribute_loop :: "mp_secret \<Rightarrow> (u256 \<times> mp_participant) list \<Rightarrow> (u256 \<times> u256 list) list \<Rightarrow> mp_error + (u256 \<times> u256 list) list" where
  "distribute_loop s [] m = Inr m"
| "distribute_loop s ((k, p) # ps) m =
     res_bind (poly_shares (myBox s) (nThresh s) (nIndex p) (nWeight (candidate p)))
       (\<lambda>vs. distribute_loop s ps (mput k (map (part_Encrypt p) vs) m))"

definition Distribute :: "mp_secret \<Rightarrow> (u256 \<times> u256 list) list \<Rightarrow> mp_error + (u256 \<times> u256 list) list" where
  "Distribute s mapShare = distribute_loop s (mapParticipant s) mapShare"

definition Accept :: "'p ed_ops \<Rightarrow> u256 \<Rightarrow> u256 list \<Rightarrow> mp_secret \<Rightarrow> bool \<times> mp_secret" where
  "Accept E nIdentFrom vEncrypted s =
     (if length vEncrypted = ss_nWeight s then
        case map_of (mapParticipant s) nIdentFrom of
          Some p \<Rightarrow> (case AcceptShare E (ss_nIndex s) vEncrypted p of
                        (ok, p') \<Rightarrow> (ok, s\<lparr>mapParticipant := mput nIdentFrom p' (mapParticipant s)\<rparr>))
        | None \<Rightarrow> (False, s)
      else (False, s))"

text \<open>\<^verbatim>\<open>Publish\<close> appends its own shares to whatever the map holds under its own name.\<close>

fun publish_loop :: "(u256 \<times> mp_participant) list \<Rightarrow> (u256 \<times> u256 list) list \<Rightarrow> (u256 \<times> u256 list) list" where
  "publish_loop [] m = m"
| "publish_loop ((k, p) # ps) m = publish_loop ps (if vShare p \<noteq> [] then mins k (vShare p) m else m)"

definition Publish :: "mp_secret \<Rightarrow> mp_error + (u256 \<times> u256 list) list" where
  "Publish s =
     (let m = publish_loop (mapParticipant s) [];
          mine = (case map_of m (ss_nIdent s) of Some vs \<Rightarrow> vs | None \<Rightarrow> [])
      in res_bind (poly_shares (myBox s) (nThresh s) (ss_nIndex s) (ss_nWeight s)) (\<lambda>vs. Inr (mput (ss_nIdent s) (mine @ vs) m)))"

fun own_check :: "opened_box \<Rightarrow> nat \<Rightarrow> nat \<Rightarrow> u256 list \<Rightarrow> mp_error + bool" where
  "own_check b t x [] = Inr True"
| "own_check b t x (v # vs) = res_bind (ob_Polynomial b t (word_of_nat x)) (\<lambda>u. if u \<noteq> v then Inr False else own_check b t (Suc x) vs)"

fun collect_check :: "mp_secret \<Rightarrow> nat \<Rightarrow> nat \<Rightarrow> (u256 \<times> u256 list) list \<Rightarrow> (u256 \<times> u256 list) list \<Rightarrow> mp_error + (u256 \<times> u256 list) list option" where
  "collect_check s nIndexFrom nWeightFrom [] todo = Inr (Some todo)"
| "collect_check s nIndexFrom nWeightFrom ((k, vs) # rest) todo =
     (if nWeightFrom \<noteq> length vs then Inr None
      else if k = ss_nIdent s then
        res_bind (own_check (myBox s) (nThresh s) nIndexFrom vs)
          (\<lambda>ok. if \<not> ok then Inr None else collect_check s nIndexFrom nWeightFrom rest todo)
      else if map_of (mapParticipant s) k = None then Inr None
      else collect_check s nIndexFrom nWeightFrom rest (todo @ [(k, vs)]))"

fun collect_add :: "bool \<Rightarrow> nat \<Rightarrow> nat \<Rightarrow> u256 list \<Rightarrow> mp_share list \<Rightarrow> mp_share list" where
  "collect_add rep t x [] opened = opened"
| "collect_add rep t x (v # vs) opened =
     (if length opened < t then
        collect_add rep t (Suc x) vs
          (if \<not> rep \<or> (word_of_nat x, v) \<notin> set opened then opened @ [(word_of_nat x, v)] else opened)
      else opened)"

definition collect_open :: "bool \<Rightarrow> nat \<Rightarrow> (u256 \<times> u256 list) \<Rightarrow> mp_secret \<Rightarrow> mp_secret" where
  "collect_open rep x kv s =
     (case kv of (k, vs) \<Rightarrow>
        s\<lparr>mapOpenedShare := mput k (collect_add rep (nThresh s) x vs (case map_of (mapOpenedShare s) k of Some os \<Rightarrow> os | None \<Rightarrow> [])) (mapOpenedShare s)\<rparr>)"

definition Collect :: "'p ed_ops \<Rightarrow> u256 \<Rightarrow> (u256 \<times> u256 list) list \<Rightarrow> bool \<Rightarrow> mp_secret \<Rightarrow> mp_error + (bool \<times> mp_secret)" where
  "Collect E nIdentFrom mapShare fCheckRepeated s =
     (case GetParticipantRange s nIdentFrom of
        None \<Rightarrow> Inr (False, s)
      | Some (nIndexFrom, nWeightFrom) \<Rightarrow>
          res_bind (collect_check s nIndexFrom nWeightFrom mapShare [])
            (\<lambda>r. case r of
               None \<Rightarrow> Inr (False, s)
             | Some todo \<Rightarrow>
                 if list_all (\<lambda>(k, vs). case map_of (mapParticipant s) k of Some p \<Rightarrow> VerifyShare E nIndexFrom vs p | None \<Rightarrow> False) todo
                 then Inr (True, fold (collect_open fCheckRepeated nIndexFrom) mapShare s)
                 else Inr (False, s)))"

text \<open>\<^verbatim>\<open>Reconstruct\<close>: a dealer with exactly the threshold of shares whose range is known; the interpolation may read outside its
  table.\<close>

fun reconstruct_loop :: "mp_secret \<Rightarrow> (u256 \<times> mp_share list) list \<Rightarrow> (u256 \<times> (u256 \<times> nat)) list \<Rightarrow> mp_error + (u256 \<times> (u256 \<times> nat)) list" where
  "reconstruct_loop s [] m = Inr m"
| "reconstruct_loop s ((k, shares) # rest) m =
     (if length shares = nThresh s then
        case GetParticipantRange s k of
          Some (x, w) \<Rightarrow>
            (case MPNewton shares of
               None \<Rightarrow> Inl Out_Of_Range
             | Some secret \<Rightarrow> reconstruct_loop s rest (if w > 0 then mput k (secret, w) m else m))
        | None \<Rightarrow> reconstruct_loop s rest m
      else reconstruct_loop s rest m)"

definition Reconstruct :: "mp_secret \<Rightarrow> (u256 \<times> (u256 \<times> nat)) list \<Rightarrow> mp_error + (u256 \<times> (u256 \<times> nat)) list" where
  "Reconstruct s mapSecret = reconstruct_loop s (mapOpenedShare s) mapSecret"

definition ss_Signature :: "'p ed_ops \<Rightarrow> u256 \<Rightarrow> u256 \<Rightarrow> mp_secret \<Rightarrow> u256 \<times> u256" where
  "ss_Signature E r hash s = ob_Signature E (myBox s) hash (RandShare r)"

definition ss_VerifySignature :: "'p ed_ops \<Rightarrow> u256 \<Rightarrow> u256 \<Rightarrow> u256 \<Rightarrow> u256 \<Rightarrow> mp_secret \<Rightarrow> bool" where
  "ss_VerifySignature E nIdentFrom hash nR nS s =
     (if nIdentFrom = ss_nIdent s then ob_VerifySignature E (myBox s) hash nR nS
      else case map_of (mapParticipant s) nIdentFrom of
        None \<Rightarrow> False
      | Some p \<Rightarrow> sb_VerifySignature E (sBox (candidate p)) hash nR nS)"

definition IsCollectCompleted :: "mp_secret \<Rightarrow> bool \<times> mp_secret" where
  "IsCollectCompleted s =
     (let nDistributed = (if ss_nWeight s > 0 then 1 else 0) + length (filter (\<lambda>(k, p). length (vShare p) > 0) (mapParticipant s));
          nCollected = length (filter (\<lambda>(k, os). length os = nThresh s) (mapOpenedShare s));
          c = (if mapOpenedShare s = [] then False
               else if nDistributed = 0 then nCollected = length (mapOpenedShare s)
               else nCollected \<ge> nDistributed)
      in (c, s\<lparr>fCollectCompleted := c\<rparr>))"

end
