(* ===== verification/MPEnroll.thy ===== *)
theory MPEnroll
  imports MPSecretShare
begin

text \<open>
  What \<^verbatim>\<open>CMPSecretShare::Enroll\<close> leaves: a reference assignment of places to candidates, the closed forms of the loops of
  \<^verbatim>\<open>Enroll\<close>, and \<open>node_ok\<close>, the state of a node whose candidates all committed to a polynomial.
\<close>

unbundle bit_operations_syntax

section \<open>What enrolling does\<close>

text \<open>The reference: the candidates that count get consecutive places from \<open>n\<close> on.\<close>

fun assign :: "(mp_candidate \<Rightarrow> bool) \<Rightarrow> nat \<Rightarrow> mp_candidate list \<Rightarrow> (mp_candidate \<times> nat) list" where
  "assign V n [] = []"
| "assign V n (c # cs) = (if V c then (c, n) # assign V (n + nWeight c) cs else assign V n cs)"

definition weight_of :: "(mp_candidate \<Rightarrow> bool) \<Rightarrow> mp_candidate list \<Rightarrow> nat" where
  "weight_of V cs = sum_list (map nWeight (filter V cs))"

lemma assign_sub: "(c, x) \<in> set (assign V n cs) \<Longrightarrow> c \<in> set cs \<and> V c \<and> n \<le> x \<and> x + nWeight c \<le> n + weight_of V cs"
  by (induction V n cs rule: assign.induct) (auto simp: weight_of_def split: if_splits)

lemma assign_all: "c \<in> set cs \<Longrightarrow> V c \<Longrightarrow> \<exists>x. (c, x) \<in> set (assign V n cs)"
  by (induction V n cs rule: assign.induct) auto

lemma assign_disjoint:
  "distinct (map nIdent cs) \<Longrightarrow> (c, x) \<in> set (assign V n cs) \<Longrightarrow> (d, y) \<in> set (assign V n cs) \<Longrightarrow> nIdent c \<noteq> nIdent d \<Longrightarrow>
   x + nWeight c \<le> y \<or> y + nWeight d \<le> x"
proof (induction V n cs rule: assign.induct)
  case (2 V n a cs)
  show ?case
  proof (cases "V a")
    case True
    then consider "c = a" "x = n" "d = a" | "c = a" "x = n" "(d, y) \<in> set (assign V (n + nWeight a) cs)"
      | "d = a" "y = n" "(c, x) \<in> set (assign V (n + nWeight a) cs)"
      | "(c, x) \<in> set (assign V (n + nWeight a) cs)" "(d, y) \<in> set (assign V (n + nWeight a) cs)" using "2.prems"(2,3) by auto
    then show ?thesis
    proof cases
      case 4
      then show ?thesis using "2.IH"(1)[OF True] "2.prems"(1,4) by simp
    qed (use "2.prems"(4) assign_sub in fastforce)+
  next
    case False
    then show ?thesis using "2.IH"(2)[OF False] "2.prems" by simp
  qed
qed simp

definition slot_of :: "u256 \<Rightarrow> mp_candidate \<Rightarrow> slot" where
  "slot_of me c = (if nIdent c = me then Fresh_Slot else if sb_IsNull (sBox c) then Null_Slot else Map_Slot (nIdent c))"

text \<open>The map and the weight the first loop leaves.\<close>

definition new_part :: "'p ed_ops \<Rightarrow> opened_box \<Rightarrow> mp_candidate \<Rightarrow> mp_participant" where
  "new_part E b c = CMPParticipant c (ob_SharedKey E b (sb_nPubKey (sBox c)))"

definition in_map :: "u256 \<Rightarrow> mp_candidate \<Rightarrow> bool" where
  "in_map me c \<longleftrightarrow> nIdent c \<noteq> me \<and> \<not> sb_IsNull (sBox c)"

fun enrolled_map :: "'p ed_ops \<Rightarrow> u256 \<Rightarrow> opened_box \<Rightarrow> mp_candidate list \<Rightarrow> (u256 \<times> mp_participant) list \<Rightarrow> (u256 \<times> mp_participant) list" where
  "enrolled_map E me b [] m = m"
| "enrolled_map E me b (c # cs) m = enrolled_map E me b cs (if in_map me c then mins (nIdent c) (new_part E b c) m else m)"

fun own_weight :: "u256 \<Rightarrow> mp_candidate list \<Rightarrow> nat \<Rightarrow> nat" where
  "own_weight me [] w = w"
| "own_weight me (c # cs) w = own_weight me cs (if nIdent c = me then nWeight c else w)"

lemma enroll_insert_eq:
  "distinct (map nIdent cs) \<Longrightarrow> \<forall>c \<in> set cs. map_of (mapParticipant s) (nIdent c) = None \<Longrightarrow>
   enroll_insert E cs s slots = (s\<lparr>mapParticipant := enrolled_map E (ss_nIdent s) (myBox s) cs (mapParticipant s),
     ss_nWeight := own_weight (ss_nIdent s) cs (ss_nWeight s)\<rparr>, slots @ map (slot_of (ss_nIdent s)) cs)"
proof (induction cs arbitrary: s slots)
  case (Cons c cs)
  have n: "map_of (mapParticipant s) (nIdent c) = None" using Cons.prems(2) by simp
  consider "nIdent c = ss_nIdent s" | "nIdent c \<noteq> ss_nIdent s" "sb_IsNull (sBox c)" | "in_map (ss_nIdent s) c" by (auto simp: in_map_def)
  then show ?case
  proof cases
    case 1
    then show ?thesis using Cons.IH[of "s\<lparr>ss_nWeight := nWeight c\<rparr>" "slots @ [Fresh_Slot]"] Cons.prems by (simp add: in_map_def slot_of_def)
  next
    case 2
    then show ?thesis using Cons.IH[of s "slots @ [Null_Slot]"] Cons.prems by (simp add: in_map_def slot_of_def sb_PubKey_def)
  next
    case 3
    let ?m = "mins (nIdent c) (new_part E (myBox s) c) (mapParticipant s)"
    have "\<forall>d \<in> set cs. map_of ?m (nIdent d) = None" using Cons.prems by (auto simp: image_iff)
    then show ?thesis using Cons.IH[of "s\<lparr>mapParticipant := ?m\<rparr>" "slots @ [Map_Slot (nIdent c)]"] Cons.prems 3
      by (simp add: in_map_def slot_of_def sb_PubKey_def new_part_def)
  qed
qed simp

lemma enrolled_map_other: "\<forall>c \<in> set cs. in_map me c \<longrightarrow> nIdent c \<noteq> k \<Longrightarrow> map_of (enrolled_map E me b cs m) k = map_of m k"
  by (induction cs arbitrary: m) auto

lemma enrolled_map_new:
  "distinct (map nIdent cs) \<Longrightarrow> \<forall>c \<in> set cs. map_of m (nIdent c) = None \<Longrightarrow> c \<in> set cs \<Longrightarrow> in_map me c \<Longrightarrow>
   map_of (enrolled_map E me b cs m) (nIdent c) = Some (new_part E b c)"
proof (induction cs arbitrary: m)
  case (Cons a cs)
  show ?case
  proof (cases "c = a")
    case True
    have "\<forall>d \<in> set cs. in_map me d \<longrightarrow> nIdent d \<noteq> nIdent c" using Cons.prems(1) True by (auto simp: image_iff)
    from enrolled_map_other[OF this, of E b "mins (nIdent a) (new_part E b a) m"] show ?thesis using Cons.prems True by simp
  next
    case False
    have "\<forall>d \<in> set cs. map_of (if in_map me a then mins (nIdent a) (new_part E b a) m else m) (nIdent d) = None"
      using Cons.prems by (auto simp: image_iff)
    from Cons.IH[OF _ this] show ?thesis using Cons.prems False by simp
  qed
qed simp

lemma own_weight_in: "distinct (map nIdent cs) \<Longrightarrow> c \<in> set cs \<Longrightarrow> nIdent c = me \<Longrightarrow> own_weight me cs w = nWeight c"
proof (induction cs arbitrary: w)
  case (Cons a cs)
  have o: "me \<notin> nIdent ` set cs \<Longrightarrow> own_weight me cs w = w" for w by (induction cs arbitrary: w) auto
  show ?case using Cons o by (cases "c = a") force+
qed simp

text \<open>The candidates that count for a node: itself, and those whose box verifies.\<close>

definition counts :: "'p ed_ops \<Rightarrow> u256 \<Rightarrow> mp_candidate \<Rightarrow> bool" where
  "counts E me c \<longleftrightarrow> nIdent c = me \<or> cand_Verify E c"

fun index_map :: "(mp_candidate \<Rightarrow> bool) \<Rightarrow> (mp_candidate \<Rightarrow> mp_participant) \<Rightarrow> u256 \<Rightarrow> nat \<Rightarrow> mp_candidate list \<Rightarrow>
    (u256 \<times> mp_participant) list \<Rightarrow> (u256 \<times> mp_participant) list" where
  "index_map V P me n [] m = m"
| "index_map V P me n (c # cs) m =
     (if V c then index_map V P me (n + nWeight c) cs (if nIdent c = me then m else mput (nIdent c) ((P c)\<lparr>nIndex := n\<rparr>) m)
      else index_map V P me n cs (if in_map me c then mdel (nIdent c) m else m))"

fun own_index :: "(mp_candidate \<Rightarrow> bool) \<Rightarrow> u256 \<Rightarrow> nat \<Rightarrow> mp_candidate list \<Rightarrow> nat \<Rightarrow> nat" where
  "own_index V me n [] i = i"
| "own_index V me n (c # cs) i = own_index V me (if V c then n + nWeight c else n) cs (if nIdent c = me then n else i)"

lemma enroll_index_eq:
  assumes V: "V = counts E me"
  shows "distinct (map nIdent cs) \<Longrightarrow> ss_nIdent s = me \<Longrightarrow>
    \<forall>c \<in> set cs. in_map me c \<longrightarrow> map_of (mapParticipant s) (nIdent c) = Some (P c) \<and> \<not> part_IsNull (P c) \<and> candidate (P c) = c \<and> ok c = V c \<Longrightarrow>
    enroll_index (map (\<lambda>c. (c, slot_of me c, ok c)) cs) s n kept =
      Inr (s\<lparr>mapParticipant := index_map V P me n cs (mapParticipant s), ss_nIndex := own_index V me n cs (ss_nIndex s)\<rparr>,
        n + weight_of V cs, kept @ map nIdent (filter (\<lambda>c. in_map me c \<and> V c) cs))"
proof (induction cs arbitrary: s n kept)
  case (Cons c cs)
  have d: "nIdent d \<noteq> nIdent c" if "d \<in> set cs" for d using Cons.prems(1) that by (auto simp: image_iff)
  consider "nIdent c = me" | "nIdent c \<noteq> me" "sb_IsNull (sBox c)" | "in_map me c" "V c" | "in_map me c" "\<not> V c" by (auto simp: in_map_def)
  then show ?case
  proof cases
    case 1
    then show ?thesis using Cons.IH[of "s\<lparr>ss_nIndex := n\<rparr>" "n + nWeight c" kept] Cons.prems
      by (simp add: V counts_def in_map_def slot_of_def weight_of_def)
  next
    case 2
    then have "\<not> V c" by (simp add: V counts_def cand_Verify_def sb_VerifyIdent_def)
    then show ?thesis using Cons.IH[of s n kept] Cons.prems 2 by (simp add: in_map_def slot_of_def weight_of_def)
  next
    case 3
    let ?m = "mput (nIdent c) ((P c)\<lparr>nIndex := n\<rparr>) (mapParticipant s)"
    show ?thesis using Cons.IH[of "s\<lparr>mapParticipant := ?m\<rparr>" "n + nWeight c" "kept @ [nIdent c]"] Cons.prems 3 d
      by (simp add: in_map_def slot_of_def weight_of_def)
  next
    case 4
    then show ?thesis using Cons.IH[of "s\<lparr>mapParticipant := mdel (nIdent c) (mapParticipant s)\<rparr>" n kept] Cons.prems d
      by (simp add: in_map_def slot_of_def weight_of_def)
  qed
qed (simp add: weight_of_def)

lemma index_map_other: "k \<notin> nIdent ` set cs \<Longrightarrow> map_of (index_map V P me n cs m) k = map_of m k"
  by (induction V P me n cs m rule: index_map.induct) auto

lemma index_map_assigned:
  "distinct (map nIdent cs) \<Longrightarrow> (c, x) \<in> set (assign V n cs) \<Longrightarrow> nIdent c \<noteq> me \<Longrightarrow>
   map_of (index_map V P me n cs m) (nIdent c) = Some ((P c)\<lparr>nIndex := x\<rparr>)"
proof (induction V P me n cs m rule: index_map.induct)
  case (2 V P me n a cs m)
  show ?case
  proof (cases "V a \<and> c = a \<and> x = n")
    case True
    then show ?thesis using "2.prems" by (simp add: index_map_other)
  next
    case False
    then show ?thesis using "2.prems" "2.IH" by (auto split: if_splits)
  qed
qed simp

lemma index_map_refused:
  "distinct (map nIdent cs) \<Longrightarrow> c \<in> set cs \<Longrightarrow> \<not> V c \<Longrightarrow> in_map me c \<Longrightarrow> map_of (index_map V P me n cs m) (nIdent c) = None"
proof (induction V P me n cs m rule: index_map.induct)
  case (2 V P me n a cs m)
  show ?case
  proof (cases "c = a")
    case True
    then show ?thesis using "2.prems" by (simp add: index_map_other)
  next
    case False
    then show ?thesis using "2.prems" "2.IH" by (auto split: if_splits)
  qed
qed simp

lemma own_index_assigned: "distinct (map nIdent cs) \<Longrightarrow> (c, x) \<in> set (assign V n cs) \<Longrightarrow> nIdent c = me \<Longrightarrow> own_index V me n cs i = x"
proof (induction V me n cs i rule: own_index.induct)
  case (2 V me n a cs i)
  have o: "me \<notin> nIdent ` set cs \<Longrightarrow> own_index V me m cs j = j" for m j by (induction cs arbitrary: m j) auto
  show ?case
  proof (cases "V a \<and> c = a \<and> x = n")
    case True
    then show ?thesis using "2.prems" o by simp
  next
    case False
    then show ?thesis using "2.prems" "2.IH" by (auto split: if_splits)
  qed
qed simp

lemma enroll_prepare_ok:
  "distinct ks \<Longrightarrow> \<forall>k \<in> set ks. \<exists>p. map_of (mapParticipant s) k = Some p \<and> PrepareVerification E (nThresh s) n p = Inr (Q k) \<Longrightarrow>
   \<exists>m. enroll_prepare E ks n s = Inr (s\<lparr>mapParticipant := m\<rparr>) \<and> (msorted (mapParticipant s) \<longrightarrow> msorted m) \<and> (\<forall>k. map_of m k = (if k \<in> set ks then Some (Q k) else map_of (mapParticipant s) k))"
proof (induction ks arbitrary: s)
  case (Cons k ks)
  obtain p where p: "map_of (mapParticipant s) k = Some p" "PrepareVerification E (nThresh s) n p = Inr (Q k)" using Cons.prems(2) by auto
  let ?s = "s\<lparr>mapParticipant := mput k (Q k) (mapParticipant s)\<rparr>"
  have "\<forall>j \<in> set ks. \<exists>p. map_of (mapParticipant ?s) j = Some p \<and> PrepareVerification E (nThresh ?s) n p = Inr (Q j)"
    using Cons.prems by auto
  then obtain m where m: "enroll_prepare E ks n ?s = Inr (?s\<lparr>mapParticipant := m\<rparr>)" "msorted (mapParticipant ?s) \<longrightarrow> msorted m"
    "\<forall>j. map_of m j = (if j \<in> set ks then Some (Q j) else map_of (mapParticipant ?s) j)" using Cons.IH[of ?s] Cons.prems(1) by auto
  then show ?case using p by (intro exI[of _ m]) auto
next
  case Nil
  show ?case by (rule exI[of _ "mapParticipant s"]) simp
qed

definition last_index :: "'p ed_ops \<Rightarrow> u256 \<Rightarrow> mp_candidate list \<Rightarrow> nat" where
  "last_index E me cs = 1 + weight_of (counts E me) cs"

definition threshold :: "'p ed_ops \<Rightarrow> u256 \<Rightarrow> mp_candidate list \<Rightarrow> nat" where
  "threshold E me cs = (last_index E me cs - 1) div 2 + 1"

lemma zip_slots: "zip cs (zip (map f cs) (map g (map f cs))) = map (\<lambda>c. (c, f c, g (f c))) cs"
  by (induction cs) auto

lemma index_map_untouched:
  "\<forall>c \<in> set cs. nIdent c = k \<longrightarrow> \<not> in_map me c \<and> (V c \<longrightarrow> k = me) \<Longrightarrow> map_of (index_map V P me n cs m) k = map_of m k"
proof (induction cs arbitrary: n m)
  case (Cons c cs)
  have IH: "map_of (index_map V P me n cs m) k = map_of m k" for n m using Cons.IH Cons.prems by simp
  show ?case using Cons.prems by (cases "nIdent c = k"; cases "V c") (use IH in auto)
qed simp

lemma index_map_sorted: "msorted m \<Longrightarrow> msorted (index_map V P me n cs m)"
  by (induction V P me n cs m rule: index_map.induct) auto

lemma enrolled_map_sorted: "msorted m \<Longrightarrow> msorted (enrolled_map E me b cs m)"
  by (induction cs arbitrary: m) auto

text \<open>The run of \<^verbatim>\<open>Enroll\<close> from an empty participant map.\<close>

lemma Enroll_run:
  assumes d: "distinct (map nIdent cs)" and empty: "mapParticipant s = []" and me: "me = ss_nIdent s" and V: "V = counts E me"
    and P: "P = new_part E (myBox s)"
    and keys: "\<forall>c \<in> set cs. in_map me c \<longrightarrow> \<not> part_IsNull (P c)"
    and pre: "\<forall>(c, x) \<in> set (assign V 1 cs). nIdent c \<noteq> me \<longrightarrow>
      PrepareVerification E (threshold E me cs) (last_index E me cs) ((P c)\<lparr>nIndex := x\<rparr>) = Inr (Q (nIdent c))"
  shows "\<exists>m. Enroll E cs s = Inr (s\<lparr>mapParticipant := m, ss_nWeight := own_weight me cs (ss_nWeight s),
      ss_nIndex := own_index V me 1 cs (ss_nIndex s), nThresh := threshold E me cs\<rparr>) \<and> msorted m \<and>
    (\<forall>k. map_of m k = (if \<exists>c x. (c, x) \<in> set (assign V 1 cs) \<and> nIdent c = k \<and> k \<noteq> me then Some (Q k) else None))"
proof -
  define m1 where "m1 = enrolled_map E me (myBox s) cs []"
  define s1 where "s1 = s\<lparr>mapParticipant := m1, ss_nWeight := own_weight me cs (ss_nWeight s)\<rparr>"
  have 1: "enroll_insert E cs s [] = (s1, map (slot_of me) cs)"
    using enroll_insert_eq[OF d, of s E "[]"] empty by (simp add: s1_def m1_def me)
  have in1: "map_of m1 (nIdent c) = Some (P c)" "candidate (P c) = c" if "c \<in> set cs" "in_map me c" for c
    using enrolled_map_new[OF d, of "[]" c me E "myBox s"] that by (simp_all add: m1_def P new_part_def CMPParticipant_def)
  let ?ok = "\<lambda>c. slot_verify E m1 (slot_of me c)"
  have ok: "?ok c = V c" if "c \<in> set cs" "in_map me c" for c
    using in1[OF that] keys that by (auto simp: slot_verify_def slot_of_def in_map_def V counts_def)
  have s1: "mapParticipant s1 = m1" "ss_nIdent s1 = me" by (simp_all add: s1_def me)
  define m2 ks where "m2 = index_map V P me 1 cs m1" and "ks = map nIdent (filter (\<lambda>c. in_map me c \<and> V c) cs)"
  define s2 where "s2 = s1\<lparr>mapParticipant := m2, ss_nIndex := own_index V me 1 cs (ss_nIndex s)\<rparr>"
  have 2: "enroll_index (map (\<lambda>c. (c, slot_of me c, ?ok c)) cs) s1 1 [] = Inr (s2, last_index E me cs, ks)"
    using enroll_index_eq[OF V d s1(2), of P ?ok 1 "[]"] in1 ok keys by (simp add: s1 s2_def m2_def ks_def last_index_def V) (simp add: s1_def)
  have dk: "distinct ks" using d unfolding ks_def by (simp add: distinct_map inj_on_def)
  let ?s = "s2\<lparr>nThresh := threshold E me cs\<rparr>"
  have ks: "k \<in> set ks \<longleftrightarrow> (\<exists>c x. (c, x) \<in> set (assign V 1 cs) \<and> nIdent c = k \<and> k \<noteq> me)" for k
  proof -
    have "in_map me c \<and> V c \<longleftrightarrow> V c \<and> nIdent c \<noteq> me" for c by (auto simp: in_map_def V counts_def cand_Verify_def sb_VerifyIdent_def)
    then have "k \<in> set ks \<longleftrightarrow> (\<exists>c \<in> set cs. V c \<and> nIdent c = k \<and> k \<noteq> me)" by (auto simp: ks_def)
    then show ?thesis using assign_all[of _ cs V 1] assign_sub[of _ _ V 1 cs] by blast
  qed
  have "\<forall>k \<in> set ks. \<exists>p. map_of (mapParticipant ?s) k = Some p \<and> PrepareVerification E (nThresh ?s) (last_index E me cs) p = Inr (Q k)"
  proof
    fix k assume "k \<in> set ks"
    then obtain c x where "(c, x) \<in> set (assign V 1 cs)" "nIdent c = k" "k \<noteq> me" unfolding ks by blast
    then show "\<exists>p. map_of (mapParticipant ?s) k = Some p \<and> PrepareVerification E (nThresh ?s) (last_index E me cs) p = Inr (Q k)"
      using pre index_map_assigned[OF d, of c x V 1 me P m1] by (auto simp: s2_def m2_def)
  qed
  then obtain m where m: "enroll_prepare E ks (last_index E me cs) ?s = Inr (?s\<lparr>mapParticipant := m\<rparr>)" "msorted (mapParticipant ?s) \<longrightarrow> msorted m"
    "\<forall>k. map_of m k = (if k \<in> set ks then Some (Q k) else map_of (mapParticipant ?s) k)"
    using enroll_prepare_ok[of ks ?s, OF dk] by blast
  have sm: "mapParticipant ?s = m2" by (simp add: s2_def)
  have rest: "map_of m2 k = None" if "k \<notin> set ks" for k
  proof (cases "\<exists>c \<in> set cs. in_map me c \<and> nIdent c = k")
    case True
    then show ?thesis using index_map_refused[OF d, of _ V me P 1 m1] that by (auto simp: m2_def ks_def)
  next
    case False
    then have "\<forall>c \<in> set cs. nIdent c = k \<longrightarrow> \<not> in_map me c \<and> (V c \<longrightarrow> k = me)"
      by (auto simp: in_map_def V counts_def cand_Verify_def sb_VerifyIdent_def)
    then have "map_of m2 k = map_of m1 k" unfolding m2_def by (rule index_map_untouched)
    also have "map_of m1 k = None" using False enrolled_map_other[of cs me k E "myBox s" "[]"] by (auto simp: m1_def)
    finally show ?thesis .
  qed
  have "Enroll E cs s = Inr (?s\<lparr>mapParticipant := m\<rparr>)"
    using m(1) unfolding Enroll_def 1 prod.case s1 zip_slots 2 res_bind_Inr threshold_def by simp
  moreover have "\<forall>k. map_of m k = (if k \<in> set ks then Some (Q k) else None)" using m(3) rest by (simp add: sm)
  moreover have "msorted m"
  proof -
    have "msorted m1" unfolding m1_def by (rule enrolled_map_sorted) (simp add: smap_sorted_def)
    then have "msorted m2" unfolding m2_def by (rule index_map_sorted)
    then show ?thesis using m(2) by (simp add: sm)
  qed
  ultimately show ?thesis unfolding ks by (intro exI[of _ m]) (simp add: s2_def s1_def)
qed

lemma MPEccSharedKey_is:
  assumes "ed_laws E rep" "unat b < 2 ^ 255"
  shows "MPEccSharedKey E a (MPEccPubkey E b) = MPEccPubkey E (word_of_nat (nat (sc_mod (int (unat a) * int (unat b)))))"
    "MPEccSharedKey E a (MPEccPubkey E b) \<noteq> 0"
proof -
  note L = ed_lawsD[OF assms(1)]
  define m where "m = nat (sc_mod (int (unat a) * int (unat b)))"
  let ?u = "word_of_nat m :: u256"
  have m: "int m = sc_mod (int (unat a) * int (unat b))" "m < sc_order" using sc_order_bounds(4) by (simp_all add: m_def nat_less_iff del: of_nat_unat)
  then have "unat ?u = m" using sc_order_bounds(2) by (simp add: unat_of_nat)
  then have u: "int (unat ?u) = sc_mod (int (unat a) * int (unat b))" using m(1) by (simp only:)
  then have l: "unat ?u < 2 ^ 255" by (rule reduced_255)
  have "ed_Pack E (ed_ScalarMult E (snd (ed_Unpack E (MPEccPubkey E b))) a) = MPEccPubkey E ?u"
    using L(7)[OF L(6)[OF L(3)[OF assms(2)]] l] u by (simp add: mult.commute del: of_nat_unat)
  then have k: "MPEccSharedKey E a (MPEccPubkey E b) = MPEccPubkey E ?u" using L(2)[OF assms(2)] by (simp add: MPEccSharedKey_def)
  then show "MPEccSharedKey E a (MPEccPubkey E b) = MPEccPubkey E (word_of_nat (nat (sc_mod (int (unat a) * int (unat b)))))" unfolding m_def .
  show "MPEccSharedKey E a (MPEccPubkey E b) \<noteq> 0" using L(1)[OF l] k by simp
qed

text \<open>\<open>range_of V cs k\<close>: the first place and the weight of the candidate named \<open>k\<close> in the reference.\<close>

definition range_of :: "(mp_candidate \<Rightarrow> bool) \<Rightarrow> mp_candidate list \<Rightarrow> u256 \<Rightarrow> (nat \<times> nat) option" where
  "range_of V cs k = map_of (map (\<lambda>(c, x). (nIdent c, (x, nWeight c))) (assign V 1 cs)) k"

lemma assign_idents: "distinct (map nIdent cs) \<Longrightarrow> distinct (map (\<lambda>p. nIdent (fst p)) (assign V n cs))"
proof (induction V n cs rule: assign.induct)
  case (2 V n c cs)
  have "nIdent c \<notin> (\<lambda>p. nIdent (fst p)) ` set (assign V (n + nWeight c) cs)" using "2.prems" assign_sub[of _ _ V "n + nWeight c" cs] by fastforce
  then show ?case using 2 by simp
qed simp

lemma range_of_iff:
  assumes "distinct (map nIdent cs)"
  shows "range_of V cs k = Some (x, w) \<longleftrightarrow> (\<exists>c. (c, x) \<in> set (assign V 1 cs) \<and> nIdent c = k \<and> nWeight c = w)"
proof -
  have "distinct (map fst (map (\<lambda>(c, x). (nIdent c, (x, nWeight c))) (assign V 1 cs)))"
    using assign_idents[OF assms, of V 1] by (simp add: comp_def case_prod_beta)
  then show ?thesis unfolding range_of_def by (subst map_of_eq_Some_iff) (auto simp: image_iff, force)
qed

lemma range_of_places:
  assumes "distinct (map nIdent cs)"
  shows "range_of V cs k = Some (x, w) \<Longrightarrow> 1 \<le> x \<and> x + w \<le> 1 + weight_of V cs"
    "k \<noteq> j \<Longrightarrow> range_of V cs k = Some (x, w) \<Longrightarrow> range_of V cs j = Some (y, v) \<Longrightarrow> x + w \<le> y \<or> y + v \<le> x"
  using assign_sub[of _ _ V 1 cs] assign_disjoint[OF assms, of _ _ V 1] unfolding range_of_iff[OF assms] by (blast, metis)

text \<open>The box \<open>b\<close> can deal with the threshold \<open>t\<close>, and \<open>c\<close> is a candidate whose sealed box commits to it.\<close>

definition dealer_box :: "nat \<Rightarrow> opened_box \<Rightarrow> bool" where
  "dealer_box t b \<longleftrightarrow> \<not> ob_IsNull b \<and> unat (nPrivKey b) < 2 ^ 255 \<and> list_all (\<lambda>c. unat c < 2 ^ 255) (vCoeff b) \<and> t \<le> length (vCoeff b)"

definition commits :: "'p ed_ops \<Rightarrow> (u256 \<Rightarrow> opened_box) \<Rightarrow> mp_candidate \<Rightarrow> bool" where
  "commits E D c \<longleftrightarrow> vEncryptedCoeff (sBox c) = map (MPEccPubkey E) (vCoeff (D (nIdent c))) \<and>
     sb_nPubKey (sBox c) = MPEccPubkey E (nPrivKey (D (nIdent c)))"

text \<open>What a node has after enrolling, for the ranges \<open>R\<close>, the threshold \<open>t\<close> and the first place \<open>n\<close> that is free.\<close>

definition node_ok :: "'p ed_ops \<Rightarrow> (u256 \<Rightarrow> opened_box) \<Rightarrow> nat \<Rightarrow> nat \<Rightarrow> (u256 \<Rightarrow> (nat \<times> nat) option) \<Rightarrow> u256 \<Rightarrow> mp_secret \<Rightarrow> bool" where
  "node_ok E D t n R me s \<longleftrightarrow> ss_nIdent s = me \<and> myBox s = D me \<and> nThresh s = t \<and> msorted (mapParticipant s) \<and> (\<forall>k. GetParticipantRange s k = R k) \<and>
     (\<forall>k p. map_of (mapParticipant s) k = Some p \<longrightarrow> k \<noteq> me \<and> seals E (D k) t n (sBox (candidate p)) \<and>
        nSharedKey p = MPEccSharedKey E (nPrivKey (D me)) (MPEccPubkey E (nPrivKey (D k))))"

lemma Enroll_honest_run:
  assumes L: "ed_laws E rep" and d: "distinct (map nIdent cs)" and empty: "mapParticipant s = []"
    and me: "me = ss_nIdent s" and box: "myBox s = D me" and n: "last_index E me cs \<le> 52" and V: "V = counts E me"
    and c: "\<forall>c \<in> set cs. commits E D c \<and> dealer_box (threshold E me cs) (D (nIdent c))"
  shows "\<exists>m. Enroll E cs s = Inr (s\<lparr>mapParticipant := m, ss_nWeight := own_weight me cs (ss_nWeight s),
      ss_nIndex := own_index V me 1 cs (ss_nIndex s), nThresh := threshold E me cs\<rparr>) \<and> msorted m \<and>
    (\<forall>k. map_of m k = None \<longrightarrow> k \<noteq> me \<longrightarrow> (\<forall>c x. (c, x) \<in> set (assign V 1 cs) \<longrightarrow> nIdent c \<noteq> k)) \<and>
    (\<forall>k p. map_of m k = Some p \<longrightarrow> k \<noteq> me \<and> vShare p = [] \<and> (\<exists>c x. (c, x) \<in> set (assign V 1 cs) \<and> nIdent c = k \<and>
      nIndex p = x \<and> nWeight (candidate p) = nWeight c) \<and> seals E (D k) (threshold E me cs) (last_index E me cs) (sBox (candidate p)) \<and>
      nSharedKey p = MPEccSharedKey E (nPrivKey (D me)) (MPEccPubkey E (nPrivKey (D k))))"
proof -
  let ?P = "new_part E (myBox s)" and ?t = "threshold E me cs" and ?n = "last_index E me cs"
  have tn: "1 \<le> ?t" "?t \<le> 27" "1 \<le> ?n" "?n \<le> 52" using n by (auto simp: threshold_def last_index_def)
  have key: "nSharedKey (?P c) = MPEccSharedKey E (nPrivKey (D me)) (MPEccPubkey E (nPrivKey (D (nIdent c))))" "candidate (?P c) = c" "vShare (?P c) = []"
    if "c \<in> set cs" for c
    using c that by (simp_all add: new_part_def CMPParticipant_def ob_SharedKey_def box commits_def)
  have "\<not> part_IsNull (?P d)" if "d \<in> set cs" for d
    using key(1)[OF that] MPEccSharedKey_is(2)[OF L] c that by (simp add: part_IsNull_def dealer_box_def)
  then have 1: "\<forall>d \<in> set cs. in_map me d \<longrightarrow> \<not> part_IsNull (?P d)" by simp
  have "\<exists>b. PrecalcPolynomial E ?t ?n (sBox e) = Inr b \<and> seals E (D (nIdent e)) ?t ?n b" if "e \<in> set cs" for e
    using PrecalcPolynomial_seals[OF L, of "sBox e" "D (nIdent e)" ?t ?n] c that tn by (auto simp: commits_def dealer_box_def)
  then obtain B where B: "\<And>e. e \<in> set cs \<Longrightarrow> PrecalcPolynomial E ?t ?n (sBox e) = Inr (B e) \<and> seals E (D (nIdent e)) ?t ?n (B e)" by metis
  define Z where "Z = (\<lambda>k. case the (map_of (map (\<lambda>p. (nIdent (fst p), p)) (assign V 1 cs)) k) of
    (c, x) \<Rightarrow> (?P c)\<lparr>nIndex := x, candidate := c\<lparr>sBox := B c\<rparr>\<rparr>)"
  have Z: "Z (nIdent e) = (?P e)\<lparr>nIndex := x, candidate := e\<lparr>sBox := B e\<rparr>\<rparr>" if "(e, x) \<in> set (assign V 1 cs)" for e x
  proof -
    have "map_of (map (\<lambda>p. (nIdent (fst p), p)) (assign V 1 cs)) (nIdent e) = Some (e, x)"
      using that assign_idents[OF d, of V 1] by (intro map_of_is_SomeI) (auto simp: comp_def image_iff intro!: bexI[of _ "(e, x)"])
    then show ?thesis by (simp add: Z_def)
  qed
  have 2: "\<forall>(e, x) \<in> set (assign V 1 cs). nIdent e \<noteq> me \<longrightarrow> PrepareVerification E ?t ?n ((?P e)\<lparr>nIndex := x\<rparr>) = Inr (Z (nIdent e))"
    using assign_sub[of _ _ V 1 cs] key(2) B Z by (auto simp: PrepareVerification_def)
  obtain m where m: "Enroll E cs s = Inr (s\<lparr>mapParticipant := m, ss_nWeight := own_weight me cs (ss_nWeight s),
      ss_nIndex := own_index V me 1 cs (ss_nIndex s), nThresh := ?t\<rparr>)"
    "\<And>k. map_of m k = (if \<exists>c x. (c, x) \<in> set (assign V 1 cs) \<and> nIdent c = k \<and> k \<noteq> me then Some (Z k) else None)"
    and ms: "msorted m" using Enroll_run[OF d empty me V refl 1 2] by blast
  have "k \<noteq> me \<and> vShare p = [] \<and> (\<exists>c x. (c, x) \<in> set (assign V 1 cs) \<and> nIdent c = k \<and> nIndex p = x \<and> nWeight (candidate p) = nWeight c) \<and>
      seals E (D k) ?t ?n (sBox (candidate p)) \<and> nSharedKey p = MPEccSharedKey E (nPrivKey (D me)) (MPEccPubkey E (nPrivKey (D k)))"
    if mp: "map_of m k = Some p" for k p
  proof -
    obtain c x where cx: "(c, x) \<in> set (assign V 1 cs)" "nIdent c = k" "k \<noteq> me" "p = Z k" using mp unfolding m(2)[of k] by (auto split: if_splits)
    then have "c \<in> set cs" "p = (?P c)\<lparr>nIndex := x, candidate := c\<lparr>sBox := B c\<rparr>\<rparr>" using assign_sub[OF cx(1)] Z[OF cx(1)] by simp_all
    then show ?thesis using key B cx by auto
  qed
  moreover have "nIdent c \<noteq> k" if "map_of m k = None" "k \<noteq> me" "(c, x) \<in> set (assign V 1 cs)" for k c x using m(2)[of k] that by (auto split: if_splits)
  ultimately show ?thesis using m(1) ms by (intro exI[of _ m]) blast
qed

lemma Enroll_honest:
  assumes L: "ed_laws E rep" and d: "distinct (map nIdent cs)" and empty: "mapParticipant s = []" and me: "me = ss_nIdent s" and own: "me \<in> nIdent ` set cs"
    and box: "myBox s = D me" and n: "last_index E me cs \<le> 52"
    and c: "\<forall>c \<in> set cs. commits E D c \<and> dealer_box (threshold E me cs) (D (nIdent c))"
  shows "\<exists>s'. Enroll E cs s = Inr s' \<and> mapOpenedShare s' = mapOpenedShare s \<and> (\<forall>k p. map_of (mapParticipant s') k = Some p \<longrightarrow> vShare p = []) \<and>
    node_ok E D (threshold E me cs) (last_index E me cs) (range_of (counts E me) cs) me s'"
proof -
  define V where V: "V = counts E me"
  obtain m where m: "Enroll E cs s = Inr (s\<lparr>mapParticipant := m, ss_nWeight := own_weight me cs (ss_nWeight s),
      ss_nIndex := own_index V me 1 cs (ss_nIndex s), nThresh := threshold E me cs\<rparr>)" (is "_ = Inr ?s") and ms: "msorted m" and m2:
    "\<forall>k. map_of m k = None \<longrightarrow> k \<noteq> me \<longrightarrow> (\<forall>c x. (c, x) \<in> set (assign V 1 cs) \<longrightarrow> nIdent c \<noteq> k)"
    and m3: "\<forall>k p. map_of m k = Some p \<longrightarrow> k \<noteq> me \<and> vShare p = [] \<and> (\<exists>c x. (c, x) \<in> set (assign V 1 cs) \<and> nIdent c = k \<and>
      nIndex p = x \<and> nWeight (candidate p) = nWeight c) \<and> seals E (D k) (threshold E me cs) (last_index E me cs) (sBox (candidate p)) \<and>
      nSharedKey p = MPEccSharedKey E (nPrivKey (D me)) (MPEccPubkey E (nPrivKey (D k)))"
    using Enroll_honest_run[OF L d empty me box n V c] by (elim exE conjE) (rule that)
  have "GetParticipantRange ?s k = range_of V cs k" for k
  proof (cases "k = me")
    case True
    obtain c where c1: "c \<in> set cs" "nIdent c = me" using own by auto
    then obtain x where "(c, x) \<in> set (assign V 1 cs)" using assign_all[of c cs V 1] by (auto simp: V counts_def)
    then have "range_of V cs k = Some (own_index V me 1 cs (ss_nIndex s), own_weight me cs (ss_nWeight s))"
      using own_index_assigned[OF d] own_weight_in[OF d] True c1 unfolding range_of_iff[OF d] by metis
    then show ?thesis using True by (simp add: GetParticipantRange_def me)
  next
    case False
    show ?thesis
    proof (cases "map_of m k")
      case None
      then have "range_of V cs k = None" using m2[rule_format, OF None False] range_of_iff[OF d, of V k] by (cases "range_of V cs k") (simp, metis surj_pair)
      then show ?thesis using None False by (simp add: GetParticipantRange_def me)
    next
      case (Some p)
      then have "range_of V cs k = Some (nIndex p, nWeight (candidate p))" using m3[rule_format, OF Some] unfolding range_of_iff[OF d] by metis
      then show ?thesis using Some False by (simp add: GetParticipantRange_def me)
    qed
  qed
  then have "node_ok E D (threshold E me cs) (last_index E me cs) (range_of V cs) me ?s"
    using m3 ms box by (simp add: node_ok_def me)
  then show ?thesis using m(1) m3 by (intro exI[of _ ?s]) (simp add: V)
qed

end
