(* ===== verification/MPSharing.thy ===== *)
theory MPSharing
  imports MPEnroll
begin

text \<open>
  What the rest of \<^verbatim>\<open>CMPSecretShare\<close> does on enrolled nodes: from messages that are \<open>messages_ok\<close>, \<^verbatim>\<open>Collect\<close> keeps only values of the
  dealers' polynomials, at different places; \<^verbatim>\<open>Reconstruct\<close> finds the secrets; \<^verbatim>\<open>Distribute\<close>, \<^verbatim>\<open>Accept\<close> and \<^verbatim>\<open>Publish\<close> carry the shares from the dealer
  through the receiver to everybody. Then the properties of the whole exchange.
\<close>

unbundle bit_operations_syntax

section \<open>What collecting and reconstructing do\<close>

text \<open>The facts about a dealing the runs below rest on: boxes that can deal, ranges that fit the tables and do not meet.\<close>

definition dealing :: "'p ed_ops \<Rightarrow> ('p \<Rightarrow> int \<Rightarrow> bool) \<Rightarrow> (u256 \<Rightarrow> opened_box) \<Rightarrow> nat \<Rightarrow> nat \<Rightarrow> (u256 \<Rightarrow> (nat \<times> nat) option) \<Rightarrow> u256 \<Rightarrow> bool" where
  "dealing E rep D t n R me \<longleftrightarrow> ed_laws E rep \<and> 1 \<le> t \<and> t \<le> 27 \<and> 1 \<le> n \<and> n \<le> 52 \<and> R me \<noteq> None \<and>
     (\<forall>k. R k \<noteq> None \<longrightarrow> dealer_box t (D k)) \<and> (\<forall>k x w. R k = Some (x, w) \<longrightarrow> 1 \<le> x \<and> x + w \<le> n) \<and>
     (\<forall>k j x w y v. k \<noteq> j \<longrightarrow> R k = Some (x, w) \<longrightarrow> R j = Some (y, v) \<longrightarrow> x + w \<le> y \<or> y + v \<le> x)"

lemma dealingD:
  assumes "dealing E rep D t n R me"
  shows "ed_laws E rep" "1 \<le> t" "t \<le> 27" "1 \<le> n" "n \<le> 52" "R me \<noteq> None" "R k \<noteq> None \<Longrightarrow> dealer_box t (D k)"
    "R k = Some (x, w) \<Longrightarrow> 1 \<le> x" "R k = Some (x, w) \<Longrightarrow> x + w \<le> n"
    "k \<noteq> j \<Longrightarrow> R k = Some (x, w) \<Longrightarrow> R j = Some (y, v) \<Longrightarrow> x + w \<le> y \<or> y + v \<le> x"
  using assms unfolding dealing_def by blast+

lemma dealing_enrolled:
  assumes "ed_laws E rep" "distinct (map nIdent cs)" "me \<in> nIdent ` set cs" "last_index E me cs \<le> 52"
    "\<forall>c \<in> set cs. dealer_box (threshold E me cs) (D (nIdent c))"
  shows "dealing E rep D (threshold E me cs) (last_index E me cs) (range_of (counts E me) cs) me"
proof -
  let ?R = "range_of (counts E me) cs"
  obtain c where "c \<in> set cs" "nIdent c = me" using assms(3) by auto
  then have "?R me \<noteq> None" using assign_all[of c cs "counts E me" 1] range_of_iff[OF assms(2), of "counts E me" me] by (auto simp: counts_def)
  moreover have "dealer_box (threshold E me cs) (D k)" if r: "?R k \<noteq> None" for k
  proof -
    obtain x w where "?R k = Some (x, w)" using r by auto
    then show ?thesis using assms(5) assign_sub unfolding range_of_iff[OF assms(2)] by blast
  qed
  moreover have "1 \<le> threshold E me cs" "threshold E me cs \<le> 27" "1 \<le> last_index E me cs" using assms(4) by (auto simp: threshold_def last_index_def)
  ultimately show ?thesis using assms(1,4) range_of_places[OF assms(2)] unfolding dealing_def last_index_def by blast
qed

text \<open>The opened shares of the dealer \<open>k\<close>: values of its polynomial, at different places that belong to the senders \<open>S\<close>. With
  \<open>red\<close> the values are reduced, so that one place has one value only.\<close>

definition share_ok :: "(u256 \<Rightarrow> opened_box) \<Rightarrow> nat \<Rightarrow> bool \<Rightarrow> u256 \<Rightarrow> nat \<Rightarrow> u256 \<Rightarrow> bool" where
  "share_ok D t red k x v \<longleftrightarrow> sc_mod (int (unat v)) = sc_mod (poly_at (box_poly (D k) t) (int x)) \<and> (red \<longrightarrow> unat v < sc_order)"

definition opened_ok :: "(u256 \<Rightarrow> opened_box) \<Rightarrow> nat \<Rightarrow> bool \<Rightarrow> (u256 \<Rightarrow> (nat \<times> nat) option) \<Rightarrow> u256 set \<Rightarrow> u256 \<Rightarrow> mp_share list \<Rightarrow> bool" where
  "opened_ok D t red R S k os \<longleftrightarrow> distinct (map fst os) \<and> length os \<le> t \<and>
     (\<forall>(x, v) \<in> set os. share_ok D t red k (unat x) v \<and> (\<exists>f \<in> S. \<exists>y w. R f = Some (y, w) \<and> y \<le> unat x \<and> unat x < y + w))"

lemma share_ok_unique:
  assumes "share_ok D t True k x u" "share_ok D t True k x v"
  shows "u = v"
proof -
  have "int (unat u) mod int sc_order = int (unat v) mod int sc_order" using assms by (simp add: share_ok_def)
  moreover have "unat u < sc_order" "unat v < sc_order" using assms by (simp_all add: share_ok_def)
  ultimately have "unat u = unat v" by (simp del: of_nat_unat flip: zmod_int)
  then show ?thesis by (rule unsigned_word_eqI)
qed

text \<open>What the loop over the values of one dealer does when a place that is already open has the value it would get.\<close>

lemma collect_add_ok:
  "distinct (map fst os) \<Longrightarrow> \<forall>(p, v) \<in> set os. Q (unat p) v \<and> (\<forall>i < length vs. unat p = x + i \<longrightarrow> rep \<and> v = vs ! i) \<Longrightarrow>
   \<forall>i < length vs. Q (x + i) (vs ! i) \<Longrightarrow> x + length vs \<le> 52 \<Longrightarrow>
   distinct (map fst (collect_add rep t x vs os)) \<and> (\<forall>(p, v) \<in> set (collect_add rep t x vs os). Q (unat p) v) \<and>
   (\<forall>(p, v) \<in> set (collect_add rep t x vs os). (p, v) \<in> set os \<or> (x \<le> unat p \<and> unat p < x + length vs)) \<and>
   (length os \<le> t \<longrightarrow> length (collect_add rep t x vs os) \<le> t) \<and> set os \<subseteq> set (collect_add rep t x vs os) \<and>
   (length (collect_add rep t x vs os) < t \<longrightarrow> (\<forall>i < length vs. word_of_nat (x + i) \<in> fst ` set (collect_add rep t x vs os)))"
proof (induction rep t x vs os rule: collect_add.induct)
  case (2 rep t x v vs os)
  show ?case
  proof (cases "length os < t")
    case True
    have x: "unat (word_of_nat x :: u32) = x" using "2.prems"(4) by (simp add: unat_of_nat)
    have at: "rep \<and> u = v" if "(word_of_nat x, u) \<in> set os" for u using "2.prems"(2) that x by fastforce
    let ?os = "if \<not> rep \<or> (word_of_nat x, v) \<notin> set os then os @ [(word_of_nat x, v)] else os"
    have n: "word_of_nat x \<notin> fst ` set os" if "\<not> rep \<or> (word_of_nat x, v) \<notin> set os" using at that by fastforce
    have d: "distinct (map fst ?os)" using "2.prems"(1) n by auto
    have q: "\<forall>(p, u) \<in> set ?os. Q (unat p) u \<and> (\<forall>i < length vs. unat p = Suc x + i \<longrightarrow> rep \<and> u = vs ! i)"
    proof (intro ballI, clarify)
      fix p u assume pu: "(p, u) \<in> set ?os"
      show "Q (unat p) u \<and> (\<forall>i < length vs. unat p = Suc x + i \<longrightarrow> rep \<and> u = vs ! i)"
      proof (cases "(p, u) \<in> set os")
        case True
        then have "Q (unat p) u" "\<forall>i < length (v # vs). unat p = x + i \<longrightarrow> rep \<and> u = (v # vs) ! i" using "2.prems"(2) by auto
        then show ?thesis by (auto dest: spec[of _ "Suc _"])
      next
        case False
        then have "p = word_of_nat x" "u = v" using pu by (auto split: if_splits)
        then show ?thesis using "2.prems"(3)[rule_format, of 0] x by simp
      qed
    qed
    have "\<forall>i < length vs. Q (Suc x + i) (vs ! i)" using "2.prems"(3) by fastforce
    note IH = "2.IH"[OF True d q this] and e = collect_add.simps(2)[of rep t x v vs os, unfolded if_P[OF True]]
    let ?c = "collect_add rep t (Suc x) vs ?os"
    have c: "distinct (map fst ?c)" "\<forall>(p, v) \<in> set ?c. Q (unat p) v"
      "\<forall>(p, v) \<in> set ?c. (p, v) \<in> set ?os \<or> (Suc x \<le> unat p \<and> unat p < Suc x + length vs)" "length ?os \<le> t \<longrightarrow> length ?c \<le> t"
      "set ?os \<subseteq> set ?c" "length ?c < t \<longrightarrow> (\<forall>i < length vs. word_of_nat (Suc x + i) \<in> fst ` set ?c)"
      using IH "2.prems"(4) by (simp_all del: of_nat_add)
    have hd: "(word_of_nat x, v) \<in> set ?os" "set os \<subseteq> set ?os" "\<And>p u. (p, u) \<in> set ?os \<Longrightarrow> (p, u) \<in> set os \<or> unat p = x" "length ?os \<le> t"
      using True x by (auto split: if_splits)
    have o: "(p, u) \<in> set os \<or> (x \<le> unat p \<and> unat p < x + length (v # vs))" if "(p, u) \<in> set ?c" for p u
      using c(3) that hd(3)[of p u] by fastforce
    have "word_of_nat (x + i) \<in> fst ` set ?c" if "length ?c < t" "i < length (v # vs)" for i
    proof (cases i)
      case 0
      then show ?thesis using hd(1) c(5) by force
    next
      case (Suc j)
      then show ?thesis using c(6) that by (simp del: of_nat_add)
    qed
    moreover have "\<forall>(p, u) \<in> set ?c. (p, u) \<in> set os \<or> (x \<le> unat p \<and> unat p < x + length (v # vs))" using o by blast
    moreover have "length ?c \<le> t" "set os \<subseteq> set ?c" using c(4,5) hd(2,4) by blast+
    ultimately show ?thesis unfolding e using c(1,2) by blast
  qed (use 2 in auto)
qed auto

lemma verify_loop_nth:
  "verify_loop E x i vs p \<longleftrightarrow> (\<forall>j < length vs. VerifyPolynomial E (sBox (candidate p)) (word_of_nat (x + i + j)) (vs ! j))"
  by (induction E x i vs p rule: verify_loop.induct) (auto simp: less_Suc_eq_0_disj simp del: of_nat_add)

definition own_ok :: "opened_box \<Rightarrow> nat \<Rightarrow> nat \<Rightarrow> u256 list \<Rightarrow> bool" where
  "own_ok b t x vs \<longleftrightarrow> (\<forall>i < length vs. ob_Polynomial b t (word_of_nat (x + i)) = Inr (vs ! i))"

lemma own_check_eq:
  "\<forall>i < length vs. \<exists>u. ob_Polynomial b t (word_of_nat (x + i)) = Inr u \<Longrightarrow> own_check b t x vs = Inr (own_ok b t x vs)"
proof (induction vs arbitrary: x)
  case (Cons v vs)
  obtain u where u: "ob_Polynomial b t (word_of_nat x) = Inr u" using Cons.prems by fastforce
  have IH: "own_check b t (Suc x) vs = Inr (own_ok b t (Suc x) vs)" using Cons.IH[of "Suc x"] Cons.prems by fastforce
  show ?case using u IH by (auto simp: own_ok_def less_Suc_eq_0_disj simp del: of_nat_add)
qed (simp add: own_ok_def)

definition entry_ok :: "'p ed_ops \<Rightarrow> nat \<Rightarrow> nat \<Rightarrow> mp_secret \<Rightarrow> u256 \<times> u256 list \<Rightarrow> bool" where
  "entry_ok E x w s kv \<longleftrightarrow> length (snd kv) = w \<and>
     (if fst kv = ss_nIdent s then own_ok (myBox s) (nThresh s) x (snd kv)
      else case map_of (mapParticipant s) (fst kv) of None \<Rightarrow> False | Some p \<Rightarrow> VerifyShare E x (snd kv) p)"

lemma collect_check_eq:
  assumes "\<And>vs. length vs = w \<Longrightarrow> own_check (myBox s) (nThresh s) x vs = Inr (own_ok (myBox s) (nThresh s) x vs)"
  shows "collect_check s x w m todo = Inr (if list_all (\<lambda>(k, vs). length vs = w \<and>
    (if k = ss_nIdent s then own_ok (myBox s) (nThresh s) x vs else map_of (mapParticipant s) k \<noteq> None)) m
    then Some (todo @ filter (\<lambda>(k, vs). k \<noteq> ss_nIdent s) m) else None)"
proof (induction m arbitrary: todo)
  case (Cons kv m)
  then show ?case by (cases kv) (auto simp: assms)
qed simp

lemma Collect_eq:
  assumes "\<And>vs. length vs = w \<Longrightarrow> own_check (myBox s) (nThresh s) x vs = Inr (own_ok (myBox s) (nThresh s) x vs)"
    and "GetParticipantRange s f = Some (x, w)"
  shows "Collect E f m rep s = Inr (if list_all (entry_ok E x w s) m then (True, fold (collect_open rep x) m s) else (False, s))"
proof -
  have "list_all (entry_ok E x w s) m \<longleftrightarrow> list_all (\<lambda>(k, vs). length vs = w \<and>
      (if k = ss_nIdent s then own_ok (myBox s) (nThresh s) x vs else map_of (mapParticipant s) k \<noteq> None)) m \<and>
    list_all (\<lambda>(k, vs). case map_of (mapParticipant s) k of Some p \<Rightarrow> VerifyShare E x vs p | None \<Rightarrow> False)
      (filter (\<lambda>(k, vs). k \<noteq> ss_nIdent s) m)"
  proof (induction m)
    case (Cons kv m)
    obtain k vs where "kv = (k, vs)" by (cases kv)
    then show ?case using Cons.IH by (cases "k = ss_nIdent s"; cases "map_of (mapParticipant s) k") (auto simp: entry_ok_def)
  qed simp
  then show ?thesis using assms(2) by (simp add: Collect_def collect_check_eq[OF assms(1)])
qed

lemma node_okD:
  assumes "node_ok E D t n R me s"
  shows "ss_nIdent s = me" "myBox s = D me" "nThresh s = t" "GetParticipantRange s k = R k"
    "map_of (mapParticipant s) k = Some p \<Longrightarrow> seals E (D k) t n (sBox (candidate p))" "k \<noteq> me \<Longrightarrow> R k = None \<longleftrightarrow> map_of (mapParticipant s) k = None"
    "msorted (mapParticipant s)" "map_of (mapParticipant s) k = Some p \<Longrightarrow> k \<noteq> me"
    "map_of (mapParticipant s) k = Some p \<Longrightarrow> nSharedKey p = MPEccSharedKey E (nPrivKey (D me)) (MPEccPubkey E (nPrivKey (D k)))"
proof -
  have r: "GetParticipantRange s k = R k" for k using assms unfolding node_ok_def by blast
  show "k \<noteq> me \<Longrightarrow> R k = None \<longleftrightarrow> map_of (mapParticipant s) k = None"
    using assms unfolding r[symmetric] by (auto simp: node_ok_def GetParticipantRange_def split: option.splits)
qed (use assms in \<open>unfold node_ok_def, blast+\<close>)

lemma dealing_Polynomial:
  assumes "dealing E rep D t n R me" "R k \<noteq> None" "1 \<le> x" "x < n"
  shows "\<exists>u. ob_Polynomial (D k) t (word_of_nat x) = Inr u \<and> share_ok D t False k x u \<and> unat u < 2 ^ 255"
proof -
  note d = dealingD[OF assms(1)]
  have b: "\<not> ob_IsNull (D k)" "t \<le> length (vCoeff (D k))" using d(7)[OF assms(2)] by (simp_all add: dealer_box_def)
  have x: "unat (word_of_nat x :: u32) = x" using assms(4) d(5) by (simp add: unat_of_nat)
  obtain u where u: "ob_Polynomial (D k) t (word_of_nat x) = Inr u" "int (unat u) = sc_mod (poly_at (box_poly (D k) t) (int x))"
    using ob_Polynomial_val[OF b(1) d(2) b(2) d(3), of "word_of_nat x"] x assms(3,4) d(5) by (auto simp del: of_nat_unat)
  then show ?thesis using reduced_255[OF u(2)] by (simp add: share_ok_def del: of_nat_unat)
qed

lemma dealing_own_check:
  assumes "dealing E rep D t n R me" "node_ok E D t n R me s" "R f = Some (x, w)" "length vs = w"
  shows "own_check (myBox s) (nThresh s) x vs = Inr (own_ok (myBox s) (nThresh s) x vs)"
proof (rule own_check_eq, intro allI impI)
  note d = dealingD[OF assms(1)]
  fix i assume "i < length vs"
  then show "\<exists>u. ob_Polynomial (myBox s) (nThresh s) (word_of_nat (x + i)) = Inr u"
    using dealing_Polynomial[OF assms(1) d(6), of "x + i"] assms(4) d(8,9)[OF assms(3)] unfolding node_okD(2,3)[OF assms(2)] by auto
qed

text \<open>What an accepted entry holds, and that honest shares are accepted.\<close>

lemma entry_shares:
  assumes "dealing E rep D t n R me" "node_ok E D t n R me s" "R f = Some (x, w)" "entry_ok E x w s (k, vs)" "\<forall>v \<in> set vs. unat v < 2 ^ 255"
  shows "R k \<noteq> None" "\<forall>i < length vs. share_ok D t False k (x + i) (vs ! i)"
proof -
  note d = dealingD[OF assms(1)] and nd = node_okD[OF assms(2)]
  have len: "length vs = w" using assms(4) by (simp add: entry_ok_def)
  have own: "own_ok (D me) t x vs" if "k = me" using assms(4) that by (simp add: entry_ok_def nd(1-3))
  have other: "\<exists>p. map_of (mapParticipant s) k = Some p \<and> VerifyShare E x vs p" if "k \<noteq> me"
    using assms(4) that by (simp add: entry_ok_def nd(1) split: option.splits)
  show k: "R k \<noteq> None" using other d(6) nd(6)[of k] by (cases "k = me") auto
  have b: "dealer_box t (D k)" using d(7)[OF k] .
  show "\<forall>i < length vs. share_ok D t False k (x + i) (vs ! i)"
  proof (intro allI impI)
    fix i assume i: "i < length vs"
    have xi: "1 \<le> x + i" "x + i < n" using d(8,9)[OF assms(3)] i len by simp_all
    have xw: "unat (word_of_nat (x + i) :: u32) = x + i" using xi(2) d(5) by (simp add: unat_of_nat del: of_nat_add)
    show "share_ok D t False k (x + i) (vs ! i)"
    proof (cases "k = me")
      case True
      then have "ob_Polynomial (D k) t (word_of_nat (x + i)) = Inr (vs ! i)" using own i by (simp add: own_ok_def)
      then show ?thesis using dealing_Polynomial[OF assms(1) k xi] by auto
    next
      case False
      then obtain p where p: "map_of (mapParticipant s) k = Some p" "VerifyShare E x vs p" using other by blast
      then have v: "VerifyPolynomial E (sBox (candidate p)) (word_of_nat (x + i)) (vs ! i)" using i by (simp add: VerifyShare_def verify_loop_nth)
      have "unat (vs ! i) < 2 ^ 255" using assms(5) i by simp
      from VerifyPolynomial_value(1)[OF d(1) nd(5)[OF p(1)] _ d(2) _ d(3,5) _ this v] show ?thesis
        using b xi(1) by (simp add: share_ok_def dealer_box_def xw del: of_nat_unat of_nat_add)
    qed
  qed
qed

definition dealt_shares :: "opened_box \<Rightarrow> nat \<Rightarrow> nat \<Rightarrow> nat \<Rightarrow> u256 list \<Rightarrow> bool" where
  "dealt_shares b t x w vs \<longleftrightarrow> poly_shares b t x w = Inr vs"

lemma poly_shares_nth:
  "poly_shares b t x w = Inr vs \<longleftrightarrow> length vs = w \<and> (\<forall>i < w. ob_Polynomial b t (word_of_nat (x + i)) = Inr (vs ! i))"
proof (induction w arbitrary: x vs)
  case (Suc w)
  have "poly_shares b t x (Suc w) = Inr vs \<longleftrightarrow> (\<exists>v us. vs = v # us \<and> ob_Polynomial b t (word_of_nat x) = Inr v \<and> poly_shares b t (Suc x) w = Inr us)"
    by (auto simp: res_bind_Inr)
  also have "\<dots> \<longleftrightarrow> length vs = Suc w \<and> (\<forall>i < Suc w. ob_Polynomial b t (word_of_nat (x + i)) = Inr (vs ! i))"
    unfolding Suc.IH by (cases vs) (auto simp: less_Suc_eq_0_disj simp del: of_nat_add of_nat_Suc)
  finally show ?case .
qed auto

lemma dealt_entry_ok:
  assumes "dealing E rep D t n R me" "node_ok E D t n R me s" "R f = Some (x, w)" "R k \<noteq> None" "dealt_shares (D k) t x w vs"
  shows "entry_ok E x w s (k, vs)"
proof -
  note d = dealingD[OF assms(1)] and nd = node_okD[OF assms(2)]
  have v: "length vs = w" "\<forall>i < w. ob_Polynomial (D k) t (word_of_nat (x + i)) = Inr (vs ! i)"
    using assms(5) unfolding dealt_shares_def poly_shares_nth by auto
  have "VerifyShare E x vs p" if p: "map_of (mapParticipant s) k = Some p" for p
    unfolding VerifyShare_def verify_loop_nth
  proof (intro allI impI)
    fix i assume i: "i < length vs"
    have xi: "1 \<le> x + i" "x + i < n" using d(8,9)[OF assms(3)] i v(1) by simp_all
    have "unat (word_of_nat (x + i) :: u32) = x + i" using xi(2) d(5) by (simp add: unat_of_nat del: of_nat_add)
    then show "VerifyPolynomial E (sBox (candidate p)) (word_of_nat (x + 0 + i)) (vs ! i)"
      using nd(5)[OF p] xi v i by (simp add: VerifyPolynomial_def seals_def del: of_nat_add)
  qed
  then show ?thesis using v nd(1-3) nd(6)[of k] assms(4) by (cases "k = me") (auto simp: entry_ok_def own_ok_def split: option.splits)
qed

text \<open>The shares opened for \<open>k\<close>, and what one message adds.\<close>

definition opened :: "mp_secret \<Rightarrow> u256 \<Rightarrow> mp_share list" where
  "opened s k = (case map_of (mapOpenedShare s) k of Some os \<Rightarrow> os | None \<Rightarrow> [])"

lemma collect_open_fields:
  "opened (collect_open rep x (k, vs) s) j = (if j = k then collect_add rep (nThresh s) x vs (opened s k) else opened s j)"
  "map_of (mapOpenedShare (collect_open rep x (k, vs) s)) j \<noteq> None \<longleftrightarrow> j = k \<or> map_of (mapOpenedShare s) j \<noteq> None"
  "msorted (mapOpenedShare s) \<Longrightarrow> msorted (mapOpenedShare (collect_open rep x (k, vs) s))"
  "nThresh (collect_open rep x (k, vs) s) = nThresh s" "node_ok E D t n R me (collect_open rep x (k, vs) s) = node_ok E D t n R me s"
  by (simp_all add: opened_def collect_open_def node_ok_def GetParticipantRange_def)

lemma collect_fold_fields:
  "distinct (map fst m) \<Longrightarrow>
   opened (fold (collect_open rep x) m s) k = (case map_of m k of None \<Rightarrow> opened s k | Some vs \<Rightarrow> collect_add rep (nThresh s) x vs (opened s k)) \<and>
   (map_of (mapOpenedShare (fold (collect_open rep x) m s)) k \<noteq> None \<longleftrightarrow> map_of m k \<noteq> None \<or> map_of (mapOpenedShare s) k \<noteq> None) \<and>
   (msorted (mapOpenedShare s) \<longrightarrow> msorted (mapOpenedShare (fold (collect_open rep x) m s))) \<and>
   node_ok E D t n R me (fold (collect_open rep x) m s) = node_ok E D t n R me s"
proof (induction m arbitrary: s)
  case (Cons kv m)
  obtain j vs where kv: "kv = (j, vs)" by (cases kv)
  have j: "map_of m j = None" using Cons.prems kv by (simp add: map_of_eq_None_iff)
  show ?case using Cons.IH[of "collect_open rep x kv s"] Cons.prems j unfolding kv
    by (cases "j = k") (simp_all add: collect_open_fields del: not_None_eq split: option.split)
qed simp

text \<open>The invariant of a run that collected from the senders \<open>S\<close>.\<close>

definition collected :: "(u256 \<Rightarrow> opened_box) \<Rightarrow> nat \<Rightarrow> bool \<Rightarrow> (u256 \<Rightarrow> (nat \<times> nat) option) \<Rightarrow> u256 set \<Rightarrow> mp_secret \<Rightarrow> bool" where
  "collected D t red R S s \<longleftrightarrow> msorted (mapOpenedShare s) \<and> (\<forall>k. opened_ok D t red R S k (opened s k)) \<and>
     (\<forall>k. map_of (mapOpenedShare s) k \<noteq> None \<longrightarrow> R k \<noteq> None)"

lemma opened_ok_mono: "opened_ok D t red R S k os \<Longrightarrow> S \<subseteq> S' \<Longrightarrow> opened_ok D t red R S' k os"
  unfolding opened_ok_def by fastforce

text \<open>The places of a participant.\<close>

definition places :: "(u256 \<Rightarrow> (nat \<times> nat) option) \<Rightarrow> u256 \<Rightarrow> u32 set" where
  "places R f = (case R f of None \<Rightarrow> {} | Some (x, w) \<Rightarrow> (\<lambda>i. word_of_nat (x + i)) ` {..<w})"

lemma opened_ok_add:
  assumes "dealing E rep D t n R me" "opened_ok D t red R S k os" "f \<notin> S \<or> red \<and> r" "R f = Some (x, w)" "length vs = w"
    "\<forall>i < w. share_ok D t red k (x + i) (vs ! i)"
  shows "opened_ok D t red R (insert f S) k (collect_add r t x vs os) \<and> set os \<subseteq> set (collect_add r t x vs os) \<and>
    (length (collect_add r t x vs os) < t \<longrightarrow> places R f \<subseteq> fst ` set (collect_add r t x vs os))"
proof -
  note d = dealingD[OF assms(1)]
  have a: "distinct (map fst os)" "length os \<le> t" using assms(2) by (simp_all add: opened_ok_def)
  have b: "share_ok D t red k (unat p) v \<and> (\<forall>i < w. unat p = x + i \<longrightarrow> r \<and> v = vs ! i)" if pv: "(p, v) \<in> set os" for p v
  proof -
    obtain g y u where g: "g \<in> S" "R g = Some (y, u)" "y \<le> unat p" "unat p < y + u" "share_ok D t red k (unat p) v"
      using assms(2) pv by (auto simp: opened_ok_def)
    have "r \<and> v = vs ! i" if i: "i < w" "unat p = x + i" for i
    proof -
      have "g = f" using d(10)[OF _ g(2) assms(4)] g(3,4) i by force
      then have "red" "r" using assms(3) g(1) by auto
      then show ?thesis using share_ok_unique[of D t k "x + i" v "vs ! i"] g(5) assms(6) i by simp
    qed
    then show ?thesis using g(5) by blast
  qed
  have c: "distinct (map fst (collect_add r t x vs os)) \<and> (\<forall>(p, v) \<in> set (collect_add r t x vs os). share_ok D t red k (unat p) v) \<and>
     (\<forall>(p, v) \<in> set (collect_add r t x vs os). (p, v) \<in> set os \<or> (x \<le> unat p \<and> unat p < x + length vs)) \<and>
     (length os \<le> t \<longrightarrow> length (collect_add r t x vs os) \<le> t) \<and> set os \<subseteq> set (collect_add r t x vs os) \<and>
     (length (collect_add r t x vs os) < t \<longrightarrow> (\<forall>i < length vs. word_of_nat (x + i) \<in> fst ` set (collect_add r t x vs os)))"
    using b assms(5,6) d(5) d(9)[OF assms(4)] by (intro collect_add_ok[OF a(1)]) auto
  then have "set os \<subseteq> set (collect_add r t x vs os)" "length (collect_add r t x vs os) < t \<longrightarrow> places R f \<subseteq> fst ` set (collect_add r t x vs os)"
    using assms(4,5) by (auto simp: places_def simp del: of_nat_add)
  moreover have "opened_ok D t red R (insert f S) k (collect_add r t x vs os)"
    unfolding opened_ok_def
  proof (intro conjI ballI)
    fix pv assume pv: "pv \<in> set (collect_add r t x vs os)"
    obtain p v where pv': "pv = (p, v)" by (cases pv)
    have "\<exists>g \<in> insert f S. \<exists>y w. R g = Some (y, w) \<and> y \<le> unat p \<and> unat p < y + w"
    proof (cases "(p, v) \<in> set os")
      case True
      then show ?thesis using assms(2) by (auto simp: opened_ok_def)
    next
      case False
      then have "x \<le> unat p \<and> unat p < x + w" using c pv assms(5) unfolding pv' by blast
      then show ?thesis using assms(4) by blast
    qed
    then show "case pv of (p, v) \<Rightarrow> share_ok D t red k (unat p) v \<and> (\<exists>g \<in> insert f S. \<exists>y w. R g = Some (y, w) \<and> y \<le> unat p \<and> unat p < y + w)"
      using c pv unfolding pv' by blast
  qed (use c a(2) in auto)
  ultimately show ?thesis by blast
qed

lemma Collect_step:
  assumes "dealing E rep D t n R me" "node_ok E D t n R me s" "collected D t red R S s" "f \<notin> S \<or> red \<and> r" "distinct (map fst m)"
    "\<forall>(k, vs) \<in> set m. \<forall>v \<in> set vs. unat v < 2 ^ 255 \<and> (red \<longrightarrow> unat v < sc_order)"
  shows "\<exists>ok s'. Collect E f m r s = Inr (ok, s') \<and> node_ok E D t n R me s' \<and> collected D t red R (insert f S) s' \<and>
    (\<forall>k. set (opened s k) \<subseteq> set (opened s' k)) \<and>
    (\<forall>x w. R f = Some (x, w) \<longrightarrow> list_all (entry_ok E x w s) m \<longrightarrow> ok \<and>
       (\<forall>k \<in> fst ` set m. length (opened s' k) < t \<longrightarrow> places R f \<subseteq> fst ` set (opened s' k)))"
proof -
  note nd = node_okD[OF assms(2)] and c = assms(3)[unfolded collected_def]
  have same: "collected D t red R (insert f S) s" using assms(3) opened_ok_mono[of D t red R S _ _ "insert f S"] unfolding collected_def by blast
  show ?thesis
  proof (cases "R f")
    case None
    then show ?thesis using assms(2) same nd(4)[of f] by (intro exI[of _ False] exI[of _ s]) (simp add: Collect_def)
  next
    case (Some xw)
    obtain x w where f: "R f = Some (x, w)" using Some by (cases xw) simp
    have e: "Collect E f m r s = Inr (if list_all (entry_ok E x w s) m then (True, fold (collect_open r x) m s) else (False, s))"
      using Collect_eq[of w s x f E m r] dealing_own_check[OF assms(1,2) f] f nd(4)[of f] by simp
    show ?thesis
    proof (cases "list_all (entry_ok E x w s) m")
      case False
      then show ?thesis using assms(2) same f e by (intro exI[of _ False] exI[of _ s]) simp
    next
      case True
      let ?s = "fold (collect_open r x) m s"
      note F = collect_fold_fields[OF assms(5), where rep = r and x = x and s = s and E = E and D = D and t = t and n = n and R = R and me = me]
      have en: "R k \<noteq> None \<and> length vs = w \<and> (\<forall>i < w. share_ok D t red k (x + i) (vs ! i))" if kv: "map_of m k = Some vs" for k vs
      proof -
        have m: "(k, vs) \<in> set m" using kv by (rule map_of_SomeD)
        then have o: "entry_ok E x w s (k, vs)" "\<forall>v \<in> set vs. unat v < 2 ^ 255" "\<forall>v \<in> set vs. red \<longrightarrow> unat v < sc_order"
          using True assms(6) by (auto simp: list_all_iff)
        then have "length vs = w" by (simp add: entry_ok_def)
        then show ?thesis using entry_shares[OF assms(1,2) f o(1,2)] o(3) by (simp add: share_ok_def del: of_nat_unat)
      qed
      have op: "opened_ok D t red R (insert f S) k (opened ?s k) \<and> set (opened s k) \<subseteq> set (opened ?s k) \<and>
          (k \<in> fst ` set m \<longrightarrow> length (opened ?s k) < t \<longrightarrow> places R f \<subseteq> fst ` set (opened ?s k))" for k
      proof (cases "map_of m k")
        case None
        then have "k \<notin> fst ` set m" by (simp add: map_of_eq_None_iff)
        then show ?thesis using None F[of k] same by (auto simp: collected_def)
      next
        case (Some vs)
        have k: "opened_ok D t red R S k (opened s k)" using c by blast
        have o: "opened ?s k = collect_add r t x vs (opened s k)" using F[of k] Some nd(3) by simp
        show ?thesis unfolding o using opened_ok_add[OF assms(1) k assms(4) f, of vs] en[OF Some] by blast
      qed
      have "R k \<noteq> None" if mk: "map_of (mapOpenedShare ?s) k \<noteq> None" for k
        using mk F[of k] c en[of k] by (cases "map_of m k") auto
      then have "collected D t red R (insert f S) ?s" unfolding collected_def using op c F[of k0 for k0] by simp
      moreover have "node_ok E D t n R me ?s" using F assms(2) by simp
      ultimately show ?thesis using e True f op by (intro exI[of _ True] exI[of _ ?s]) simp
    qed
  qed
qed

text \<open>A node collects one message after the other, whether it takes it or not.\<close>

fun collect_all :: "'p ed_ops \<Rightarrow> bool \<Rightarrow> (u256 \<times> (u256 \<times> u256 list) list) list \<Rightarrow> mp_secret \<Rightarrow> mp_error + mp_secret" where
  "collect_all E r [] s = Inr s"
| "collect_all E r ((f, m) # ms) s = res_bind (Collect E f m r s) (\<lambda>(ok, s'). collect_all E r ms s')"

text \<open>The messages: \<^verbatim>\<open>std::map\<close>s of values below \<open>2^255\<close>. Either no sender has two of them, or a sender may repeat itself
  while repeated shares are looked for (\<open>r\<close>) and every value is reduced modulo the group order.\<close>

definition message_ok :: "u256 \<times> (u256 \<times> u256 list) list \<Rightarrow> bool" where
  "message_ok fm \<longleftrightarrow> distinct (map fst (snd fm)) \<and> list_all (\<lambda>(k, vs). list_all (\<lambda>v. unat v < 2 ^ 255) vs) (snd fm)"

definition message_reduced :: "u256 \<times> (u256 \<times> u256 list) list \<Rightarrow> bool" where
  "message_reduced fm \<longleftrightarrow> list_all (\<lambda>(k, vs). list_all (\<lambda>v. unat v < sc_order) vs) (snd fm)"

definition messages_ok :: "bool \<Rightarrow> (u256 \<times> (u256 \<times> u256 list) list) list \<Rightarrow> bool" where
  "messages_ok r ms \<longleftrightarrow> list_all message_ok ms \<and> (distinct (map fst ms) \<or> r \<and> list_all message_reduced ms)"

text \<open>The senders of messages that carry the shares as they were dealt, among them the one of \<open>k\<close>, and their weight.\<close>

definition honest_message :: "(u256 \<Rightarrow> opened_box) \<Rightarrow> nat \<Rightarrow> (u256 \<Rightarrow> (nat \<times> nat) option) \<Rightarrow> u256 \<times> (u256 \<times> u256 list) list \<Rightarrow> bool" where
  "honest_message D t R fm \<longleftrightarrow> (case R (fst fm) of None \<Rightarrow> False
     | Some (x, w) \<Rightarrow> list_all (\<lambda>(j, vs). R j \<noteq> None \<and> dealt_shares (D j) t x w vs) (snd fm))"

definition honest_senders :: "(u256 \<Rightarrow> opened_box) \<Rightarrow> nat \<Rightarrow> (u256 \<Rightarrow> (nat \<times> nat) option) \<Rightarrow> u256 \<Rightarrow> (u256 \<times> (u256 \<times> u256 list) list) list \<Rightarrow> u256 list" where
  "honest_senders D t R k ms = remdups (map fst (filter (\<lambda>fm. honest_message D t R fm \<and> k \<in> set (map fst (snd fm))) ms))"

definition honest_weight :: "(u256 \<Rightarrow> opened_box) \<Rightarrow> nat \<Rightarrow> (u256 \<Rightarrow> (nat \<times> nat) option) \<Rightarrow> u256 \<Rightarrow> (u256 \<times> (u256 \<times> u256 list) list) list \<Rightarrow> nat" where
  "honest_weight D t R k ms = sum_list (map (\<lambda>f. snd (the (R f))) (honest_senders D t R k ms))"

lemma honest_senders_Cons:
  "set (honest_senders D t R k (fm # ms)) =
     (if honest_message D t R fm \<and> k \<in> set (map fst (snd fm)) then {fst fm} else {}) \<union> set (honest_senders D t R k ms)"
  by (auto simp: honest_senders_def)

text \<open>The places of the honest senders are as many as their weight.\<close>

lemma honest_places:
  assumes "dealing E rep D t n R me"
  shows "card (\<Union>f \<in> set (honest_senders D t R k ms). places R f) = honest_weight D t R k ms"
proof -
  note d = dealingD[OF assms]
  let ?F = "honest_senders D t R k ms"
  have u: "y = z" if yz: "(word_of_nat y :: u32) = word_of_nat z" "y < n" "z < n" for y z
  proof -
    have "unat (word_of_nat y :: u32) = y" "unat (word_of_nat z :: u32) = z" using yz(2,3) d(5) by (simp_all add: unat_of_nat)
    then show ?thesis using yz(1) by metis
  qed
  have c: "card (places R f) = snd (the (R f))" if f: "f \<in> set ?F" for f
  proof -
    obtain x w where x: "R f = Some (x, w)" using f by (auto simp: honest_senders_def honest_message_def split: option.splits)
    have "inj_on (\<lambda>i. word_of_nat (x + i) :: u32) {..<w}"
    proof (rule inj_onI)
      fix i j assume ij: "i \<in> {..<w}" "j \<in> {..<w}" "(word_of_nat (x + i) :: u32) = word_of_nat (x + j)"
      have "x + i < n" "x + j < n" using ij(1,2) d(9)[OF x] by simp_all
      from u[OF ij(3) this] show "i = j" by simp
    qed
    then have "card ((\<lambda>i. word_of_nat (x + i) :: u32) ` {..<w}) = w" by (simp only: card_image card_lessThan)
    then show ?thesis by (simp only: places_def x option.case prod.case option.sel snd_conv)
  qed
  have "places R f \<inter> places R g = {}" if "f \<noteq> g" for f g
  proof (rule ccontr)
    assume "places R f \<inter> places R g \<noteq> {}"
    then obtain z where z: "z \<in> places R f" "z \<in> places R g" by blast
    obtain x w i where x: "R f = Some (x, w)" "i < w" "z = word_of_nat (x + i)"
      using z(1) by (auto simp: places_def split: option.splits simp del: of_nat_add)
    obtain y v j where y: "R g = Some (y, v)" "j < v" "z = word_of_nat (y + j)"
      using z(2) by (auto simp: places_def split: option.splits simp del: of_nat_add)
    have "x + i < n" "y + j < n" using x(2) y(2) d(9)[OF x(1)] d(9)[OF y(1)] by linarith+
    from u[OF trans[OF x(3)[symmetric] y(3)] this] show False using d(10)[OF that x(1) y(1)] x(2) y(2) by linarith
  qed
  moreover have "finite (places R f)" for f by (simp add: places_def split: option.split)
  ultimately have "card (\<Union>f \<in> set ?F. places R f) = (\<Sum>f \<in> set ?F. card (places R f))" by (intro card_UN_disjoint) auto
  then show ?thesis using c by (simp add: honest_weight_def sum_list_distinct_conv_sum_set honest_senders_def)
qed

text \<open>What is open after all the messages: unless there are enough shares, every place of the honest senders.\<close>

lemma collect_all_ok:
  assumes d: "dealing E rep D t n R me"
  shows "node_ok E D t n R me s \<Longrightarrow> collected D t red R S s \<Longrightarrow> red \<and> r \<or> distinct (map fst ms) \<and> S \<inter> fst ` set ms = {} \<Longrightarrow>
    list_all message_ok ms \<Longrightarrow> red \<longrightarrow> list_all message_reduced ms \<Longrightarrow>
    \<exists>s'. collect_all E r ms s = Inr s' \<and> node_ok E D t n R me s' \<and> collected D t red R (S \<union> fst ` set ms) s' \<and>
      (\<forall>k. set (opened s k) \<subseteq> set (opened s' k) \<and>
        (length (opened s' k) < t \<longrightarrow> (\<Union>f \<in> set (honest_senders D t R k ms). places R f) \<subseteq> fst ` set (opened s' k)))"
proof (induction ms arbitrary: s S)
  case (Cons fm ms)
  obtain f m where fm: "fm = (f, m)" by (cases fm)
  have msg: "distinct (map fst m)" "\<forall>(k, vs) \<in> set m. \<forall>v \<in> set vs. unat v < 2 ^ 255 \<and> (red \<longrightarrow> unat v < sc_order)"
    using Cons.prems(4,5) by (auto simp: fm message_ok_def message_reduced_def list_all_iff)
  have f: "f \<notin> S \<or> red \<and> r" using Cons.prems(3) by (auto simp: fm)
  obtain ok s1 where s1: "Collect E f m r s = Inr (ok, s1)" "node_ok E D t n R me s1" "collected D t red R (insert f S) s1"
    "\<forall>k. set (opened s k) \<subseteq> set (opened s1 k)" "\<forall>x w. R f = Some (x, w) \<longrightarrow> list_all (entry_ok E x w s) m \<longrightarrow> ok \<and>
      (\<forall>k \<in> fst ` set m. length (opened s1 k) < t \<longrightarrow> places R f \<subseteq> fst ` set (opened s1 k))"
    using Collect_step[OF d Cons.prems(1,2) f msg] by blast
  have step: "places R f \<subseteq> fst ` set (opened s1 k)" if h: "honest_message D t R fm \<and> k \<in> set (map fst (snd fm))" "length (opened s1 k) < t" for k
  proof -
    obtain x w where x: "R f = Some (x, w)" "list_all (\<lambda>(j, vs). R j \<noteq> None \<and> dealt_shares (D j) t x w vs) m"
      using h(1) by (auto simp: honest_message_def fm split: option.splits)
    then have "list_all (entry_ok E x w s) m" using dealt_entry_ok[OF d Cons.prems(1) x(1)] by (auto simp: list_all_iff)
    then show ?thesis using s1(5) x(1) h by (auto simp: fm)
  qed
  have "red \<and> r \<or> distinct (map fst ms) \<and> insert f S \<inter> fst ` set ms = {}" using Cons.prems(3) by (auto simp: fm)
  then obtain s2 where s2: "collect_all E r ms s1 = Inr s2" "node_ok E D t n R me s2" "collected D t red R (insert f S \<union> fst ` set ms) s2"
    "\<forall>k. set (opened s1 k) \<subseteq> set (opened s2 k) \<and>
      (length (opened s2 k) < t \<longrightarrow> (\<Union>f \<in> set (honest_senders D t R k ms). places R f) \<subseteq> fst ` set (opened s2 k))"
    using Cons.IH[OF s1(2,3)] Cons.prems(4,5) by auto
  have "set (opened s k) \<subseteq> set (opened s2 k) \<and>
      (length (opened s2 k) < t \<longrightarrow> (\<Union>f \<in> set (honest_senders D t R k (fm # ms)). places R f) \<subseteq> fst ` set (opened s2 k))" for k
  proof (intro conjI impI)
    show "set (opened s k) \<subseteq> set (opened s2 k)" using s1(4) s2(4) by blast
    assume l: "length (opened s2 k) < t"
    have sub: "set (opened s1 k) \<subseteq> set (opened s2 k)" using s2(4) by blast
    have "distinct (opened s1 k)" using s1(3) by (auto simp: collected_def opened_ok_def distinct_map)
    then have "length (opened s1 k) = card (set (opened s1 k))" by (simp add: distinct_card)
    also have "\<dots> \<le> card (set (opened s2 k))" using sub by (simp add: card_mono)
    also have "\<dots> \<le> length (opened s2 k)" by (rule card_length)
    finally have "length (opened s1 k) < t" using l by simp
    then have "places R f \<subseteq> fst ` set (opened s2 k)" if "honest_message D t R fm \<and> k \<in> set (map fst (snd fm))"
      using step[OF that] sub by blast
    then show "(\<Union>f \<in> set (honest_senders D t R k (fm # ms)). places R f) \<subseteq> fst ` set (opened s2 k)"
      using s2(4) l unfolding honest_senders_Cons fm by auto
  qed
  then show ?case using s1(1) s2(1-3) by (intro exI[of _ s2]) (simp add: fm)
qed (auto simp: honest_senders_def)

definition secret_of :: "(u256 \<Rightarrow> opened_box) \<Rightarrow> u256 \<Rightarrow> u256" where
  "secret_of D k = word_of_nat (unat (vCoeff (D k) ! 0) mod sc_order)"

lemma secret_of_val:
  assumes "dealer_box t (D k)" "1 \<le> t" "int (unat u) = sc_mod (poly_at (box_poly (D k) t) 0)"
  shows "u = secret_of D k"
proof -
  have "0 < t" "vCoeff (D k) \<noteq> []" using assms(1,2) by (auto simp: dealer_box_def ob_IsNull_def)
  then have "poly_at (box_poly (D k) t) 0 = int (unat (vCoeff (D k) ! 0))"
    by (cases "vCoeff (D k)"; cases t) (simp_all add: box_poly_def poly_at_zero del: of_nat_unat)
  then have "int (unat u) = int (unat (vCoeff (D k) ! 0) mod sc_order)" using assms(3) by (simp add: zmod_int del: of_nat_unat)
  then have "unat u = unat (vCoeff (D k) ! 0) mod sc_order" by (simp only: of_nat_eq_iff)
  then show ?thesis unfolding secret_of_def by (simp add: flip: \<open>unat u = _\<close>)
qed

lemma opened_newton:
  assumes d: "dealing E rep D t n R me" and o: "opened_ok D t red R S k os" and l: "length os = t" and k: "R k \<noteq> None"
  shows "MPNewton os = Some (secret_of D k)"
proof -
  note dd = dealingD[OF d]
  have x: "1 \<le> unat (fst p) \<and> unat (fst p) < n" if p: "p \<in> set os" for p
  proof -
    obtain f y w where "R f = Some (y, w)" "y \<le> unat (fst p)" "unat (fst p) < y + w" using o p by (cases p) (auto simp: opened_ok_def)
    then show ?thesis using dd(8,9)[of f y w] by linarith
  qed
  have "sc_mod (int (unat (snd p))) = sc_mod (poly_at (box_poly (D k) t) (int (unat (fst p))))" if "p \<in> set os" for p
    using o that unfolding opened_ok_def share_ok_def by (cases p) auto
  moreover have "unat (fst p) \<le> unat (fst q) + 50" if "p \<in> set os" "q \<in> set os" for p q
    using x[OF that(1)] x[OF that(2)] dd(5) by linarith
  moreover have "distinct (map fst os)" using o by (simp add: opened_ok_def)
  ultimately have "shares_of (box_poly (D k) t) os" unfolding shares_of_def list_all_iff by blast
  moreover have "length (box_poly (D k) t) \<le> length os" using l by (simp add: box_poly_def)
  ultimately obtain u where "MPNewton os = Some u" "int (unat u) = sc_mod (poly_at (box_poly (D k) t) 0)" using MPNewton_shares by blast
  then show ?thesis using secret_of_val[of t D k u] dd(7)[OF k] dd(2) by simp
qed

lemma reconstruct_loop_eq:
  assumes "\<And>k. GetParticipantRange s k = R k" "nThresh s = t"
  shows "distinct (map fst l) \<Longrightarrow> \<forall>(k, os) \<in> set l. R k \<noteq> None \<and> (length os = t \<longrightarrow> MPNewton os = Some (sec k)) \<Longrightarrow>
    \<exists>out. reconstruct_loop s l m = Inr out \<and> (\<forall>k. map_of out k =
      (case map_of l k of Some os \<Rightarrow> if length os = t \<and> snd (the (R k)) > 0 then Some (sec k, snd (the (R k))) else map_of m k | None \<Rightarrow> map_of m k))"
proof (induction l arbitrary: m)
  case (Cons a l)
  obtain k os where a: "a = (k, os)" by (cases a)
  obtain x w where k: "R k = Some (x, w)" using Cons.prems(2) a by auto
  have n: "map_of l k = None" using Cons.prems(1) a by (simp add: map_of_eq_None_iff)
  let ?m = "if length os = t \<and> 0 < w then mput k (sec k, w) m else m"
  have e: "reconstruct_loop s (a # l) m = reconstruct_loop s l ?m" using Cons.prems(2) a k by (simp add: assms)
  obtain out where out: "reconstruct_loop s l ?m = Inr out" "\<And>j. map_of out j =
      (case map_of l j of Some os \<Rightarrow> if length os = t \<and> snd (the (R j)) > 0 then Some (sec j, snd (the (R j))) else map_of ?m j | None \<Rightarrow> map_of ?m j)"
    using Cons.IH[of ?m] Cons.prems by auto
  have "map_of out j = (case map_of (a # l) j of Some os \<Rightarrow> if length os = t \<and> snd (the (R j)) > 0 then Some (sec j, snd (the (R j))) else map_of m j
      | None \<Rightarrow> map_of m j)" for j
    using n k a by (cases "j = k") (auto simp: out(2) split: option.split)
  then show ?case unfolding e out(1) by (intro exI[of _ out] conjI allI refl)
qed simp

lemma Reconstruct_eq:
  assumes d: "dealing E rep D t n R me" and node: "node_ok E D t n R me s" and c: "collected D t red R S s"
  shows "\<exists>out. Reconstruct s [] = Inr out \<and> (\<forall>k. map_of out k =
    (if length (opened s k) = t \<and> R k \<noteq> None \<and> 0 < snd (the (R k)) then Some (secret_of D k, snd (the (R k))) else None))"
proof -
  note nd = node_okD[OF node] and cc = c[unfolded collected_def]
  have dist: "distinct (map fst (mapOpenedShare s))" using cc lin.sorted_distinct by blast
  have el: "R k \<noteq> None \<and> opened s k = os" if kos: "(k, os) \<in> set (mapOpenedShare s)" for k os
  proof -
    have "map_of (mapOpenedShare s) k = Some os" using kos dist by simp
    then show ?thesis using cc by (simp add: opened_def)
  qed
  have "\<forall>(k, os) \<in> set (mapOpenedShare s). R k \<noteq> None \<and> (length os = t \<longrightarrow> MPNewton os = Some (secret_of D k))"
    using el opened_newton[OF d] cc by blast
  then obtain out where out: "Reconstruct s [] = Inr out" "\<And>k. map_of out k = (case map_of (mapOpenedShare s) k of
      Some os \<Rightarrow> if length os = t \<and> snd (the (R k)) > 0 then Some (secret_of D k, snd (the (R k))) else map_of [] k | None \<Rightarrow> map_of [] k)"
    using reconstruct_loop_eq[OF nd(4,3) dist, of "secret_of D" "[]"] unfolding Reconstruct_def by blast
  have "1 \<le> t" using dealingD(2)[OF d] .
  then have "map_of out k = (if length (opened s k) = t \<and> R k \<noteq> None \<and> 0 < snd (the (R k)) then Some (secret_of D k, snd (the (R k))) else None)" for k
    using cc by (auto simp: out(2) opened_def split: option.split)
  then show ?thesis using out(1) by blast
qed

section \<open>What distributing and accepting do\<close>

lemma distribute_loop_eq:
  "distinct (map fst ps) \<Longrightarrow> \<forall>(k, p) \<in> set ps. poly_shares (myBox s) (nThresh s) (nIndex p) (nWeight (candidate p)) = Inr (V p) \<Longrightarrow>
   \<exists>out. distribute_loop s ps m = Inr out \<and>
     (\<forall>k. map_of out k = (case map_of ps k of Some p \<Rightarrow> Some (map (part_Encrypt p) (V p)) | None \<Rightarrow> map_of m k))"
proof (induction ps arbitrary: m)
  case (Cons a ps)
  obtain k p where a: "a = (k, p)" by (cases a)
  have n: "map_of ps k = None" using Cons.prems(1) a by (simp add: map_of_eq_None_iff)
  let ?m = "mput k (map (part_Encrypt p) (V p)) m"
  have "distribute_loop s (a # ps) m = distribute_loop s ps ?m" using Cons.prems(2) a by simp
  moreover obtain out where "distribute_loop s ps ?m = Inr out"
    "\<And>j. map_of out j = (case map_of ps j of Some p \<Rightarrow> Some (map (part_Encrypt p) (V p)) | None \<Rightarrow> map_of ?m j)"
    using Cons.IH[of ?m] Cons.prems by auto
  ultimately show ?case using n a by (intro exI[of _ out]) (auto split: option.split)
qed simp

lemma dealing_shares:
  assumes "dealing E rep D t n R me" "R k \<noteq> None" "R f = Some (x, w)"
  shows "\<exists>vs. dealt_shares (D k) t x w vs"
proof -
  note d = dealingD[OF assms(1)]
  have "\<exists>u. ob_Polynomial (D k) t (word_of_nat (x + i)) = Inr u" if "i < w" for i
    using dealing_Polynomial[OF assms(1,2), of "x + i"] d(8,9)[OF assms(3)] that by auto
  then obtain u where "\<And>i. i < w \<Longrightarrow> ob_Polynomial (D k) t (word_of_nat (x + i)) = Inr (u i)" by metis
  then have "poly_shares (D k) t x w = Inr (map u [0..<w])" unfolding poly_shares_nth by simp
  then show ?thesis unfolding dealt_shares_def by blast
qed

lemma Distribute_dealt:
  assumes d: "dealing E rep D t n R me" and node: "node_ok E D t n R me s"
  shows "\<exists>out. Distribute s [] = Inr out \<and> (\<forall>k x w. k \<noteq> me \<longrightarrow> R k = Some (x, w) \<longrightarrow> (\<exists>vs. dealt_shares (D me) t x w vs \<and>
    map_of out k = Some (map (\<lambda>v. MPEccSharedKey E (nPrivKey (D me)) (MPEccPubkey E (nPrivKey (D k))) XOR v) vs)))"
proof -
  note nd = node_okD[OF node]
  have rg: "R k = Some (nIndex p, nWeight (candidate p))" if "map_of (mapParticipant s) k = Some p" for k p
    using nd(4)[of k] nd(1) nd(8)[OF that] that by (simp add: GetParticipantRange_def)
  have dist: "distinct (map fst (mapParticipant s))" using nd(7) by (rule lin.sorted_distinct)
  have ex: "\<exists>vs. poly_shares (D me) t (nIndex p) (nWeight (candidate p)) = Inr vs" if "(k, p) \<in> set (mapParticipant s)" for k p
    using dealing_shares[OF d dealingD(6)[OF d] rg[of k p]] that dist by (auto simp: dealt_shares_def)
  define V where "V = (\<lambda>p :: mp_participant. projr (poly_shares (D me) t (nIndex p) (nWeight (candidate p))))"
  have V: "\<forall>(k, p) \<in> set (mapParticipant s). poly_shares (myBox s) (nThresh s) (nIndex p) (nWeight (candidate p)) = Inr (V p)"
    using ex unfolding V_def nd(2,3) by force
  obtain out where out: "Distribute s [] = Inr out"
    "\<And>k. map_of out k = (case map_of (mapParticipant s) k of Some p \<Rightarrow> Some (map (part_Encrypt p) (V p)) | None \<Rightarrow> map_of [] k)"
    using distribute_loop_eq[OF dist V, of "[]"] unfolding Distribute_def by blast
  have "\<exists>vs. dealt_shares (D me) t x w vs \<and>
      map_of out k = Some (map (\<lambda>v. MPEccSharedKey E (nPrivKey (D me)) (MPEccPubkey E (nPrivKey (D k))) XOR v) vs)" if kx: "k \<noteq> me" "R k = Some (x, w)" for k x w
  proof -
    obtain p where p: "map_of (mapParticipant s) k = Some p" using nd(6)[OF kx(1)] kx(2) by auto
    then have e: "part_Encrypt p = (\<lambda>v. MPEccSharedKey E (nPrivKey (D me)) (MPEccPubkey E (nPrivKey (D k))) XOR v)"
      using nd(9)[OF p] by (simp add: part_Encrypt_def fun_eq_iff)
    have "dealt_shares (D me) t x w (V p)" using V map_of_SomeD[OF p] rg[OF p] kx(2) by (auto simp: dealt_shares_def nd(2,3))
    then show ?thesis using out(2)[of k] p e by auto
  qed
  then show ?thesis using out(1) by blast
qed

text \<open>The receiver takes what the dealer encrypted for it: both sides have the same key.\<close>

lemma accept_loop_ok:
  "\<forall>j < length cs. VerifyPolynomial E (sBox (candidate p)) (word_of_nat (x + i + j)) (part_Decrypt p (cs ! j)) \<Longrightarrow>
   accept_loop E x i cs p acc = (True, acc @ map (part_Decrypt p) cs)"
proof (induction cs arbitrary: i acc)
  case (Cons c cs)
  have "\<forall>j < length cs. VerifyPolynomial E (sBox (candidate p)) (word_of_nat (x + Suc i + j)) (part_Decrypt p (cs ! j))"
    using Cons.prems by (auto simp del: of_nat_add of_nat_Suc dest: spec[of _ "Suc _"])
  moreover have "VerifyPolynomial E (sBox (candidate p)) (word_of_nat (x + i)) (part_Decrypt p c)" using Cons.prems[rule_format, of 0] by simp
  ultimately show ?case using Cons.IH[of "Suc i" "acc @ [part_Decrypt p c]"] by (simp del: of_nat_add)
qed simp

lemma shared_key_sym:
  assumes "dealing E rep D t n R me" "R a \<noteq> None" "R b \<noteq> None"
  shows "MPEccSharedKey E (nPrivKey (D a)) (MPEccPubkey E (nPrivKey (D b))) = MPEccSharedKey E (nPrivKey (D b)) (MPEccPubkey E (nPrivKey (D a)))"
  using MPEccSharedKey_is(1)[OF dealingD(1)[OF assms(1)]] dealingD(7)[OF assms(1,2)] dealingD(7)[OF assms(1,3)]
  by (simp add: dealer_box_def mult.commute del: of_nat_unat)

lemma Accept_dealt:
  assumes d: "dealing E rep D t n R me" and node: "node_ok E D t n R me s" and me: "R me = Some (x, w)" and a: "a \<noteq> me" "R a \<noteq> None"
    and vs: "dealt_shares (D a) t x w vs" and fresh: "\<forall>k p. map_of (mapParticipant s) k = Some p \<longrightarrow> vShare p = []"
  shows "\<exists>p. map_of (mapParticipant s) a = Some p \<and>
    Accept E a (map (\<lambda>v. MPEccSharedKey E (nPrivKey (D a)) (MPEccPubkey E (nPrivKey (D me))) XOR v) vs) s =
      (True, s\<lparr>mapParticipant := mput a (p\<lparr>vShare := vs\<rparr>) (mapParticipant s)\<rparr>)"
proof -
  note nd = node_okD[OF node]
  let ?key = "MPEccSharedKey E (nPrivKey (D a)) (MPEccPubkey E (nPrivKey (D me)))"
  obtain p where p: "map_of (mapParticipant s) a = Some p" using nd(6)[OF a(1)] a(2) by auto
  have dec: "part_Decrypt p (?key XOR v) = v" for v
    using nd(9)[OF p] shared_key_sym[OF d a(2) dealingD(6)[OF d]] by (simp add: part_Decrypt_def flip: xor.assoc)
  have len: "length vs = w" using vs by (simp add: dealt_shares_def poly_shares_nth)
  have own: "ss_nIndex s = x" "ss_nWeight s = w" using nd(4)[of me] nd(1) me by (simp_all add: GetParticipantRange_def)
  have "entry_ok E x w s (a, vs)" by (rule dealt_entry_ok[OF d node me a(2) vs])
  then have "\<forall>j < length vs. VerifyPolynomial E (sBox (candidate p)) (word_of_nat (x + 0 + j)) (vs ! j)"
    using a(1) p by (simp add: entry_ok_def nd(1) VerifyShare_def verify_loop_nth)
  then have "accept_loop E x 0 (map (\<lambda>v. ?key XOR v) vs) p [] = (True, vs)"
    using accept_loop_ok[of "map (\<lambda>v. ?key XOR v) vs" E p x 0 "[]"] by (simp add: dec comp_def)
  moreover have "vShare p = []" using fresh p by blast
  ultimately have "AcceptShare E x (map (\<lambda>v. ?key XOR v) vs) p = (True, p\<lparr>vShare := vs\<rparr>)" by (auto simp: AcceptShare_def)
  then show ?thesis using p len by (simp add: Accept_def own)
qed

lemma publish_loop_eq:
  "distinct (map fst ps) \<Longrightarrow> map_of (publish_loop ps m) k = (case map_of m k of Some vs \<Rightarrow> Some vs
     | None \<Rightarrow> (case map_of ps k of Some p \<Rightarrow> if vShare p \<noteq> [] then Some (vShare p) else None | None \<Rightarrow> None))"
proof (induction ps m rule: publish_loop.induct)
  case (2 j p ps m)
  have "map_of ps j = None" using "2.prems" by (simp add: map_of_eq_None_iff)
  then show ?case using 2 by (auto split: option.split)
qed (simp split: option.split)

lemma publish_loop_sorted: "msorted m \<Longrightarrow> msorted (publish_loop ps m)"
  by (induction ps m rule: publish_loop.induct) auto

lemma Publish_eq:
  assumes d: "dealing E rep D t n R me" and node: "node_ok E D t n R me s" and me: "R me = Some (x, w)"
  shows "\<exists>out. Publish s = Inr out \<and> msorted out \<and> (\<exists>vs. dealt_shares (D me) t x w vs \<and> map_of out me = Some vs) \<and>
    (\<forall>k. k \<noteq> me \<longrightarrow> map_of out k = (case map_of (mapParticipant s) k of Some p \<Rightarrow> if vShare p \<noteq> [] then Some (vShare p) else None | None \<Rightarrow> None))"
proof -
  note nd = node_okD[OF node]
  have own: "ss_nIndex s = x" "ss_nWeight s = w" using nd(4)[of me] nd(1) me by (simp_all add: GetParticipantRange_def)
  have dist: "distinct (map fst (mapParticipant s))" using nd(7) by (rule lin.sorted_distinct)
  obtain vs where vs: "dealt_shares (D me) t x w vs" using dealing_shares[OF d dealingD(6)[OF d] me] by blast
  have "map_of (mapParticipant s) me = None" using nd(8)[of me] by (cases "map_of (mapParticipant s) me") auto
  then have "Publish s = Inr (mput me vs (publish_loop (mapParticipant s) []))"
    using vs publish_loop_eq[OF dist, of "[]" me] by (simp add: Publish_def Let_def nd(1-3) own dealt_shares_def)
  moreover have "msorted (publish_loop (mapParticipant s) [])" by (rule publish_loop_sorted) (simp add: smap_sorted_def)
  ultimately show ?thesis using vs publish_loop_eq[OF dist, of "[]"] by (intro exI[of _ "mput me vs (publish_loop (mapParticipant s) [])"]) auto
qed

fun accept_all :: "'p ed_ops \<Rightarrow> (u256 \<times> u256 list) list \<Rightarrow> mp_secret \<Rightarrow> mp_secret" where
  "accept_all E [] s = s"
| "accept_all E ((f, enc) # as) s = accept_all E as (snd (Accept E f enc s))"

lemma AcceptShare_fields:
  "candidate (snd (AcceptShare E x enc p)) = candidate p" "nIndex (snd (AcceptShare E x enc p)) = nIndex p"
  "nSharedKey (snd (AcceptShare E x enc p)) = nSharedKey p"
  by (simp_all add: AcceptShare_def split: prod.split)

lemma Accept_keeps:
  assumes "node_ok E D t n R me s"
  shows "node_ok E D t n R me (snd (Accept E f enc s))" "mapOpenedShare (snd (Accept E f enc s)) = mapOpenedShare s"
proof -
  show "mapOpenedShare (snd (Accept E f enc s)) = mapOpenedShare s" by (simp add: Accept_def split: option.split prod.split)
  show "node_ok E D t n R me (snd (Accept E f enc s))"
  proof (cases "length enc = ss_nWeight s \<and> map_of (mapParticipant s) f \<noteq> None")
    case True
    then obtain p where p: "map_of (mapParticipant s) f = Some p" by auto
    obtain ok q where q: "AcceptShare E (ss_nIndex s) enc p = (ok, q)" by fastforce
    have f: "candidate q = candidate p" "nIndex q = nIndex p" "nSharedKey q = nSharedKey p" using AcceptShare_fields[of E "ss_nIndex s" enc p] q by simp_all
    let ?s = "s\<lparr>mapParticipant := mput f q (mapParticipant s)\<rparr>"
    have "GetParticipantRange ?s k = GetParticipantRange s k" for k using p f by (simp add: GetParticipantRange_def)
    then have "node_ok E D t n R me ?s" using assms p f unfolding node_ok_def by auto
    then show ?thesis using True p q by (simp add: Accept_def)
  next
    case False
    then show ?thesis using assms by (auto simp: Accept_def split: option.split)
  qed
qed

lemma accept_all_keeps:
  "node_ok E D t n R me s \<Longrightarrow> node_ok E D t n R me (accept_all E as s) \<and> mapOpenedShare (accept_all E as s) = mapOpenedShare s"
  by (induction E as s rule: accept_all.induct) (auto simp: Accept_keeps)

section \<open>Properties\<close>

text \<open>(C1) The life of a node: it enrols, takes whatever the dealers send it, collects what the participants open, and reconstructs,
  under these conditions. The curve operations satisfy the group laws \<open>ed_laws\<close>; the candidates committed to polynomials that can
  deal, and their places fit the table of fifty-two; every value in a message is below \<open>2^255\<close>; and either every sender has one message
  only, or repeated shares are looked for and every value is reduced modulo the group order. Then nothing of this fails. Every secret
  found is the constant coefficient of its dealer, with the dealer's weight; and the secret of a dealer is found as soon as the
  different senders that open its shares as they were dealt have the threshold's weight. Within these conditions the other senders may
  send what they want. Outside of them the code does not keep the promise: a sender that repeats a share unreduced, or a share with bit 255
  set, is taken and spoils the interpolation.\<close>

theorem secret_sharing:
  assumes L: "ed_laws E rep" and d: "distinct (map nIdent cs)" and s: "mapParticipant s = []" "mapOpenedShare s = []" and me: "me = ss_nIdent s"
    and own: "me \<in> nIdent ` set cs" and box: "myBox s = D me" and n: "last_index E me cs \<le> 52" and t: "t = threshold E me cs" and R: "R = range_of (counts E me) cs"
    and c: "\<forall>c \<in> set cs. commits E D c \<and> dealer_box t (D (nIdent c))"
    and ms: "messages_ok r ms"
  shows "\<exists>s1 s2 out. Enroll E cs s = Inr s1 \<and> collect_all E r ms (accept_all E as s1) = Inr s2 \<and> Reconstruct s2 [] = Inr out \<and>
    (\<forall>k sec w. map_of out k = Some (sec, w) \<longrightarrow> sec = secret_of D k \<and> 0 < w \<and> (\<exists>x. R k = Some (x, w))) \<and>
    (\<forall>k x w. R k = Some (x, w) \<longrightarrow> 0 < w \<longrightarrow> t \<le> honest_weight D t R k ms \<longrightarrow> map_of out k = Some (secret_of D k, w))"
proof -
  let ?n = "last_index E me cs"
  have dl: "dealing E rep D t ?n R me" using dealing_enrolled[OF L d own n] c unfolding t R by blast
  obtain s1 where s1: "Enroll E cs s = Inr s1" "mapOpenedShare s1 = []" "node_ok E D t ?n R me s1"
    using Enroll_honest[of E rep cs s me D] L d s me own box n c unfolding t R by auto
  let ?s = "accept_all E as s1"
  have a: "node_ok E D t ?n R me ?s" "mapOpenedShare ?s = []" using accept_all_keeps[OF s1(3)] s1(2) by simp_all
  define red where "red \<longleftrightarrow> r \<and> list_all message_reduced ms"
  have col: "collected D t red R {} ?s" using a(2) by (simp add: collected_def opened_def opened_ok_def smap_sorted_def)
  have m: "red \<and> r \<or> distinct (map fst ms) \<and> {} \<inter> fst ` set ms = {}" "list_all message_ok ms" "red \<longrightarrow> list_all message_reduced ms"
    using ms by (auto simp: messages_ok_def red_def)
  obtain s2 where s2: "collect_all E r ms ?s = Inr s2" "node_ok E D t ?n R me s2" "collected D t red R ({} \<union> fst ` set ms) s2"
    "\<forall>k. set (opened ?s k) \<subseteq> set (opened s2 k) \<and>
      (length (opened s2 k) < t \<longrightarrow> (\<Union>f \<in> set (honest_senders D t R k ms). places R f) \<subseteq> fst ` set (opened s2 k))"
    using collect_all_ok[OF dl a(1) col m] by (elim exE conjE)
  obtain out where out: "Reconstruct s2 [] = Inr out" "\<And>k. map_of out k =
      (if length (opened s2 k) = t \<and> R k \<noteq> None \<and> 0 < snd (the (R k)) then Some (secret_of D k, snd (the (R k))) else None)"
    using Reconstruct_eq[OF dl s2(2,3)] by blast
  have "length (opened s2 k) = t" if w: "t \<le> honest_weight D t R k ms" for k
  proof (rule ccontr)
    assume n: "length (opened s2 k) \<noteq> t"
    have "length (opened s2 k) \<le> t" using s2(3) by (simp add: collected_def opened_ok_def)
    then have l: "length (opened s2 k) < t" using n by simp
    have "honest_weight D t R k ms \<le> card (fst ` set (opened s2 k))"
      unfolding honest_places[OF dl, symmetric] by (rule card_mono[OF _ s2(4)[rule_format, THEN conjunct2, rule_format, OF l]]) simp
    also have "\<dots> \<le> length (opened s2 k)" by (rule le_trans[OF card_image_le card_length]) simp
    finally show False using w l by simp
  qed
  then have "\<forall>k x w. R k = Some (x, w) \<longrightarrow> 0 < w \<longrightarrow> t \<le> honest_weight D t R k ms \<longrightarrow> map_of out k = Some (secret_of D k, w)" by (simp add: out(2))
  moreover have "sec = secret_of D k \<and> 0 < w \<and> (\<exists>x. R k = Some (x, w))" if "map_of out k = Some (sec, w)" for k sec w
    using that by (cases "R k") (auto simp: out(2) split: if_splits)
  ultimately show ?thesis using s1(1) s2(1) out(1) by blast
qed

lemma counts_all:
  assumes "\<forall>c \<in> set cs. cand_Verify E c"
  shows "assign (counts E me) n cs = assign (\<lambda>_. True) n cs" "weight_of (counts E me) cs = weight_of (\<lambda>_. True) cs"
    "range_of (counts E me) cs = range_of (\<lambda>_. True) cs"
proof -
  have a: "assign (counts E me) n cs = assign (\<lambda>_. True) n cs" for n using assms by (induction cs arbitrary: n) (auto simp: counts_def)
  show "assign (counts E me) n cs = assign (\<lambda>_. True) n cs" by (rule a)
  show "weight_of (counts E me) cs = weight_of (\<lambda>_. True) cs" using assms by (induction cs) (auto simp: weight_of_def counts_def)
  show "range_of (counts E me) cs = range_of (\<lambda>_. True) cs" by (simp add: range_of_def fun_eq_iff a)
qed

text \<open>The hypotheses of a dealing all of whose candidates verify, for the node \<open>s\<close>.\<close>

definition member :: "(u256 \<Rightarrow> opened_box) \<Rightarrow> mp_candidate list \<Rightarrow> mp_secret \<Rightarrow> bool" where
  "member D cs s \<longleftrightarrow> mapParticipant s = [] \<and> ss_nIdent s \<in> nIdent ` set cs \<and> myBox s = D (ss_nIdent s)"

definition sound_dealing :: "'p ed_ops \<Rightarrow> ('p \<Rightarrow> int \<Rightarrow> bool) \<Rightarrow> (u256 \<Rightarrow> opened_box) \<Rightarrow> mp_candidate list \<Rightarrow> nat \<Rightarrow> bool" where
  "sound_dealing E rep D cs t \<longleftrightarrow> ed_laws E rep \<and> distinct (map nIdent cs) \<and> weight_of (\<lambda>_. True) cs \<le> 51 \<and> t = weight_of (\<lambda>_. True) cs div 2 + 1 \<and>
     (\<forall>c \<in> set cs. cand_Verify E c \<and> commits E D c \<and> dealer_box t (D (nIdent c)))"

lemma sound_enroll:
  assumes "sound_dealing E rep D cs t" "member D cs s"
  defines "R \<equiv> range_of (\<lambda>_. True) cs" and "n \<equiv> 1 + weight_of (\<lambda>_. True) cs"
  shows "\<exists>s'. Enroll E cs s = Inr s' \<and> mapOpenedShare s' = mapOpenedShare s \<and> (\<forall>k p. map_of (mapParticipant s') k = Some p \<longrightarrow> vShare p = []) \<and>
    node_ok E D t n R (ss_nIdent s) s' \<and> dealing E rep D t n R (ss_nIdent s)"
proof -
  have a: "ed_laws E rep" "distinct (map nIdent cs)" "\<forall>c \<in> set cs. cand_Verify E c" "\<forall>c \<in> set cs. commits E D c \<and> dealer_box t (D (nIdent c))" "n \<le> 52"
    using assms(1) by (auto simp: sound_dealing_def n_def)
  have c: "range_of (counts E (ss_nIdent s)) cs = R" "last_index E (ss_nIdent s) cs = n" "threshold E (ss_nIdent s) cs = t"
    using counts_all[OF a(3)] assms(1) by (simp_all add: R_def n_def last_index_def threshold_def sound_dealing_def)
  show ?thesis using Enroll_honest[of E rep cs s "ss_nIdent s" D] dealing_enrolled[of E rep cs "ss_nIdent s" D] a assms(2)
    unfolding c member_def by auto
qed

text \<open>(C6) Nodes that enrol the same candidates agree: the same threshold, just above half of the weight, and the same range for
  everybody. Every candidate has a range as wide as its weight, and no two ranges meet.\<close>

theorem enroll_agreement:
  assumes "sound_dealing E rep D cs t" "member D cs a" "member D cs b"
  shows "\<exists>a' b'. Enroll E cs a = Inr a' \<and> Enroll E cs b = Inr b' \<and> nThresh a' = t \<and> nThresh b' = t \<and>
    (\<forall>k. GetParticipantRange a' k = GetParticipantRange b' k) \<and>
    (\<forall>c \<in> set cs. \<exists>x. GetParticipantRange a' (nIdent c) = Some (x, nWeight c)) \<and>
    (\<forall>k j x w y v. k \<noteq> j \<longrightarrow> GetParticipantRange a' k = Some (x, w) \<longrightarrow> GetParticipantRange a' j = Some (y, v) \<longrightarrow> x + w \<le> y \<or> y + v \<le> x)"
proof -
  obtain a' where a: "Enroll E cs a = Inr a'" "node_ok E D t (1 + weight_of (\<lambda>_. True) cs) (range_of (\<lambda>_. True) cs) (ss_nIdent a) a'"
    using sound_enroll[OF assms(1,2)] by auto
  obtain b' where b: "Enroll E cs b = Inr b'" "node_ok E D t (1 + weight_of (\<lambda>_. True) cs) (range_of (\<lambda>_. True) cs) (ss_nIdent b) b'"
    using sound_enroll[OF assms(1,3)] by auto
  have d: "distinct (map nIdent cs)" using assms(1) by (simp add: sound_dealing_def)
  have "\<exists>x. range_of (\<lambda>_. True) cs (nIdent c) = Some (x, nWeight c)" if "c \<in> set cs" for c
    using assign_all[of c cs "\<lambda>_. True" 1] that unfolding range_of_iff[OF d] by blast
  then show ?thesis using a(1) b(1) node_okD(3,4)[OF a(2)] node_okD(3,4)[OF b(2)] range_of_places(2)[OF d, of _ _ "\<lambda>_. True"]
    by (intro exI[of _ a'] exI[of _ b']) simp
qed

text \<open>(C12) What the dealer \<open>a\<close> distributes reaches everybody through \<open>b\<close>: \<open>b\<close> can decrypt and accepts it, what it then
  publishes under the name of \<open>a\<close> are the values of the polynomial of \<open>a\<close> on its own range, and every enrolled node takes the
  message: its \<^verbatim>\<open>Collect\<close> returns true.\<close>

theorem deal_round_trip:
  assumes "sound_dealing E rep D cs t" "member D cs a" "member D cs b" "ss_nIdent a \<noteq> ss_nIdent b"
    "Enroll E cs a = Inr a'" "Enroll E cs b = Inr b'" "GetParticipantRange b' (ss_nIdent b) = Some (x, w)" "0 < w"
  shows "\<exists>out enc b'' m vs. Distribute a' [] = Inr out \<and> map_of out (ss_nIdent b) = Some enc \<and>
    Accept E (ss_nIdent a) enc b' = (True, b'') \<and> Publish b'' = Inr m \<and> map_of m (ss_nIdent a) = Some vs \<and>
    poly_shares (myBox a) t x w = Inr vs \<and> honest_message D t (range_of (\<lambda>_. True) cs) (ss_nIdent b, m) \<and>
    (\<forall>z z' r. member D cs z \<longrightarrow> Enroll E cs z = Inr z' \<longrightarrow> (\<exists>z''. Collect E (ss_nIdent b) m r z' = Inr (True, z'')))"
proof -
  let ?R = "range_of (\<lambda>_. True) cs" and ?n = "1 + weight_of (\<lambda>_. True) cs" and ?a = "ss_nIdent a" and ?b = "ss_nIdent b"
  have A: "node_ok E D t ?n ?R ?a a'" "dealing E rep D t ?n ?R ?a" using sound_enroll[OF assms(1,2)] assms(5) by auto
  have B: "node_ok E D t ?n ?R ?b b'" "dealing E rep D t ?n ?R ?b" "\<forall>k p. map_of (mapParticipant b') k = Some p \<longrightarrow> vShare p = []"
    using sound_enroll[OF assms(1,3)] assms(6) by auto
  have r: "?R ?b = Some (x, w)" using node_okD(4)[OF B(1)] assms(7) by simp
  have ra: "?R ?a \<noteq> None" using dealingD(6)[OF A(2)] .
  let ?key = "\<lambda>v. MPEccSharedKey E (nPrivKey (D ?a)) (MPEccPubkey E (nPrivKey (D ?b))) XOR v"
  obtain out vs where 1: "Distribute a' [] = Inr out" "dealt_shares (D ?a) t x w vs" "map_of out ?b = Some (map ?key vs)"
    using Distribute_dealt[OF A(2,1)] r assms(4) by metis
  obtain p where p: "map_of (mapParticipant b') ?a = Some p"
    "Accept E ?a (map ?key vs) b' = (True, b'\<lparr>mapParticipant := mput ?a (p\<lparr>vShare := vs\<rparr>) (mapParticipant b')\<rparr>)" (is "_ = (True, ?s)")
    using Accept_dealt[OF B(2,1) r assms(4) ra 1(2) B(3)] by blast
  have s: "node_ok E D t ?n ?R ?b ?s" using Accept_keeps(1)[OF B(1), of ?a "map ?key vs"] p(2) by simp
  obtain m us where m: "Publish ?s = Inr m" "msorted m" "dealt_shares (D ?b) t x w us" "map_of m ?b = Some us"
    "\<forall>k. k \<noteq> ?b \<longrightarrow> map_of m k = (case map_of (mapParticipant ?s) k of Some p \<Rightarrow> if vShare p \<noteq> [] then Some (vShare p) else None | None \<Rightarrow> None)"
    using Publish_eq[OF B(2) s r] by blast
  have vs: "vs \<noteq> []" using 1(2) assms(8) by (auto simp: dealt_shares_def poly_shares_nth)
  have ma: "map_of m ?a = Some vs" using m(5) assms(4) vs by simp
  have "?R k \<noteq> None \<and> dealt_shares (D k) t x w zs" if kz: "(k, zs) \<in> set m" for k zs
  proof -
    have mk: "map_of m k = Some zs" using kz m(2) lin.mem_iff_find by metis
    then have "k = ?b \<and> zs = us \<or> k = ?a \<and> zs = vs" using m(4,5) B(3) ma by (cases "k = ?b"; cases "k = ?a") (auto split: option.splits if_splits)
    then show ?thesis using m(3) 1(2) r ra by auto
  qed
  then have h: "list_all (\<lambda>(k, zs). ?R k \<noteq> None \<and> dealt_shares (D k) t x w zs) m" by (auto simp: list_all_iff)
  then have "honest_message D t ?R (?b, m)" using r by (simp add: honest_message_def)
  moreover have "\<exists>z''. Collect E ?b m f z' = Inr (True, z'')" if z: "member D cs z" "Enroll E cs z = Inr z'" for z z' f
  proof -
    have Z: "node_ok E D t ?n ?R (ss_nIdent z) z'" "dealing E rep D t ?n ?R (ss_nIdent z)" using sound_enroll[OF assms(1) z(1)] z(2) by auto
    have "list_all (entry_ok E x w z') m" using h dealt_entry_ok[OF Z(2,1) r] by (auto simp: list_all_iff)
    then show ?thesis using Collect_eq[of w z' x ?b E m f] dealing_own_check[OF Z(2,1) r] r node_okD(4)[OF Z(1), of ?b] by simp
  qed
  moreover have "poly_shares (myBox a) t x w = Inr vs" using 1(2) assms(2) by (simp add: dealt_shares_def member_def)
  ultimately show ?thesis using 1(1,3) p(2) m(1) ma by blast
qed

lemma enroll_index_bad:
  "distinct (map nIdent cs) \<Longrightarrow> \<forall>c \<in> set cs. in_map me c \<longrightarrow> map_of (mapParticipant s) (nIdent c) = Some (P c) \<Longrightarrow>
   \<exists>c \<in> set cs. in_map me c \<and> part_IsNull (P c) \<Longrightarrow> enroll_index (map (\<lambda>c. (c, slot_of me c, ok c)) cs) s n kept = Inl Bad_Delete"
proof (induction cs arbitrary: s n kept)
  case (Cons c cs)
  have d: "nIdent e \<noteq> nIdent c" if "e \<in> set cs" for e using Cons.prems(1) that by (auto simp: image_iff)
  show ?case
  proof (cases "in_map me c")
    case True
    have p: "map_of (mapParticipant s) (nIdent c) = Some (P c)" "slot_of me c = Map_Slot (nIdent c)" using True Cons.prems(2) by (auto simp: slot_of_def in_map_def)
    show ?thesis
    proof (cases "part_IsNull (P c)")
      case False
      have "\<exists>c \<in> set cs. in_map me c \<and> part_IsNull (P c)" using Cons.prems(3) False by auto
      note IH = Cons.IH[OF _ _ this]
      show ?thesis using p False Cons.prems(1,2) d by (auto intro!: IH)
    qed (simp add: p)
  next
    case False
    have "\<exists>c \<in> set cs. in_map me c \<and> part_IsNull (P c)" using Cons.prems(3) False by auto
    note IH = Cons.IH[OF _ _ this]
    have "slot_of me c = Fresh_Slot \<or> slot_of me c = Null_Slot" using False by (auto simp: slot_of_def in_map_def)
    then show ?thesis using Cons.prems(1,2) by (auto intro!: IH)
  qed
qed simp

text \<open>(C39) A candidate whose box is not null and whose public key is not a point on the curve: its shared key is null, so the
  node takes the participant for itself and deletes an object that lives in the map. Nothing before that verifies the key.\<close>

theorem enroll_bad_key:
  assumes "distinct (map nIdent cs)" "mapParticipant s = []" "c \<in> set cs" "nIdent c \<noteq> ss_nIdent s" "\<not> sb_IsNull (sBox c)"
    "\<not> fst (ed_Unpack E (sb_nPubKey (sBox c)))"
  shows "Enroll E cs s = Inl Bad_Delete"
proof -
  let ?me = "ss_nIdent s" and ?P = "new_part E (myBox s)"
  let ?m = "enrolled_map E ?me (myBox s) cs []"
  let ?s = "s\<lparr>mapParticipant := ?m, ss_nWeight := own_weight ?me cs (ss_nWeight s)\<rparr>"
  have 1: "enroll_insert E cs s [] = (?s, map (slot_of ?me) cs)" using enroll_insert_eq[OF assms(1), of s E "[]"] assms(2) by simp
  have "in_map ?me c \<and> part_IsNull (?P c)"
    using assms(4-6) by (simp add: in_map_def part_IsNull_def new_part_def CMPParticipant_def ob_SharedKey_def MPEccSharedKey_def)
  then have 2: "\<exists>c \<in> set cs. in_map ?me c \<and> part_IsNull (?P c)" using assms(3) by blast
  have "\<forall>c \<in> set cs. in_map ?me c \<longrightarrow> map_of (mapParticipant ?s) (nIdent c) = Some (?P c)"
    using enrolled_map_new[OF assms(1), of "[]" _ ?me E "myBox s"] by simp
  from enroll_index_bad[OF assms(1) this 2] show ?thesis unfolding Enroll_def 1 prod.case zip_slots by simp
qed

lemma RandShare_bound: "unat (RandShare r) < 2 ^ 252"
  unfolding RandShare_def by (simp only: flip: take_bit_eq_mask) (simp only: unsigned_take_bit_eq take_bit_nat_less_exp)

text \<open>A round of \<^verbatim>\<open>Setup\<close>: the box it tries, and whether it is taken. The key \<open>r 0\<close> is not looked at.\<close>

definition setup_round :: "nat \<Rightarrow> (nat \<Rightarrow> u256) \<Rightarrow> opened_box" where
  "setup_round n r = \<lparr>vCoeff = map (\<lambda>i. RandShare (r (Suc i))) [0..<n], nPrivKey = RandShare (r 0)\<rparr>"

definition setup_good :: "nat \<Rightarrow> (nat \<Rightarrow> u256) \<Rightarrow> bool" where
  "setup_good n r \<longleftrightarrow> 0 < n \<and> list_all (\<lambda>i. RandShare (r (Suc i)) \<noteq> 0) [0..<Suc n]"

lemma setup_loop_eq:
  "setup_loop E n ident rs b0 sealed = (case find (setup_good n) rs of None \<Rightarrow> None
     | Some r \<Rightarrow> Some (setup_round n r, snd (MakeSealedBox E (setup_round n r) sealed ident (RandShare (r (Suc n))))))"
proof (induction rs arbitrary: b0)
  case (Cons r rs)
  have g: "ob_Validate (setup_round n r) \<and> RandShare (r (Suc n)) \<noteq> 0 \<longleftrightarrow> setup_good n r"
    by (auto simp: setup_good_def setup_round_def ob_Validate_def list_all_iff less_Suc_eq)
  show ?case
  proof (cases "setup_good n r")
    case True
    then show ?thesis using g by (simp add: MakeSealedBox_def Let_def split_beta flip: setup_round_def)
  next
    case False
    then have "MakeSealedBox E (setup_round n r) sealed ident (RandShare (r (Suc n))) = (False, sealed)" using g by (auto simp: MakeSealedBox_def)
    then show ?thesis using False Cons.IH by (simp add: Let_def flip: setup_round_def)
  qed
qed simp

text \<open>(C38) \<^verbatim>\<open>Setup\<close> returns exactly when one of the rounds gives non-zero coefficients, at least one of them, and a non-zero nonce, and it takes the
  first such round. Under the curve laws \<open>ed_laws\<close> the box it made then verifies under the identity of the node and commits to the polynomial it
  kept, and the state is reset. The box can deal, for every threshold up to the number of coefficients, exactly when the random key is not
  zero, which the loop does not check.\<close>

theorem setup_box:
  assumes "ed_laws E rep"
  shows "case find (setup_good n) rs of None \<Rightarrow> Setup E n rs sealed s = None
    | Some r \<Rightarrow> \<exists>s' sb. Setup E n rs sealed s = Some (s', sb) \<and> myBox s' = setup_round n r \<and> ss_nIdent s' = ss_nIdent s \<and>
        cand_Verify E \<lparr>nIdent = ss_nIdent s, nWeight = w, sBox = sb\<rparr> \<and> commits E (\<lambda>_. myBox s') \<lparr>nIdent = ss_nIdent s, nWeight = w, sBox = sb\<rparr> \<and>
        mapParticipant s' = [] \<and> mapOpenedShare s' = [] \<and> length (vCoeff (myBox s')) = n \<and>
        (\<forall>t. 1 \<le> t \<longrightarrow> t \<le> n \<longrightarrow> (dealer_box t (myBox s') \<longleftrightarrow> RandShare (r 0) \<noteq> 0))"
proof (cases "find (setup_good n) rs")
  case None
  then show ?thesis by (simp add: Setup_def setup_loop_eq)
next
  case (Some r)
  have g: "setup_good n r" using Some by (auto simp: find_Some_iff)
  define sb where "sb = snd (MakeSealedBox E (setup_round n r) sealed (ss_nIdent s) (RandShare (r (Suc n))))"
  let ?s = "reset_share (s\<lparr>myBox := setup_round n r\<rparr>)"
  have e: "Setup E n rs sealed s = Some (?s, sb)" using Some by (simp add: Setup_def setup_loop_eq sb_def)
  have "ob_Validate (setup_round n r)" "RandShare (r (Suc n)) \<noteq> 0" using g by (auto simp: setup_good_def setup_round_def ob_Validate_def list_all_iff)
  then have m: "MakeSealedBox E (setup_round n r) sealed (ss_nIdent s) (RandShare (r (Suc n))) = (True, sb)"
    by (simp add: sb_def MakeSealedBox_def split_beta)
  have b: "list_all (\<lambda>c. unat c < 2 ^ 252) (vCoeff (setup_round n r))" "unat (nPrivKey (setup_round n r)) < 2 ^ 252"
    using RandShare_bound by (auto simp: setup_round_def list_all_iff)
  have k: "unat (nPrivKey (setup_round n r)) < 2 ^ 255" "unat (RandShare (r (Suc n))) < 2 ^ 255" using b(2) RandShare_bound[of "r (Suc n)"] by simp_all
  have c: "list_all (\<lambda>c. unat c < 2 ^ 255) (vCoeff (setup_round n r))" using b(1) by (rule list.pred_mono_strong) simp
  have v: "sb_VerifyIdent E sb (ss_nIdent s)" by (rule sealed_verifies[OF assms m k b(1)])
  have d: "dealer_box t (setup_round n r) \<longleftrightarrow> RandShare (r 0) \<noteq> 0" if "1 \<le> t" "t \<le> n" for t
    using k(1) c that by (auto simp: dealer_box_def ob_IsNull_def setup_round_def)
  have s: "myBox ?s = setup_round n r" "ss_nIdent ?s = ss_nIdent s" "mapParticipant ?s = []" "mapOpenedShare ?s = []" "length (vCoeff (setup_round n r)) = n"
    by (simp_all add: reset_share_def setup_round_def)
  show ?thesis unfolding Some option.case using e v d s MakeSealedBox_fields(1,2)[OF m]
    by (intro exI[of _ ?s] exI[of _ sb]) (simp add: cand_Verify_def commits_def)
qed

section \<open>An exchange between two nodes\<close>

definition toy_D :: "u256 \<Rightarrow> opened_box" where
  "toy_D k = (if k = 1 then \<lparr>vCoeff = [5, 7], nPrivKey = 3\<rparr> else \<lparr>vCoeff = [6, 8], nPrivKey = 4\<rparr>)"

definition toy_cand :: "u256 \<Rightarrow> mp_candidate" where
  "toy_cand k = \<lparr>nIdent = k, nWeight = 1, sBox = toy_sealed k 9 (toy_D k)\<rparr>"

definition toy_node :: "u256 \<Rightarrow> mp_secret" where
  "toy_node k = (CMPSecretShare k)\<lparr>myBox := toy_D k\<rparr>"

lemma toy_dealer: "dealer_box 2 (toy_D k)" "unat (nPrivKey (toy_D k)) < 2 ^ 255" "list_all (\<lambda>c. unat c < 2 ^ 252) (vCoeff (toy_D k))"
  by (simp_all add: dealer_box_def toy_D_def ob_IsNull_def)

lemma toy_cand_ok: "cand_Verify toy_ed (toy_cand k)" "commits toy_ed toy_D (toy_cand k)"
proof -
  let ?s = "\<lparr>vEncryptedCoeff = [], vEncryptedShare = [], sb_nPubKey = 0, sb_nR = 0, sb_nS = 0\<rparr>"
  have m: "MakeSealedBox toy_ed (toy_D k) ?s k 9 = (True, toy_sealed k 9 (toy_D k))"
    by (simp add: toy_sealed_def MakeSealedBox_def toy_D_def ob_Validate_def split: prod.split)
  show "cand_Verify toy_ed (toy_cand k)" using sealed_verifies[OF toy_laws m toy_dealer(2) _ toy_dealer(3)] by (simp add: toy_cand_def cand_Verify_def)
  show "commits toy_ed toy_D (toy_cand k)" using MakeSealedBox_fields(1,2)[OF m] by (simp add: toy_cand_def commits_def)
qed

lemma toy_sound: "sound_dealing toy_ed (\<lambda>P a. sc_mod P = sc_mod a) toy_D [toy_cand 1, toy_cand 2] 2"
  using toy_cand_ok toy_dealer(1) toy_laws by (simp add: sound_dealing_def weight_of_def) (simp add: toy_cand_def)

lemma toy_member: "member toy_D [toy_cand 1, toy_cand 2] (toy_node 1)" "member toy_D [toy_cand 1, toy_cand 2] (toy_node 2)"
  by (simp_all add: member_def toy_node_def CMPSecretShare_def toy_cand_def)

lemma toy_ident [simp]: "ss_nIdent (toy_node k) = k" by (simp add: toy_node_def CMPSecretShare_def)

theorem enroll_agreement_witness:
  "\<exists>a' b'. Enroll toy_ed [toy_cand 1, toy_cand 2] (toy_node 1) = Inr a' \<and> Enroll toy_ed [toy_cand 1, toy_cand 2] (toy_node 2) = Inr b' \<and>
    nThresh a' = 2 \<and> GetParticipantRange a' 2 = GetParticipantRange b' 2"
  using enroll_agreement[OF toy_sound toy_member] by blast

lemma toy_range: "range_of (\<lambda>_. True) [toy_cand 1, toy_cand 2] = (\<lambda>k. if k = 1 then Some (1, 1) else if k = 2 then Some (2, 1) else None)"
  by (simp add: range_of_def toy_cand_def fun_eq_iff)

theorem deal_round_trip_witness:
  "\<exists>a' b' out enc b'' m vs. Enroll toy_ed [toy_cand 1, toy_cand 2] (toy_node 1) = Inr a' \<and> Enroll toy_ed [toy_cand 1, toy_cand 2] (toy_node 2) = Inr b' \<and>
    Distribute a' [] = Inr out \<and> map_of out 2 = Some enc \<and> Accept toy_ed 1 enc b' = (True, b'') \<and> Publish b'' = Inr m \<and> map_of m 1 = Some vs \<and>
    poly_shares (toy_D 1) 2 2 1 = Inr vs"
proof -
  obtain a' where a: "Enroll toy_ed [toy_cand 1, toy_cand 2] (toy_node 1) = Inr a'" using sound_enroll[OF toy_sound toy_member(1)] by blast
  obtain b' where b: "Enroll toy_ed [toy_cand 1, toy_cand 2] (toy_node 2) = Inr b'"
    "node_ok toy_ed toy_D 2 (1 + weight_of (\<lambda>_. True) [toy_cand 1, toy_cand 2]) (range_of (\<lambda>_. True) [toy_cand 1, toy_cand 2]) 2 b'"
    using sound_enroll[OF toy_sound toy_member(2)] by auto
  have r: "GetParticipantRange b' 2 = Some (2, 1)" using node_okD(4)[OF b(2)] by (simp add: toy_range)
  have n: "(1 :: u256) \<noteq> 2" "myBox (toy_node 1) = toy_D 1" by (simp_all add: toy_node_def)
  show ?thesis using deal_round_trip[OF toy_sound toy_member, unfolded toy_ident n(2), OF n(1) a b(1) r zero_less_one] a b(1) by blast
qed

theorem enroll_bad_key_witness:
  "Enroll (toy_ed\<lparr>ed_Unpack := \<lambda>u. (False, 0)\<rparr>) [toy_cand 2] (toy_node 1) = Inl Bad_Delete"
proof -
  have "\<not> sb_IsNull (sBox (toy_cand 2))" using toy_cand_ok(1)[of 2] by (simp add: cand_Verify_def sb_VerifyIdent_def)
  then show ?thesis by (intro enroll_bad_key[of _ _ "toy_cand 2"]) (simp_all add: toy_cand_def toy_node_def CMPSecretShare_def)
qed

theorem setup_box_witness:
  "(\<exists>s' sb. Setup toy_ed 2 [\<lambda>i. 0, \<lambda>i. 3] mp_null_box (CMPSecretShare 1) = Some (s', sb) \<and>
      cand_Verify toy_ed \<lparr>nIdent = 1, nWeight = 1, sBox = sb\<rparr> \<and> dealer_box 2 (myBox s')) \<and>
   (\<exists>s' sb. Setup toy_ed 2 [\<lambda>i. if i = 0 then 0 else 3] mp_null_box (CMPSecretShare 1) = Some (s', sb) \<and> \<not> dealer_box 2 (myBox s'))"
proof -
  have r: "RandShare 3 = 3" "RandShare 0 = 0" unfolding RandShare_def by (simp_all add: mask_eq_exp_minus_1)
  have g: "find (setup_good 2) [\<lambda>i. 0, \<lambda>i. 3] = Some (\<lambda>i. 3)"
    "find (setup_good 2) [\<lambda>i. if i = 0 then 0 else 3] = Some (\<lambda>i. if i = 0 then 0 else 3)" by (simp_all add: setup_good_def r upt_rec)
  have w: "ss_nIdent (CMPSecretShare 1) = 1" by (simp add: CMPSecretShare_def)
  show ?thesis using setup_box[OF toy_laws, of 2 "[\<lambda>i. 0, \<lambda>i. 3]" mp_null_box "CMPSecretShare 1" 1, unfolded g option.case w r]
    setup_box[OF toy_laws, of 2 "[\<lambda>i. if i = 0 then 0 else 3]" mp_null_box "CMPSecretShare 1" 1, unfolded g option.case w r] r by fastforce
qed

lemma toy_share:
  assumes "k = 1 \<or> k = 2" "x = 1 \<or> x = 2"
  shows "dealt_shares (toy_D k) 2 x 1 [if k = 1 then 5 + 7 * word_of_nat x else 6 + 8 * word_of_nat x]"
proof -
  have x: "unat (word_of_nat x :: u32) = x" using assms(2) by auto
  obtain u where u: "ob_Polynomial (toy_D k) 2 (word_of_nat x) = Inr u" "int (unat u) = sc_mod (poly_at (box_poly (toy_D k) 2) (int x))"
    using ob_Polynomial_val[of "toy_D k" 2 "word_of_nat x"] toy_dealer(1)[of k] assms(2) x by (auto simp: dealer_box_def simp del: of_nat_unat)
  have "sc_mod (poly_at (box_poly (toy_D k) 2) (int x)) = (if k = 1 then 5 + 7 * int x else 6 + 8 * int x)"
    using assms by (auto simp: toy_D_def box_poly_def poly_at_def sc_order_def)
  then have "int (unat u) = int (if k = 1 then 5 + 7 * x else 6 + 8 * x)" using u(2) by (simp del: of_nat_unat)
  then have "unat u = (if k = 1 then 5 + 7 * x else 6 + 8 * x)" by (simp only: of_nat_eq_iff)
  then have "u = (if k = 1 then 5 + 7 * word_of_nat x else 6 + 8 * word_of_nat x)" using assms(2) by (auto simp: word_unat_eq_iff split: if_splits)
  then show ?thesis using u(1) by (simp add: dealt_shares_def)
qed

definition toy_messages :: "(u256 \<times> (u256 \<times> u256 list) list) list" where
  "toy_messages = [(1, [(1, [12]), (2, [14])]), (1, [(1, [12]), (2, [14])]), (2, [(1, [19]), (2, [22])])]"

theorem secret_sharing_witness:
  "\<exists>s1 s2 out. Enroll toy_ed [toy_cand 1, toy_cand 2] (toy_node 1) = Inr s1 \<and> collect_all toy_ed True toy_messages s1 = Inr s2 \<and>
    Reconstruct s2 [] = Inr out \<and> map_of out 2 = Some (6, 1)"
proof -
  let ?cs = "[toy_cand 1, toy_cand 2]" and ?R = "range_of (\<lambda>_. True) [toy_cand 1, toy_cand 2]"
  have v: "\<forall>c \<in> set ?cs. cand_Verify toy_ed c" using toy_cand_ok by simp
  have c: "range_of (counts toy_ed 1) ?cs = ?R" "last_index toy_ed 1 ?cs = 3" "threshold toy_ed 1 ?cs = 2"
    using counts_all[OF v] by (simp_all add: last_index_def threshold_def weight_of_def) (simp_all add: toy_cand_def)
  have h: "honest_message toy_D 2 ?R fm" if "fm \<in> set toy_messages" for fm
    using that toy_share[of 1 1] toy_share[of 1 2] toy_share[of 2 1] toy_share[of 2 2] by (auto simp: toy_messages_def honest_message_def toy_range)
  have w: "honest_weight toy_D 2 ?R 2 toy_messages = 2" using h by (simp add: honest_weight_def honest_senders_def toy_messages_def toy_range)
  have mo: "messages_ok True toy_messages" by (simp add: messages_ok_def toy_messages_def message_ok_def message_reduced_def sc_order_def)
  have s: "secret_of toy_D 2 = 6" by (simp add: secret_of_def toy_D_def sc_order_def)
  have o: "ed_laws toy_ed (\<lambda>P a. sc_mod P = sc_mod a)" "distinct (map nIdent ?cs)" "\<forall>c \<in> set ?cs. commits toy_ed toy_D c \<and> dealer_box 2 (toy_D (nIdent c))"
    using toy_sound unfolding sound_dealing_def by blast+
  have m: "mapParticipant (toy_node 1) = []" "mapOpenedShare (toy_node 1) = []" "1 \<in> nIdent ` set ?cs" "myBox (toy_node 1) = toy_D 1"
    using toy_member(1) by (simp_all add: member_def) (simp add: toy_node_def CMPSecretShare_def)
  have n: "last_index toy_ed 1 ?cs \<le> 52" unfolding c by simp
  obtain s1 s2 out where r: "Enroll toy_ed ?cs (toy_node 1) = Inr s1" "collect_all toy_ed True toy_messages (accept_all toy_ed [] s1) = Inr s2" "Reconstruct s2 [] = Inr out"
    "\<forall>k x w. ?R k = Some (x, w) \<longrightarrow> 0 < w \<longrightarrow> 2 \<le> honest_weight toy_D 2 ?R k toy_messages \<longrightarrow> map_of out k = Some (secret_of toy_D k, w)"
    using secret_sharing[OF o(1,2) m(1,2) toy_ident[symmetric] m(3,4) n c(3)[symmetric] c(1)[symmetric] o(3) mo, of "[]"] by blast
  have "map_of out 2 = Some (6, 1)" using r(4)[rule_format, of 2 2 1] w s by (simp add: toy_range)
  then show ?thesis using r(1-3) by (intro exI[of _ s1] exI[of _ s2] exI[of _ out]) simp
qed

end
