(* ===== verification/Spec2Isabelle.thy ===== *)
theory Spec2Isabelle
  imports Bitmap CircularBuf MerkleTree DataSched Uint256_Ops Schedule_Run MPSharing
begin

text \<open>
  A verification library for the HashAhead node (\<^verbatim>\<open>hah-code\<close>), a blockchain node in C++. The node keeps blocks and transactions
  in a wire format of its own, commits to them with Merkle trees, fetches them from its peers through a scheduler, and
  draws the randomness of its delegated consensus from a publicly verifiable secret sharing. The library models the
  data types and the decision logic of these parts, definition by definition, and proves what they promise.

  \<^bold>\<open>Conventions.\<close> One theory per component; a definition has the name of the function it translates, with a prefix for its
  class. Objects are records, \<^verbatim>\<open>const\<close> and mutating members are functions on them; an exception, a failed
  \<^verbatim>\<open>boost::get\<close> and an access out of range are values of a sum or option type. Fixed-width integers are words, sizes of containers
  are natural numbers. \<^verbatim>\<open>std::map\<close> and \<^verbatim>\<open>std::set\<close> are sorted lists, whose laws the locale \<open>std_less\<close> derives from the comparator
  (\<^verbatim>\<open>HA_Prelude\<close>). Code outside the repository, and parts of it that are only called here (hash functions, signature
  verification, the Ethereum packet parser, the curve operations, the clock), are arguments; where a property relies on
  them it names what it relies on.

  \<^bold>\<open>Integers and streams.\<close> \<^verbatim>\<open>Uint256\<close>, \<^verbatim>\<open>Uint256_Bytes\<close> and \<^verbatim>\<open>Uint256_Ops\<close> model \<^verbatim>\<open>base_uint\<close> and \<^verbatim>\<open>uint256\<close> of \<^verbatim>\<open>src/src/crypto/uint256.h\<close> on
  lists of 32-bit limbs: every operator agrees with the word operation, hexadecimal and byte forms round trip.
  \<^verbatim>\<open>Stream_Codec\<close> models the serialisers of \<^verbatim>\<open>src/src/hnbase/stream/stream.h\<close>; its locale \<open>codec\<close> states what a triple of saver, loader and
  size counter promises, and every wire format of the library is an interpretation. \<^verbatim>\<open>Wide_Words\<close> passes from limb lists to
  words for the components above. \<^verbatim>\<open>Bitmap\<close> and \<^verbatim>\<open>CircularBuf\<close> are the bit set and the ring buffer behind \<^verbatim>\<open>CBufStream\<close>: the
  first refines a finite set, the second a queue with a pending part (locale \<open>byte_queue\<close>).

  \<^bold>\<open>Chain data.\<close> \<^verbatim>\<open>MerkleTree\<close> (\<^verbatim>\<open>merkletree.h\<close>): proofs verify, and where a forged proof verifies, one of the pairs its verification hashed collides with
  the pair of the real proof at the same step.
  \<^verbatim>\<open>TimeVault\<close> and \<^verbatim>\<open>Destination\<close> (\<^verbatim>\<open>src/src/common/destination.cpp\<close>): the account of a vault, the kinds and forms of addresses.
  \<^verbatim>\<open>Transaction\<close> and \<^verbatim>\<open>Block\<close>, with \<^verbatim>\<open>BlockProof\<close> (\<^verbatim>\<open>src/src/common\<close>): wire formats, hashes, what a signature covers, membership
  proofs against the block hash, the canonical form of the proof map.

  \<^bold>\<open>Fetching.\<close> \<^verbatim>\<open>DataSched\<close> (\<^verbatim>\<open>src/src/hnbase/peernet/datasched.h\<close>) and \<^verbatim>\<open>Orphan\<close>, \<^verbatim>\<open>InvPeer\<close>, \<^verbatim>\<open>Schedule\<close> (\<^verbatim>\<open>src/src/blockchain/schedule.cpp\<close>) are the two
  schedulers. \<^verbatim>\<open>Schedule_Inv\<close> shows that every member function keeps the two sides of the bookkeeping in agreement;
  \<^verbatim>\<open>Schedule_Run\<close> closes this over runs, an inductive relation on any sequence of calls, and derives that no call throws, what a
  scheduling round assigns, and what invalidating a block and losing a peer remove.

  \<^bold>\<open>Secret sharing.\<close> \<^verbatim>\<open>Base25519\<close> and \<^verbatim>\<open>SC25519\<close> (\<^verbatim>\<open>src/src/crypto/curve25519\<close>) are the arithmetic of the scalars, at the width of the
  code: additions with carries, Barrett reduction with its 32-bit accumulation, multiplication by small numbers.
  \<^verbatim>\<open>MPTables\<close> holds the two tables of constants and checks each entry. \<^verbatim>\<open>MPInterpolation\<close> proves Newton's scheme of
  \<^verbatim>\<open>src/src/mpvss/mpinterpolation.cpp\<close> against divided differences. \<^verbatim>\<open>MPBox\<close> and \<^verbatim>\<open>MPSecretShare\<close> model \<^verbatim>\<open>mpbox.cpp\<close> and \<^verbatim>\<open>mpvss.cpp\<close>;
  \<^verbatim>\<open>MPEnroll\<close> computes what enrolling leaves, and \<^verbatim>\<open>MPSharing\<close> follows the shares from the dealer through receiver and
  collector to the reconstructed secret. The curve enters through \<open>ed_laws\<close>: points stand for multiples of the base point,
  and equal points for multiples congruent modulo the group order. \<open>toy_ed\<close>, the integers modulo that order, satisfies the
  laws and carries the examples. The laws speak of scalars below \<open>2^255\<close>; that libsodium ignores bit 255 is \<open>top_bit_ignored\<close>, a hypothesis of
  its own, under which \<^verbatim>\<open>VerifyPolynomial\<close> accepts values that \<^verbatim>\<open>CSC25519\<close> reads differently. The main property therefore asks for
  values below \<open>2^255\<close>, and for one message from each sender or for reduced values (\<open>messages_ok\<close>): without them the code does not
  keep the opened places apart.

  \<^bold>\<open>Bounds.\<close> The tables of the secret sharing have 51 rows of 26 powers and inverses for distances up to 50; the properties
  about an exchange assume a total weight of at most 51, where no access leaves them. Loops of the code that may not end
  are options: the constructor of the ring buffer (its loop ends up to a size of \<open>2^63\<close> and not above, and the buffer exists up to
  \<open>2^62\<close>) and \<^verbatim>\<open>Setup\<close>, whose rounds of random numbers are a list: it returns exactly when one of them is taken. Everything else is total.

  \<^bold>\<open>Not modelled.\<close> Third-party code that is in the tree (\<^verbatim>\<open>src/src/crypto/blss\<close>, \<^verbatim>\<open>crypto/keccak\<close>, \<^verbatim>\<open>leveldb\<close>, \<^verbatim>\<open>snappy\<close>, the websocket and port-mapping
  libraries under \<^verbatim>\<open>hnc\<close>, \<^verbatim>\<open>heth\<close>). Input and output and their threads (\<^verbatim>\<open>hnbase/netio\<close>, \<^verbatim>\<open>http\<close>, \<^verbatim>\<open>docker\<close>, \<^verbatim>\<open>peernet\<close>, \<^verbatim>\<open>network\<close>, the RPC and
  websocket services). The databases of \<^verbatim>\<open>storage\<close>, and the modules of \<^verbatim>\<open>blockchain\<close> that work on the chain state in them: the rules of
  \<^verbatim>\<open>core.cpp\<close>, the chain, the transaction pool, the block maker, the exchange, the wallet. The rounds of the delegated consensus
  (\<^verbatim>\<open>delegate\<close>, \<^verbatim>\<open>consensus\<close>) above the secret sharing. The field and the group of the curve (\<^verbatim>\<open>fp25519.cpp\<close>, \<^verbatim>\<open>ed25519.cpp\<close>): their laws are
  hypotheses. The parallel loops of \<^verbatim>\<open>parallel.h\<close> run in order, which is sound because each step works on its own element. Key
  handling (\<^verbatim>\<open>key.cpp\<close>, \<^verbatim>\<open>keystore.cpp\<close>) rests on libsodium. The 32-bit branches of \<^verbatim>\<open>base25519.cpp\<close> are not compiled where 128-bit
  integers exist.
\<close>

end
